(* ===== verification/GoPrelude.thy ===== *)
theory GoPrelude
  imports
    Main
    "HOL-Library.Word"
    "HOL-Library.AList"
    "HOL-Library.Char_ord"
    "HOL-Library.List_Lexorder"
    "HOL-Library.Multiset"
begin

text \<open>
  What every component of the model shares: the Go notions that HOL does not have
  (a call that panics, 64-bit signed integers, \<open>time.Time\<close> and \<open>time.Duration\<close>, the
  byte-string functions of package \<open>strings\<close>, ranging over a map in an unspecified
  order) and the lemmas about them.

  A Go string is a sequence of bytes, which is what \<^typ>\<open>string\<close> is here. A Go map is
  an association list with distinct keys where the code measures or ranges over it, and a
  HOL map where it only looks keys up.
\<close>

section \<open>Outcomes and errors\<close>

text \<open>
  A Go function that may panic returns an \<open>outcome\<close>; a Go function with an \<open>error\<close>
  result returns \<open>string + 'a\<close>, the error text on the left.
\<close>

datatype 'a outcome = Return 'a | Panic string

type_synonym 'a result = "string + 'a"

fun bind_outcome :: "'a outcome \<Rightarrow> ('a \<Rightarrow> 'b outcome) \<Rightarrow> 'b outcome" where
  "bind_outcome (Return x) f = f x"
| "bind_outcome (Panic e) f = Panic e"

fun map_outcome :: "('a \<Rightarrow> 'b) \<Rightarrow> 'a outcome \<Rightarrow> 'b outcome" where
  "map_outcome f (Return x) = Return (f x)"
| "map_outcome f (Panic e) = Panic e"

definition is_return :: "'a outcome \<Rightarrow> bool" where
  "is_return r = (case r of Return _ \<Rightarrow> True | Panic _ \<Rightarrow> False)"

lemma bind_outcome_Return:
  "bind_outcome r f = Return y \<longleftrightarrow> (\<exists>x. r = Return x \<and> f x = Return y)"
  by (cases r) auto

lemma map_outcome_Return:
  "map_outcome f r = Return y \<longleftrightarrow> (\<exists>x. r = Return x \<and> f x = y)"
  by (cases r) auto

section \<open>Signed 64-bit integers\<close>

definition max_int64 :: int where "max_int64 = 9223372036854775807"

definition min_int64 :: int where "min_int64 = -9223372036854775808"

definition in_int64 :: "int \<Rightarrow> bool" where
  "in_int64 x \<longleftrightarrow> min_int64 \<le> x \<and> x \<le> max_int64"

definition wrap64 :: "int \<Rightarrow> int" where
  "wrap64 x = (x + 9223372036854775808) mod 18446744073709551616 - 9223372036854775808"

definition add64 :: "int \<Rightarrow> int \<Rightarrow> int" where
  "add64 a b = wrap64 (a + b)"

text \<open>Go's \<open>/\<close> truncates towards zero; the only quotient that overflows wraps.\<close>

definition quot64 :: "int \<Rightarrow> int \<Rightarrow> int" where
  "quot64 a b = wrap64 (sgn a * sgn b * (\<bar>a\<bar> div \<bar>b\<bar>))"

lemmas int64_defs = max_int64_def min_int64_def in_int64_def

lemma wrap64_id [simp]: "in_int64 x \<Longrightarrow> wrap64 x = x"
  by (simp add: int64_defs wrap64_def)

lemma wrap64_in [simp, intro]: "in_int64 (wrap64 x)"
  using pos_mod_bound [of 18446744073709551616 "x + 9223372036854775808"]
    pos_mod_sign [of 18446744073709551616 "x + 9223372036854775808"]
  unfolding int64_defs wrap64_def by linarith

lemma add64_exact: "in_int64 (a + b) \<Longrightarrow> add64 a b = a + b"
  by (simp add: add64_def)

lemma quot64_nonneg:
  assumes "0 \<le> a" "0 < b" "in_int64 a"
  shows "quot64 a b = a div b"
proof -
  have "0 \<le> a div b" and "a div b \<le> a"
    using assms zdiv_mono2 [of a 1 b] by (auto simp: pos_imp_zdiv_nonneg_iff)
  then have "in_int64 (a div b)"
    using assms by (auto simp: int64_defs)
  then show ?thesis
    using assms by (cases "a = 0") (auto simp: quot64_def)
qed

section \<open>Time\<close>

text \<open>
  A \<open>time.Time\<close> is the number of nanoseconds since the zero time, on one timeline (the
  wall clock and the monotonic reading of a Go time are not told apart); a
  \<open>time.Duration\<close> is a signed 64-bit number of nanoseconds. \<open>Time.Sub\<close> saturates.
\<close>

type_synonym gotime = int
type_synonym duration = int

definition second :: duration where "second = 1000000000"

definition minute :: duration where "minute = 60 * second"

definition hour :: duration where "hour = 60 * minute"

lemmas duration_defs = second_def minute_def hour_def

definition zero_time :: gotime where "zero_time = 0"

definition time_is_zero :: "gotime \<Rightarrow> bool" where
  "time_is_zero t \<longleftrightarrow> t = zero_time"

definition time_before :: "gotime \<Rightarrow> gotime \<Rightarrow> bool" where
  "time_before t u \<longleftrightarrow> t < u"

definition time_sub :: "gotime \<Rightarrow> gotime \<Rightarrow> duration" where
  "time_sub t u =
     (let d = t - u in
      if d < min_int64 then min_int64 else if max_int64 < d then max_int64 else d)"

lemma time_sub_in [simp, intro]: "in_int64 (time_sub t u)"
  by (auto simp: time_sub_def Let_def int64_defs)

lemma time_sub_exact: "in_int64 (t - u) \<Longrightarrow> time_sub t u = t - u"
  by (auto simp: time_sub_def Let_def int64_defs)

lemma time_sub_ge_iff:
  "in_int64 d \<Longrightarrow> min_int64 < d \<Longrightarrow> d \<le> time_sub t u \<longleftrightarrow> d \<le> t - u"
  by (auto simp: time_sub_def Let_def int64_defs)

lemma time_sub_less_iff:
  "in_int64 d \<Longrightarrow> min_int64 < d \<Longrightarrow> time_sub t u < d \<longleftrightarrow> t - u < d"
  by (auto simp: time_sub_def Let_def int64_defs)

lemma time_sub_nonneg: "u \<le> t \<Longrightarrow> 0 \<le> time_sub t u"
  by (auto simp: time_sub_def Let_def int64_defs)

lemma time_sub_le: "u \<le> t \<Longrightarrow> time_sub t u \<le> t - u"
  by (auto simp: time_sub_def Let_def int64_defs)

section \<open>Byte strings\<close>

definition has_prefix :: "string \<Rightarrow> string \<Rightarrow> bool" where
  "has_prefix s p \<longleftrightarrow> take (length p) s = p"

definition has_suffix :: "string \<Rightarrow> string \<Rightarrow> bool" where
  "has_suffix s p \<longleftrightarrow> length p \<le> length s \<and> drop (length s - length p) s = p"

definition trim_prefix :: "string \<Rightarrow> string \<Rightarrow> string" where
  "trim_prefix s p = (if has_prefix s p then drop (length p) s else s)"

definition trim_suffix :: "string \<Rightarrow> string \<Rightarrow> string" where
  "trim_suffix s p = (if has_suffix s p then take (length s - length p) s else s)"

fun contains_str :: "string \<Rightarrow> string \<Rightarrow> bool" where
  "contains_str [] p \<longleftrightarrow> p = []"
| "contains_str (c # cs) p \<longleftrightarrow> has_prefix (c # cs) p \<or> contains_str cs p"

fun join_str :: "string list \<Rightarrow> string \<Rightarrow> string" where
  "join_str [] sep = []"
| "join_str [s] sep = s"
| "join_str (s # t # ss) sep = s @ sep @ join_str (t # ss) sep"

definition is_lower :: "char \<Rightarrow> bool" where
  "is_lower c \<longleftrightarrow> CHR ''a'' \<le> c \<and> c \<le> CHR ''z''"

definition is_upper :: "char \<Rightarrow> bool" where
  "is_upper c \<longleftrightarrow> CHR ''A'' \<le> c \<and> c \<le> CHR ''Z''"

definition is_digit :: "char \<Rightarrow> bool" where
  "is_digit c \<longleftrightarrow> CHR ''0'' \<le> c \<and> c \<le> CHR ''9''"

definition is_alnum :: "char \<Rightarrow> bool" where
  "is_alnum c \<longleftrightarrow> is_lower c \<or> is_upper c \<or> is_digit c"

definition byte_of :: "char \<Rightarrow> nat" where
  "byte_of c = of_char c"

definition to_lower_char :: "char \<Rightarrow> char" where
  "to_lower_char c = (if is_upper c then char_of (byte_of c + 32) else c)"

definition to_upper_char :: "char \<Rightarrow> char" where
  "to_upper_char c = (if is_lower c then char_of (byte_of c - 32) else c)"

text \<open>Character classes and single characters, in terms of the byte.\<close>

lemma byte_of_less [simp]: "byte_of c < 256"
  unfolding byte_of_def by (rule nat_of_char_less_256)

lemma byte_of_char_of [simp]: "byte_of (char_of n) = n mod 256"
  by (simp add: byte_of_def)

lemma is_upper_byte: "is_upper c \<longleftrightarrow> 65 \<le> byte_of c \<and> byte_of c \<le> 90"
  by (simp add: is_upper_def byte_of_def less_eq_char_def)

lemma is_lower_byte: "is_lower c \<longleftrightarrow> 97 \<le> byte_of c \<and> byte_of c \<le> 122"
  by (simp add: is_lower_def byte_of_def less_eq_char_def)

lemma is_digit_byte: "is_digit c \<longleftrightarrow> 48 \<le> byte_of c \<and> byte_of c \<le> 57"
  by (simp add: is_digit_def byte_of_def less_eq_char_def)

lemma char_eq_byte: "c = d \<longleftrightarrow> byte_of c = byte_of d"
  by (simp add: byte_of_def)

lemmas char_bytes = is_upper_byte is_lower_byte is_digit_byte

lemma has_prefix_append [simp]: "has_prefix (p @ s) p"
  by (simp add: has_prefix_def)

lemma has_prefixD: "has_prefix s p \<Longrightarrow> s = p @ drop (length p) s"
  by (metis append_take_drop_id has_prefix_def)

lemma has_prefix_iff: "has_prefix s p \<longleftrightarrow> (\<exists>t. s = p @ t)"
  by (metis has_prefixD has_prefix_append)

lemma has_suffix_append [simp]: "has_suffix (s @ p) p"
  by (simp add: has_suffix_def)

lemma has_suffix_iff: "has_suffix s p \<longleftrightarrow> (\<exists>t. s = t @ p)"
proof
  assume "has_suffix s p"
  then have "s = take (length s - length p) s @ p"
    by (metis append_take_drop_id has_suffix_def)
  then show "\<exists>t. s = t @ p" by blast
qed auto

lemma trim_prefix_append [simp]: "trim_prefix (p @ s) p = s"
  by (simp add: trim_prefix_def)

lemma trim_suffix_append [simp]: "trim_suffix (s @ p) p = s"
  by (simp add: trim_suffix_def)

lemma trim_suffix_id: "\<not> has_suffix s p \<Longrightarrow> trim_suffix s p = s"
  by (simp add: trim_suffix_def)

lemma set_trim_suffix: "set (trim_suffix s p) \<subseteq> set s"
  by (auto simp: trim_suffix_def dest: in_set_takeD)

lemma contains_str_iff: "contains_str s p \<longleftrightarrow> (\<exists>u v. s = u @ p @ v)"
proof (induction s)
  case Nil
  then show ?case by auto
next
  case (Cons c cs)
  have "(\<exists>u v. c # cs = u @ p @ v) \<longleftrightarrow> (\<exists>v. c # cs = p @ v) \<or> (\<exists>u v. cs = u @ p @ v)"
    by (metis append_Cons append_Nil list.sel(3) neq_Nil_conv)
  then show ?case
    by (simp add: Cons.IH has_prefix_iff)
qed

section \<open>Ranging over a map\<close>

text \<open>
  Go ranges over a map in an order the language leaves open. A model of such a loop takes
  the order the runtime happens to use as an argument: a function that enumerates the
  entries of the map it is given.
\<close>

type_synonym ('k, 'v) gomap = "('k \<times> 'v) list"

type_synonym ('k, 'v) range_fn = "('k, 'v) gomap \<Rightarrow> ('k \<times> 'v) list"

definition range_order :: "('k, 'v) range_fn \<Rightarrow> bool" where
  "range_order ord \<longleftrightarrow> (\<forall>m. mset (ord m) = mset m)"

definition gomap_ok :: "('k, 'v) gomap \<Rightarrow> bool" where
  "gomap_ok m \<longleftrightarrow> distinct (map fst m)"

lemma range_order_set [simp]: "range_order ord \<Longrightarrow> set (ord m) = set m"
  by (metis mset_eq_setD range_order_def)

lemma range_order_id: "range_order (\<lambda>m. m)" and range_order_rev: "range_order rev"
  by (simp_all add: range_order_def)

lemma range_order_ok:
  assumes "range_order ord" and "gomap_ok m"
  shows "distinct (map fst (ord m))"
proof -
  have "mset (map fst (ord m)) = mset (map fst m)"
    using assms(1) by (simp add: range_order_def)
  then show ?thesis
    using assms(2) by (metis gomap_ok_def mset_eq_imp_distinct_iff)
qed

lemma gomap_ok_update [simp]: "gomap_ok m \<Longrightarrow> gomap_ok (AList.update k v m)"
  by (simp add: gomap_ok_def distinct_update)

lemma gomap_ok_delete [simp]: "gomap_ok m \<Longrightarrow> gomap_ok (AList.delete k m)"
  by (simp add: gomap_ok_def distinct_delete)

lemma gomap_ok_Nil [simp]: "gomap_ok []"
  by (simp add: gomap_ok_def)

lemma gomap_lookup_iff: "gomap_ok m \<Longrightarrow> map_of m k = Some v \<longleftrightarrow> (k, v) \<in> set m"
  by (auto simp: gomap_ok_def)

lemma gomap_unique: "gomap_ok m \<Longrightarrow> (k, v) \<in> set m \<Longrightarrow> (k, w) \<in> set m \<Longrightarrow> v = w"
  unfolding gomap_ok_def by (rule eq_key_imp_eq_value)

lemma gomap_ok_filter [simp]: "gomap_ok m \<Longrightarrow> gomap_ok (filter P m)"
  by (simp add: gomap_ok_def distinct_map_filter)

lemma map_of_filter_gomap:
  "gomap_ok m \<Longrightarrow> map_of (filter (\<lambda>(k, v). P k v) m) k =
     (case map_of m k of None \<Rightarrow> None | Some v \<Rightarrow> if P k v then Some v else None)"
  by (induction m) (force simp: gomap_ok_def image_iff split: option.splits dest: map_of_SomeD)+

lemma gomap_keys_update: "fst ` set (AList.update k v m) = insert k (fst ` set m)"
  by (induction m) auto

lemma length_update_new: "map_of m k = None \<Longrightarrow> length (AList.update k v m) = Suc (length m)"
  by (induction m) (auto split: if_splits)

lemma length_update_old:
  "map_of m k = Some b \<Longrightarrow> length (AList.update k v m) = length m"
  by (induction m) (auto split: if_splits)

lemma length_update_le: "length (AList.update k v m) \<le> Suc (length m)"
  by (induction m) auto

lemma length_delete_le': "length (AList.delete k m) \<le> length m"
  by (rule length_delete_le)

lemma length_delete_less:
  assumes "k \<in> fst ` set m"
  shows "length (AList.delete k m) < length m"
proof -
  obtain v where "(k, v) \<in> set m" using assms by auto
  then show ?thesis
    unfolding AList.delete_eq by (rule length_filter_less) simp
qed

end
