(* ===== verification/GoJson.thy ===== *)
theory GoJson
  imports GoPrelude
begin

text \<open>
  JSON values as Go's \<open>encoding/json\<close> sees them: a tree with numbers kept as the text they
  are written with and objects as lists of members. The conversion between bytes and trees is
  an argument of the definitions that need it; what the code does with the tree (reading struct
  fields, type assertions, building responses) is modelled here and in the components.
\<close>

datatype json =
    JNull
  | JBool bool
  | JNumber string
  | JString string
  | JArray "json list"
  | JObject "(string \<times> json) list"

text \<open>\<open>v, _ := m[k].(string)\<close> and \<open>v, ok := m[k].([]any)\<close>.\<close>

definition get_string :: "(string \<rightharpoonup> json) \<Rightarrow> string \<Rightarrow> string" where
  "get_string m k = (case m k of Some (JString s) \<Rightarrow> s | _ \<Rightarrow> '''')"

definition get_array :: "(string \<rightharpoonup> json) \<Rightarrow> string \<Rightarrow> json list option" where
  "get_array m k = (case m k of Some (JArray vs) \<Rightarrow> Some vs | _ \<Rightarrow> None)"

text \<open>\<open>strconv.Itoa\<close> for numbers that are not negative.\<close>

fun itoa_digits :: "nat \<Rightarrow> string" where
  "itoa_digits n =
     (if n < 10 then [char_of (48 + n)] else itoa_digits (n div 10) @ [char_of (48 + n mod 10)])"

declare itoa_digits.simps [simp del]

text \<open>
  A struct field is filled from the last member of that name; a member of another type is an
  error, \<open>null\<close> and a missing member leave the value that was there. Names match up to Unicode
  simple case folding, which besides the ASCII letters identifies U+212A (Kelvin) with k and
  U+017F (long s) with s.
\<close>

fun fold_name :: "string \<Rightarrow> string" where
  "fold_name [] = []"
| "fold_name (c # cs) =
     (if has_prefix (c # cs) [CHR 0xE2, CHR 0x84, CHR 0xAA] then CHR ''k'' # fold_name (drop 2 cs)
      else if has_prefix (c # cs) [CHR 0xC5, CHR 0xBF] then CHR ''s'' # fold_name (drop 1 cs)
      else to_lower_char c # fold_name cs)"

fun string_field :: "string \<Rightarrow> (string \<times> json) list \<Rightarrow> string \<Rightarrow> string option" where
  "string_field f [] acc = Some acc"
| "string_field f ((k, v) # kvs) acc =
     (if fold_name k = fold_name f then
        (case v of
           JString s \<Rightarrow> string_field f kvs s
         | JNull \<Rightarrow> string_field f kvs acc
         | _ \<Rightarrow> None)
      else string_field f kvs acc)"

lemma get_array_Some: "get_array m k = Some vs \<longleftrightarrow> m k = Some (JArray vs)"
  by (auto simp: get_array_def split: option.splits json.splits)

end
