(* ===== verification/Jwk.thy ===== *)
theory Jwk
  imports GoJson
begin

text \<open>
  The verification keys of internal/auth/jwt.go: decoding of a JWKS document into the map
  from key id to public key that the cache holds (\<open>jwkSet\<close>, \<open>parseRSAJWK\<close>, \<open>parseECJWK\<close>, the
  loop of \<open>fetch\<close>), down to unpadded base64url, the big-endian integers and the P-256 curve
  equation. The lemmas characterise exactly which entries are accepted.
\<close>

section \<open>base64.RawURLEncoding\<close>

definition b64url_value :: "char \<Rightarrow> nat option" where
  "b64url_value c =
     (if is_upper c then Some (byte_of c - 65)
      else if is_lower c then Some (byte_of c - 71)
      else if is_digit c then Some (byte_of c + 4)
      else if c = CHR ''-'' then Some 62
      else if c = CHR ''_'' then Some 63
      else None)"

text \<open>
  The decoder skips CR and LF, rejects any other foreign byte, and turns each group of four
  sextets into three bytes; a last group of two or three gives one or two bytes (trailing bits
  ignored), a last group of one is an error.
\<close>

fun b64_quads :: "nat list \<Rightarrow> nat list option" where
  "b64_quads [] = Some []"
| "b64_quads [a] = None"
| "b64_quads [a, b] = Some [(a * 4 + b div 16) mod 256]"
| "b64_quads [a, b, c] = Some [(a * 4 + b div 16) mod 256, (b * 16 + c div 4) mod 256]"
| "b64_quads (a # b # c # d # rest) =
     map_option (\<lambda>bs. (a * 4 + b div 16) mod 256 # (b * 16 + c div 4) mod 256 # (c * 64 + d) mod 256 # bs)
       (b64_quads rest)"

fun sextets :: "string \<Rightarrow> nat list option" where
  "sextets [] = Some []"
| "sextets (c # cs) =
     (if c = CHR 0x0A \<or> c = CHR 0x0D then sextets cs
      else case b64url_value c of
        None \<Rightarrow> None
      | Some v \<Rightarrow> map_option (\<lambda>vs. v # vs) (sextets cs))"

definition b64url_decode :: "string \<Rightarrow> nat list option" where
  "b64url_decode s = (case sextets s of None \<Rightarrow> None | Some vs \<Rightarrow> b64_quads vs)"

text \<open>The encoder, as the reference the decoder is checked against.\<close>

definition b64url_char :: "nat \<Rightarrow> char" where
  "b64url_char v =
     (if v < 26 then char_of (v + 65) else if v < 52 then char_of (v + 71)
      else if v < 62 then char_of (v - 4) else if v = 62 then CHR ''-'' else CHR ''_'')"

fun b64url_encode :: "nat list \<Rightarrow> string" where
  "b64url_encode [] = []"
| "b64url_encode [x] = map b64url_char [x div 4, x mod 4 * 16]"
| "b64url_encode [x, y] = map b64url_char [x div 4, x mod 4 * 16 + y div 16, y mod 16 * 4]"
| "b64url_encode (x # y # z # rest) =
     map b64url_char [x div 4, x mod 4 * 16 + y div 16, y mod 16 * 4 + z div 64, z mod 64]
     @ b64url_encode rest"

section \<open>Public keys\<close>

datatype pubkey = RSAKey nat int | ECKey nat nat

datatype jwk_error = BadBase64 | ModulusTooSmall | InvalidExponent | UnsupportedCurve
  | InvalidCoordinateLength | InvalidPoint

text \<open>\<open>big.Int.SetBytes\<close> and \<open>big.Int.BitLen\<close>.\<close>

definition be_nat :: "nat list \<Rightarrow> nat" where
  "be_nat bs = foldl (\<lambda>n b. n * 256 + b) 0 bs"

fun bit_len :: "nat \<Rightarrow> nat" where
  "bit_len n = (if n = 0 then 0 else Suc (bit_len (n div 2)))"

declare bit_len.simps [simp del]

definition minRSAKeyBits :: nat where "minRSAKeyBits = 2048"

definition maxRSAExponentBytes :: nat where "maxRSAExponentBytes = 4"

text \<open>\<open>e = e<<8 | int(b)\<close> on a 64-bit int.\<close>

definition exponent_loop :: "nat list \<Rightarrow> 64 word" where
  "exponent_loop bs = foldl (\<lambda>e b. or (push_bit 8 e) (word_of_nat b)) 0 bs"

definition parseRSAJWK :: "string \<Rightarrow> string \<Rightarrow> jwk_error + pubkey" where
  "parseRSAJWK nB64 eB64 =
     (case b64url_decode nB64 of
        None \<Rightarrow> Inl BadBase64
      | Some nBytes \<Rightarrow>
          let n = be_nat nBytes in
          if bit_len n < minRSAKeyBits then Inl ModulusTooSmall
          else case b64url_decode eB64 of
            None \<Rightarrow> Inl BadBase64
          | Some eBytes \<Rightarrow>
              if maxRSAExponentBytes < length eBytes then Inl InvalidExponent
              else
                let e = exponent_loop eBytes in
                if sint e < 3 \<or> sint e mod 2 = 0 then Inl InvalidExponent
                else Inr (RSAKey n (sint e)))"

text \<open>
  P-256 and \<open>ecdsa.ParseUncompressedPublicKey\<close>: 65 bytes starting with 4, both coordinates
  reduced, and the point on the curve \<open>y\<^sup>2 = x\<^sup>3 - 3x + b\<close>.
\<close>

definition p256_p :: nat where
  "p256_p = 0xffffffff00000001000000000000000000000000ffffffffffffffffffffffff"

definition p256_b :: nat where
  "p256_b = 0x5ac635d8aa3a93e7b3ebbd55769886bc651d06b0cc53b0f63bce3c3e27d2604b"

definition on_p256 :: "nat \<Rightarrow> nat \<Rightarrow> bool" where
  "on_p256 x y \<longleftrightarrow> x < p256_p \<and> y < p256_p \<and>
     (y * y + 3 * x) mod p256_p = (x * x * x + p256_b) mod p256_p"

definition parse_uncompressed :: "nat list \<Rightarrow> jwk_error + pubkey" where
  "parse_uncompressed pt =
     (if length pt = 65 \<and> hd pt = 4 \<and> on_p256 (be_nat (take 32 (tl pt))) (be_nat (drop 32 (tl pt)))
      then Inr (ECKey (be_nat (take 32 (tl pt))) (be_nat (drop 32 (tl pt))))
      else Inl InvalidPoint)"

text \<open>\<open>copy(dst[lo:], src)\<close> into a buffer.\<close>

definition copy_at :: "nat list \<Rightarrow> nat \<Rightarrow> nat list \<Rightarrow> nat list" where
  "copy_at buf lo src = take lo buf @ src @ drop (lo + length src) buf"

definition coordLen :: nat where "coordLen = 32"

definition parseECJWK :: "string \<Rightarrow> string \<Rightarrow> string \<Rightarrow> jwk_error + pubkey" where
  "parseECJWK crv xB64 yB64 =
     (if crv \<noteq> ''P-256'' then Inl UnsupportedCurve
      else case b64url_decode xB64 of
        None \<Rightarrow> Inl BadBase64
      | Some xBytes \<Rightarrow>
          (case b64url_decode yB64 of
             None \<Rightarrow> Inl BadBase64
           | Some yBytes \<Rightarrow>
               if coordLen < length xBytes \<or> coordLen < length yBytes
               then Inl InvalidCoordinateLength
               else
                 let point = replicate (1 + 2 * coordLen) 0;
                     point = point[0 := 4];
                     point = copy_at point (1 + coordLen - length xBytes) xBytes;
                     point = copy_at point (1 + 2 * coordLen - length yBytes) yBytes
                 in parse_uncompressed point))"

section \<open>The key set\<close>

record jwk =
  KeyType :: string
  KeyID :: string
  Use :: string
  jwk_N :: string
  jwk_E :: string
  jwk_X :: string
  jwk_Y :: string
  Curve :: string

text \<open>
  Decoding one element of \<open>keys\<close> into a struct, and the document. A member that occurs twice is
  decoded over the elements of the first array, as \<open>encoding/json\<close> does: the backing array keeps
  what lies beyond the new length.
\<close>

definition zero_jwk :: jwk where
  "zero_jwk = \<lparr>KeyType = '''', KeyID = '''', Use = '''', jwk_N = '''', jwk_E = '''',
     jwk_X = '''', jwk_Y = '''', Curve = ''''\<rparr>"

definition decode_jwk :: "jwk \<Rightarrow> json \<Rightarrow> jwk option" where
  "decode_jwk k j =
     (case j of
        JObject kvs \<Rightarrow>
          (case (string_field ''kty'' kvs (KeyType k), string_field ''kid'' kvs (KeyID k),
                 string_field ''use'' kvs (Use k), string_field ''n'' kvs (jwk_N k),
                 string_field ''e'' kvs (jwk_E k), string_field ''x'' kvs (jwk_X k),
                 string_field ''y'' kvs (jwk_Y k), string_field ''crv'' kvs (Curve k)) of
             (Some kty, Some kid, Some use, Some n, Some e, Some x, Some y, Some crv) \<Rightarrow>
               Some \<lparr>KeyType = kty, KeyID = kid, Use = use, jwk_N = n, jwk_E = e,
                     jwk_X = x, jwk_Y = y, Curve = crv\<rparr>
           | _ \<Rightarrow> None)
      | JNull \<Rightarrow> Some k
      | _ \<Rightarrow> None)"

fun decode_elems :: "jwk list \<Rightarrow> json list \<Rightarrow> jwk list option" where
  "decode_elems backing [] = Some []"
| "decode_elems backing (j # js) =
     (case decode_jwk (case backing of [] \<Rightarrow> zero_jwk | k # _ \<Rightarrow> k) j of
        None \<Rightarrow> None
      | Some k \<Rightarrow> map_option (\<lambda>ks. k # ks) (decode_elems (drop 1 backing) js))"

fun decode_keys_field :: "(string \<times> json) list \<Rightarrow> jwk list \<times> jwk list \<Rightarrow> jwk list option" where
  "decode_keys_field [] (ks, hidden) = Some ks"
| "decode_keys_field ((name, v) # kvs) (ks, hidden) =
     (if fold_name name = ''keys'' then
        (case v of
           JArray [] \<Rightarrow> decode_keys_field kvs ([], [])
         | JArray vs \<Rightarrow> (case decode_elems (ks @ hidden) vs of
                            None \<Rightarrow> None
                          | Some ks' \<Rightarrow> decode_keys_field kvs (ks', drop (length ks') (ks @ hidden)))
         | JNull \<Rightarrow> decode_keys_field kvs ([], [])
         | _ \<Rightarrow> None)
      else decode_keys_field kvs (ks, hidden))"

definition decode_jwkSet :: "json \<Rightarrow> jwk list option" where
  "decode_jwkSet j =
     (case j of JObject kvs \<Rightarrow> decode_keys_field kvs ([], []) | JNull \<Rightarrow> Some [] | _ \<Rightarrow> None)"

text \<open>The loop of \<open>fetch\<close> over the decoded entries.\<close>

definition add_jwk :: "jwk \<Rightarrow> (string \<rightharpoonup> pubkey) \<Rightarrow> (string \<rightharpoonup> pubkey)" where
  "add_jwk k keys =
     (if KeyID k = '''' then keys
      else if Use k \<noteq> '''' \<and> Use k \<noteq> ''sig'' then keys
      else if KeyType k = ''RSA'' then
        (case parseRSAJWK (jwk_N k) (jwk_E k) of Inl _ \<Rightarrow> keys | Inr key \<Rightarrow> keys(KeyID k \<mapsto> key))
      else if KeyType k = ''EC'' then
        (case parseECJWK (Curve k) (jwk_X k) (jwk_Y k) of
           Inl _ \<Rightarrow> keys | Inr key \<Rightarrow> keys(KeyID k \<mapsto> key))
      else keys)"

fun collect_keys :: "jwk list \<Rightarrow> (string \<rightharpoonup> pubkey) \<Rightarrow> (string \<rightharpoonup> pubkey)" where
  "collect_keys [] keys = keys"
| "collect_keys (k # ks) keys = collect_keys ks (add_jwk k keys)"

section \<open>base64: decoding inverts encoding\<close>

lemma b64url_value_char: "v < 64 \<Longrightarrow> b64url_value (b64url_char v) = Some v"
  by (auto simp: b64url_value_def b64url_char_def char_bytes byte_of_def of_char_eq_iff)

lemma b64url_char_not_newline: "v < 64 \<Longrightarrow> b64url_char v \<noteq> CHR 0x0A \<and> b64url_char v \<noteq> CHR 0x0D"
  by (auto simp: b64url_char_def char_eq_byte [of "char_of _"]) (auto simp: byte_of_def)

lemma sextets_char:
  "v < 64 \<Longrightarrow> sextets (b64url_char v # cs) = map_option (\<lambda>vs. v # vs) (sextets cs)"
  using b64url_value_char [of v] b64url_char_not_newline [of v] by simp

lemma split_bounds:
  assumes "x < (256::nat)"
  shows "x div 4 < 64" "x mod 4 * 16 < 64" "x mod 16 * 4 < 64" "x mod 64 < 64"
    "y mod 4 * 16 + x div 16 < 64" "y mod 16 * 4 + x div 64 < 64"
proof -
  have "x mod 4 < 4" "x mod 16 < 16" "y mod 4 < 4" "y mod 16 < 16" "x div 16 < 16" "x div 64 < 4"
    "x div 4 < 64"
    using assms by (auto simp: less_mult_imp_div_less)
  then show "x div 4 < 64" "x mod 4 * 16 < 64" "x mod 16 * 4 < 64" "x mod 64 < 64"
    "y mod 4 * 16 + x div 16 < 64" "y mod 16 * 4 + x div 64 < 64"
    by auto
qed

text \<open>Reassembling the three bytes from the four sextets.\<close>

lemma join_sextets:
  assumes "x < (256::nat)" "y < 256" "z < 256"
  shows "(x div 4 * 4 + (x mod 4 * 16 + y div 16) div 16) mod 256 = x"
    "(x div 4 * 4 + (x mod 4 * 16) div 16) mod 256 = x"
    "((x mod 4 * 16 + y div 16) * 16 + (y mod 16 * 4 + z div 64) div 4) mod 256 = y"
    "((x mod 4 * 16 + y div 16) * 16 + (y mod 16 * 4) div 4) mod 256 = y"
    "((y mod 16 * 4 + z div 64) * 64 + z mod 64) mod 256 = z"
proof -
  have s: "y div 16 < 16" "z div 64 < 4"
    using assms by (auto simp: less_mult_imp_div_less)
  then show "(x div 4 * 4 + (x mod 4 * 16 + y div 16) div 16) mod 256 = x"
    "(x div 4 * 4 + (x mod 4 * 16) div 16) mod 256 = x"
    using assms by simp_all
  have "((x mod 4 * 16 + y div 16) * 16 + q) mod 256 = y" if "q = y mod 16" for q
  proof -
    have "(x mod 4 * 16 + y div 16) * 16 + q = x mod 4 * 256 + (y div 16 * 16 + q)"
      by (simp add: algebra_simps)
    also have "y div 16 * 16 + q = y"
      using that by simp
    finally have eq: "(x mod 4 * 16 + y div 16) * 16 + q = x mod 4 * 256 + y" .
    show ?thesis unfolding eq using assms by simp
  qed
  then show "((x mod 4 * 16 + y div 16) * 16 + (y mod 16 * 4 + z div 64) div 4) mod 256 = y"
    "((x mod 4 * 16 + y div 16) * 16 + (y mod 16 * 4) div 4) mod 256 = y"
    using s by simp_all
  have "(y mod 16 * 4 + z div 64) * 64 + z mod 64 = y mod 16 * 256 + z"
    by (simp add: algebra_simps)
  then show "((y mod 16 * 4 + z div 64) * 64 + z mod 64) mod 256 = z"
    using assms by simp
qed

lemma b64_roundtrip:
  "\<forall>b \<in> set bs. b < 256 \<Longrightarrow> \<exists>vs. sextets (b64url_encode bs) = Some vs \<and> b64_quads vs = Some bs"
proof (induction bs rule: b64url_encode.induct)
  case 1
  then show ?case by simp
next
  case (2 x)
  then have "x < 256" by simp
  then show ?case
    by (simp add: sextets_char split_bounds join_sextets del: sextets.simps(2))
next
  case (3 x y)
  then have "x < 256" "y < 256" by auto
  then show ?case
    by (simp add: sextets_char split_bounds join_sextets del: sextets.simps(2))
next
  case (4 x y z rest)
  then have b: "x < 256" "y < 256" "z < 256" by auto
  obtain vs where "sextets (b64url_encode rest) = Some vs" "b64_quads vs = Some rest"
    using 4 by auto
  with b show ?case
    by (simp add: sextets_char split_bounds join_sextets del: sextets.simps(2))
qed

lemma b64url_decode_encode:
  assumes "\<forall>b \<in> set bs. b < 256" shows "b64url_decode (b64url_encode bs) = Some bs"
  using b64_roundtrip [OF assms] by (auto simp: b64url_decode_def)

lemma b64_quads_bytes: "b64_quads vs = Some bs \<Longrightarrow> \<forall>b \<in> set bs. b < 256"
  by (induction vs arbitrary: bs rule: b64_quads.induct) auto

lemma b64url_decode_bytes: "b64url_decode s = Some bs \<Longrightarrow> b \<in> set bs \<Longrightarrow> b < 256"
  using b64_quads_bytes by (auto simp: b64url_decode_def split: option.splits)

section \<open>Big-endian integers\<close>

lemma bit_len_le: "bit_len n \<le> k \<longleftrightarrow> n < 2 ^ k"
proof (induction n arbitrary: k rule: bit_len.induct)
  case (1 n)
  show ?case
  proof (cases k)
    case 0
    then show ?thesis by (subst bit_len.simps) auto
  next
    case (Suc j)
    then show ?thesis
      using 1 [of j] by (subst bit_len.simps) (auto simp: less_mult_imp_div_less)
  qed
qed

lemma be_nat_snoc [simp]: "be_nat (bs @ [b]) = be_nat bs * 256 + b"
  by (simp add: be_nat_def)

lemma be_nat_Nil [simp]: "be_nat [] = 0"
  by (simp add: be_nat_def)

lemma be_nat_bound: "\<forall>b \<in> set bs. b < 256 \<Longrightarrow> be_nat bs < 256 ^ length bs"
proof (induction bs rule: rev_induct)
  case (snoc b bs)
  then have "Suc (be_nat bs) * 256 \<le> 256 ^ length bs * 256"
    by (intro mult_le_mono1) (simp add: Suc_le_eq)
  with snoc show ?case by simp
qed simp

lemma be_nat_zeros [simp]: "be_nat (replicate k 0 @ bs) = be_nat bs"
proof -
  have "foldl (\<lambda>n b. n * 256 + b) 0 (replicate k 0) = (0::nat)"
    by (induction k) simp_all
  then show ?thesis by (simp add: be_nat_def)
qed

text \<open>
  With at most four bytes the shift-and-or loop computes the big-endian number: nothing is
  shifted out, the or adds, and the sign bit stays clear.
\<close>

lemma exponent_loop_unat:
  "\<forall>b \<in> set bs. b < 256 \<Longrightarrow> length bs \<le> 7 \<Longrightarrow> unat (exponent_loop bs) = be_nat bs"
proof (induction bs rule: rev_induct)
  case Nil
  then show ?case by (simp add: exponent_loop_def)
next
  case (snoc b bs)
  let ?e = "exponent_loop bs"
  have e: "unat ?e = be_nat bs" and b: "b < 256"
    using snoc by auto
  have bound: "be_nat bs < 256 ^ length bs"
    using snoc.prems by (intro be_nat_bound) auto
  also have "(256::nat) ^ length bs \<le> 256 ^ 6"
    using snoc.prems by (intro power_increasing) auto
  finally have lt: "be_nat bs * 256 < 2 ^ 56" by simp
  have "push_bit 8 ?e = ?e * 256"
    by (simp add: push_bit_eq_mult)
  then have shift: "unat (push_bit 8 ?e) = be_nat bs * 256"
    using lt by (simp add: unat_word_ariths(2) e)
  have w: "unat (word_of_nat b :: 64 word) = b"
    using b by (simp add: unat_of_nat)
  have disj: "and (push_bit 8 ?e) (word_of_nat b) = 0"
  proof (rule bit_eqI)
    fix n
    have "\<not> bit b n" if "8 \<le> n"
    proof -
      have "b < 2 ^ n"
        using b power_increasing [OF that, of "2::nat"] by simp
      then show ?thesis by (simp add: bit_iff_odd)
    qed
    then show "bit (and (push_bit 8 ?e) (word_of_nat b)) n = bit (0 :: 64 word) n"
      by (auto simp: bit_and_iff bit_push_bit_iff bit_of_nat_iff)
  qed
  have "or (push_bit 8 ?e) (word_of_nat b) = push_bit 8 ?e + word_of_nat b"
    using disj by (simp add: disjunctive_add_eq_or)
  moreover have "unat (push_bit 8 ?e + word_of_nat b) = be_nat bs * 256 + b"
    using lt b by (simp add: unat_word_ariths(1) shift w)
  ultimately show ?case
    by (simp add: exponent_loop_def)
qed

lemma exponent_loop_sint:
  assumes "\<forall>b \<in> set bs. b < 256" and "length bs \<le> 4"
  shows "sint (exponent_loop bs) = int (be_nat bs)"
proof -
  have "be_nat bs < 256 ^ length bs" by (rule be_nat_bound [OF assms(1)])
  also have "(256::nat) ^ length bs \<le> 256 ^ 4"
    using assms(2) by (intro power_increasing) auto
  finally have lt: "be_nat bs < 2 ^ 32" by simp
  have "unat (exponent_loop bs) = be_nat bs"
    using assms by (intro exponent_loop_unat) auto
  then have "uint (exponent_loop bs) = int (be_nat bs)"
    by (metis uint_nat)
  with lt show ?thesis
    by (simp add: sint_uint signed_take_bit_int_eq_self)
qed

section \<open>Which entries are accepted\<close>

lemma parseRSAJWK_Inr:
  "parseRSAJWK nB64 eB64 = Inr k \<longleftrightarrow>
     (\<exists>nb eb. b64url_decode nB64 = Some nb \<and> b64url_decode eB64 = Some eb
        \<and> 2 ^ 2047 \<le> be_nat nb \<and> length eb \<le> 4 \<and> 3 \<le> be_nat eb \<and> odd (be_nat eb)
        \<and> k = RSAKey (be_nat nb) (int (be_nat eb)))"
proof -
  have sint: "sint (exponent_loop eb) = int (be_nat eb)"
    if "b64url_decode eB64 = Some eb" "length eb \<le> 4" for eb
    using that b64url_decode_bytes by (intro exponent_loop_sint) auto
  have weak: "bit_len n < minRSAKeyBits \<longleftrightarrow> n < 2 ^ 2047" for n
    using bit_len_le [of n 2047] by (simp add: minRSAKeyBits_def less_eq_Suc_le)
  have parity: "int m mod 2 = 0 \<longleftrightarrow> even m" for m
    by presburger
  show ?thesis
    by (auto simp: parseRSAJWK_def Let_def weak sint maxRSAExponentBytes_def parity not_less
        simp del: power_numeral split: option.splits)
qed

text \<open>C16: An RSA entry is accepted exactly when both fields are base64url, the modulus has at least
  2048 bits (leading zero bytes do not count), and the exponent is at most four bytes, odd and at
  least 3; the key then carries the big-endian numbers, with no overflow in the shift loop.\<close>

theorem parseRSAJWK_accepts:
  "parseRSAJWK nB64 eB64 = Inr k \<longleftrightarrow>
     (\<exists>nb eb. b64url_decode nB64 = Some nb \<and> b64url_decode eB64 = Some eb
        \<and> 2 ^ 2047 \<le> be_nat nb \<and> length eb \<le> 4 \<and> 3 \<le> be_nat eb \<and> odd (be_nat eb)
        \<and> k = RSAKey (be_nat nb) (int (be_nat eb)))"
  by (rule parseRSAJWK_Inr)

text \<open>\<open>RSAKey\<close> and \<open>ECKey\<close> values that may verify a signature.\<close>

fun key_ok :: "pubkey \<Rightarrow> bool" where
  "key_ok (RSAKey n e) \<longleftrightarrow> 2 ^ 2047 \<le> n \<and> 3 \<le> e \<and> e < 2 ^ 32 \<and> odd e"
| "key_ok (ECKey x y) \<longleftrightarrow> on_p256 x y"

lemma parseRSAJWK_key_ok: "parseRSAJWK n e = Inr k \<Longrightarrow> key_ok k"
proof -
  assume "parseRSAJWK n e = Inr k"
  then obtain nb eb where e: "b64url_decode e = Some eb" "length eb \<le> 4" "3 \<le> be_nat eb" "odd (be_nat eb)"
    and k: "2 ^ 2047 \<le> be_nat nb" "k = RSAKey (be_nat nb) (int (be_nat eb))"
    by (auto simp: parseRSAJWK_Inr simp del: power_numeral)
  have "be_nat eb < 256 ^ length eb"
    using b64url_decode_bytes [OF e(1)] by (intro be_nat_bound) auto
  also have "(256::nat) ^ length eb \<le> 256 ^ 4"
    using e(2) by (intro power_increasing) auto
  finally show "key_ok k"
    using e k by (simp del: power_numeral) simp
qed

text \<open>The point buffer of \<open>parseECJWK\<close>: 4, then both coordinates left-padded with zeros.\<close>

lemma ec_point_layout:
  assumes "length xs \<le> 32" and "length ys \<le> 32"
  shows "copy_at (copy_at ((replicate 65 0)[0 := 4]) (33 - length xs) xs) (65 - length ys) ys =
    4 # (replicate (32 - length xs) 0 @ xs) @ (replicate (32 - length ys) 0 @ ys)"
proof -
  have r: "(replicate 65 (0::nat))[0 := 4] = 4 # replicate 64 0"
    by (simp add: eval_nat_numeral)
  have n: "33 - length xs = Suc (32 - length xs)" "65 - length ys = Suc (64 - length ys)"
    using assms by auto
  have "33 - length xs + length xs = Suc 32" "65 - length ys + length ys = Suc 64"
    using assms by auto
  note d = this
  have x: "copy_at (4 # replicate 64 0) (33 - length xs) xs = 4 # replicate (32 - length xs) 0 @ xs @ replicate 32 0"
    unfolding copy_at_def d unfolding n using assms(1) by (simp add: min_def)
  have "64 - length ys - (32 - length xs) - length xs = 32 - length ys"
    using assms by auto
  then show ?thesis
    unfolding r x unfolding copy_at_def d unfolding n using assms by (simp add: min_def) arith
qed

text \<open>C29: An EC entry is accepted exactly when its curve is P-256, both coordinates are base64url of
  at most 32 bytes, and the big-endian numbers (however many leading zeros the encoding dropped) are
  the coordinates of a point on the curve.\<close>

theorem parseECJWK_accepts:
  "parseECJWK crv xB64 yB64 = Inr k \<longleftrightarrow>
     crv = ''P-256'' \<and> (\<exists>xb yb. b64url_decode xB64 = Some xb \<and> b64url_decode yB64 = Some yb
        \<and> length xb \<le> 32 \<and> length yb \<le> 32 \<and> on_p256 (be_nat xb) (be_nat yb)
        \<and> k = ECKey (be_nat xb) (be_nat yb))"
proof -
  have "parse_uncompressed (copy_at (copy_at ((replicate 65 0)[0 := 4]) (33 - length xb) xb) (65 - length yb) yb)
      = Inr k \<longleftrightarrow> on_p256 (be_nat xb) (be_nat yb) \<and> k = ECKey (be_nat xb) (be_nat yb)"
    if "length xb \<le> 32" "length yb \<le> 32" for xb yb
    using that by (auto simp: ec_point_layout parse_uncompressed_def)
  then show ?thesis
    by (auto simp: parseECJWK_def Let_def coordLen_def not_less split: option.splits)
qed

lemma parseECJWK_key_ok: "parseECJWK c x y = Inr k \<Longrightarrow> key_ok k"
  by (auto simp: parseECJWK_accepts)

text \<open>Every key the loop stores is fit for use and has a non-empty id.\<close>

definition keys_ok :: "(string \<rightharpoonup> pubkey) \<Rightarrow> bool" where
  "keys_ok keys \<longleftrightarrow> keys '''' = None \<and> (\<forall>kid k. keys kid = Some k \<longrightarrow> key_ok k)"

lemma keys_ok_empty [simp]: "keys_ok (\<lambda>_. None)"
  by (simp add: keys_ok_def)

lemma add_jwk_ok: "keys_ok keys \<Longrightarrow> keys_ok (add_jwk k keys)"
  by (auto simp: keys_ok_def add_jwk_def parseRSAJWK_key_ok parseECJWK_key_ok split: sum.splits)

lemma collect_keys_ok: "keys_ok keys \<Longrightarrow> keys_ok (collect_keys ks keys)"
  by (induction ks arbitrary: keys) (simp_all add: add_jwk_ok)

text \<open>What one entry contributes, and that the last usable entry of an id wins.\<close>

definition jwk_key :: "jwk \<Rightarrow> pubkey option" where
  "jwk_key k =
     (if KeyID k = '''' \<or> Use k \<noteq> '''' \<and> Use k \<noteq> ''sig'' then None
      else if KeyType k = ''RSA'' then
        (case parseRSAJWK (jwk_N k) (jwk_E k) of Inl _ \<Rightarrow> None | Inr key \<Rightarrow> Some key)
      else if KeyType k = ''EC'' then
        (case parseECJWK (Curve k) (jwk_X k) (jwk_Y k) of Inl _ \<Rightarrow> None | Inr key \<Rightarrow> Some key)
      else None)"

lemma add_jwk_key:
  "add_jwk k keys = (case jwk_key k of None \<Rightarrow> keys | Some key \<Rightarrow> keys(KeyID k \<mapsto> key))"
  by (auto simp: add_jwk_def jwk_key_def split: sum.splits)

lemma collect_keys_map_of:
  "collect_keys ks keys =
     keys ++ map_of (rev [(KeyID k, key). k \<leftarrow> ks, key \<leftarrow> (case jwk_key k of None \<Rightarrow> [] | Some x \<Rightarrow> [x])])"
  by (induction ks arbitrary: keys) (auto simp: add_jwk_key map_add_def split: option.splits)

text \<open>C28: What the JWKS loop stores for a key id: the key of the last usable entry with that id.
  An entry without an id, scoped to another use than signatures, of another key type or with an
  unacceptable key is skipped and never hides a usable one.\<close>

theorem collect_keys_spec:
  "collect_keys ks (\<lambda>_. None) kid = Some key \<longleftrightarrow>
     (\<exists>pre k post. ks = pre @ k # post \<and> KeyID k = kid \<and> jwk_key k = Some key
        \<and> (\<forall>k' \<in> set post. KeyID k' = kid \<longrightarrow> jwk_key k' = None))"
proof (induction ks rule: rev_induct)
  case Nil
  then show ?case by simp
next
  case (snoc k ks)
  have app: "collect_keys (ks @ [k]) m = add_jwk k (collect_keys ks m)" for m
    by (induction ks arbitrary: m) simp_all
  show ?case
  proof (cases "KeyID k = kid \<and> jwk_key k \<noteq> None")
    case True
    then obtain x where x: "jwk_key k = Some x" "KeyID k = kid" by auto
    have "collect_keys (ks @ [k]) (\<lambda>_. None) kid = Some x"
      by (simp add: app add_jwk_key x)
    moreover have "(\<exists>pre k' post. ks @ [k] = pre @ k' # post \<and> KeyID k' = kid \<and> jwk_key k' = Some key
        \<and> (\<forall>k'' \<in> set post. KeyID k'' = kid \<longrightarrow> jwk_key k'' = None)) \<longleftrightarrow> x = key"
    proof
      assume "\<exists>pre k' post. ks @ [k] = pre @ k' # post \<and> KeyID k' = kid \<and> jwk_key k' = Some key
        \<and> (\<forall>k'' \<in> set post. KeyID k'' = kid \<longrightarrow> jwk_key k'' = None)"
      then obtain pre k' post where d: "ks @ [k] = pre @ k' # post" "jwk_key k' = Some key"
        "\<forall>k'' \<in> set post. KeyID k'' = kid \<longrightarrow> jwk_key k'' = None" by blast
      then have "post = []"
        using x by (cases post rule: rev_cases) auto
      with d x show "x = key" by simp
    next
      assume "x = key"
      with x show "\<exists>pre k' post. ks @ [k] = pre @ k' # post \<and> KeyID k' = kid \<and> jwk_key k' = Some key
        \<and> (\<forall>k'' \<in> set post. KeyID k'' = kid \<longrightarrow> jwk_key k'' = None)"
        by (intro exI [of _ ks] exI [of _ k] exI [of _ "[]"]) simp
    qed
    ultimately show ?thesis by auto
  next
    case False
    then have "collect_keys (ks @ [k]) (\<lambda>_. None) kid = collect_keys ks (\<lambda>_. None) kid"
      by (auto simp: app add_jwk_key split: option.splits)
    moreover have "(\<exists>pre k' post. ks @ [k] = pre @ k' # post \<and> KeyID k' = kid \<and> jwk_key k' = Some key
        \<and> (\<forall>k'' \<in> set post. KeyID k'' = kid \<longrightarrow> jwk_key k'' = None)) \<longleftrightarrow>
      (\<exists>pre k' post. ks = pre @ k' # post \<and> KeyID k' = kid \<and> jwk_key k' = Some key
        \<and> (\<forall>k'' \<in> set post. KeyID k'' = kid \<longrightarrow> jwk_key k'' = None))" (is "?L \<longleftrightarrow> ?R")
    proof
      assume ?L
      then obtain pre k' post where d: "ks @ [k] = pre @ k' # post" "KeyID k' = kid"
        "jwk_key k' = Some key" "\<forall>k'' \<in> set post. KeyID k'' = kid \<longrightarrow> jwk_key k'' = None"
        by blast
      then obtain post' where "post = post' @ [k]" "ks = pre @ k' # post'"
        using False by (cases post rule: rev_cases) auto
      with d show ?R by fastforce
    next
      assume ?R
      then obtain pre k' post where "ks = pre @ k' # post" "KeyID k' = kid"
        "jwk_key k' = Some key" "\<forall>k'' \<in> set post. KeyID k'' = kid \<longrightarrow> jwk_key k'' = None"
        by blast
      with False show ?L
        by (intro exI [of _ pre] exI [of _ k'] exI [of _ "post @ [k]"]) auto
    qed
    ultimately show ?thesis using snoc.IH by simp
  qed
qed

text \<open>A JWKS entry with a 2048-bit modulus and the exponent 65537.\<close>

definition sample_jwk :: jwk where
  "sample_jwk = \<lparr>KeyType = ''RSA'', KeyID = ''k1'', Use = ''sig'',
     jwk_N = b64url_encode (128 # replicate 254 0 @ [1]), jwk_E = b64url_encode [1, 0, 1],
     jwk_X = '''', jwk_Y = '''', Curve = ''''\<rparr>"

definition sample_key :: pubkey where
  "sample_key = RSAKey (2 ^ 2047 + 1) 65537"

lemma sample_jwk_fields:
  "KeyID sample_jwk = ''k1''" "Use sample_jwk = ''sig''" "KeyType sample_jwk = ''RSA''"
  by (simp_all add: sample_jwk_def)

lemma be_nat_shift: "be_nat (bs @ replicate k 0) = be_nat bs * 256 ^ k"
proof (induction k)
  case (Suc k)
  have "be_nat (bs @ replicate (Suc k) 0) = be_nat ((bs @ replicate k 0) @ [0])"
    by (simp add: replicate_append_same)
  with Suc show ?case unfolding be_nat_snoc by simp
qed simp

lemma sample_modulus: "be_nat (128 # replicate 254 0 @ [1]) = 2 ^ 2047 + 1"
proof -
  have "be_nat ((([] @ [128]) @ replicate 254 0) @ [1]) = (0 * 256 + 128) * 256 ^ 254 * 256 + 1"
    unfolding be_nat_snoc be_nat_shift be_nat_Nil ..
  also have "(0 * 256 + 128) * 256 ^ 254 * 256 = (2::nat) ^ 7 * (2 ^ 8) ^ 254 * 2 ^ 8"
    by (simp del: power_mult_numeral)
  also have "\<dots> = 2 ^ 2047"
    unfolding power_mult [symmetric] power_add [symmetric] by simp
  finally show ?thesis by (simp only: append.simps)
qed

lemma sample_parse: "parseRSAJWK (jwk_N sample_jwk) (jwk_E sample_jwk) = Inr sample_key"
  unfolding parseRSAJWK_Inr
proof (intro exI conjI)
  show "b64url_decode (jwk_N sample_jwk) = Some (128 # replicate 254 0 @ [1])"
    "b64url_decode (jwk_E sample_jwk) = Some [1, 0, 1]"
    unfolding sample_jwk_def jwk.simps by (rule b64url_decode_encode; simp)+
  show "2 ^ 2047 \<le> be_nat (128 # replicate 254 0 @ [1])"
    unfolding sample_modulus by (rule le_add1)
  show "sample_key = RSAKey (be_nat (128 # replicate 254 0 @ [1])) (int (be_nat [1, 0, 1]))"
    unfolding sample_modulus sample_key_def by (simp add: be_nat_def)
qed (simp_all add: be_nat_def)

lemma sample_jwk_key: "jwk_key sample_jwk = Some sample_key"
  by (simp add: jwk_key_def sample_parse sample_jwk_fields)

theorem collect_keys_spec_witness:
  "collect_keys [sample_jwk, sample_jwk\<lparr>Use := ''enc''\<rparr>] (\<lambda>_. None) ''k1'' = Some sample_key"
proof (rule collect_keys_spec [THEN iffD2], intro exI conjI)
  show "[sample_jwk, sample_jwk\<lparr>Use := ''enc''\<rparr>] = [] @ sample_jwk # [sample_jwk\<lparr>Use := ''enc''\<rparr>]"
    by simp
qed (simp_all add: sample_jwk_key sample_jwk_fields jwk_key_def [of "_\<lparr>Use := _\<rparr>"])

end
