(* ===== verification/JwksClient.thy ===== *)
theory JwksClient
  imports Jwk
begin

text \<open>
  The JWKS cache of internal/auth/jwt.go (\<open>jwksClient\<close>). The critical sections of \<open>key\<close> and
  \<open>fetch\<close> are definitions of their own, shared by the two readings of the code: \<open>jwks_key\<close>
  here, one call from start to end with whatever the other goroutines do to the client between
  its critical sections as an argument, and the goroutine system of JwksConcurrent.

  Channels are numbered; \<open>closedChans\<close> holds those that were closed.
\<close>

section \<open>The client and its critical sections\<close>

definition jwksTTL :: duration where "jwksTTL = 15 * minute"

definition jwksMinRefreshInterval :: duration where "jwksMinRefreshInterval = 30 * second"

definition maxJWKSBytes :: nat where "maxJWKSBytes = 1048576"

definition defaultJWKSFetchTimeout :: duration where "defaultJWKSFetchTimeout = 10 * second"

text \<open>Of an \<open>http.Client\<close> the code relies on the timeout (zero: none).\<close>

record http_client =
  hc_timeout :: duration

record jwksClient =
  jwks_url :: string
  httpClient :: http_client
  keys :: "string \<rightharpoonup> pubkey"
  fetchedAt :: gotime
  lastFetchAttempt :: gotime
  fetching :: "nat option"
  nextChan :: nat
  closedChans :: "nat set"

definition newJWKSClient :: "string \<Rightarrow> http_client \<Rightarrow> jwksClient" where
  "newJWKSClient url hc =
     \<lparr>jwks_url = url, httpClient = hc, keys = (\<lambda>_. None), fetchedAt = zero_time,
      lastFetchAttempt = zero_time, fetching = None, nextChan = 0, closedChans = {}\<rparr>"

datatype entry = Hit pubkey | Unknown | WaitOn nat | StartFetch

text \<open>The first critical section of \<open>key\<close>, with the time read before the lock was taken.\<close>

definition throttled_lookup :: "string \<Rightarrow> jwksClient \<Rightarrow> entry" where
  "throttled_lookup kid c =
     (case keys c kid of
        Some key \<Rightarrow> Hit key
      | None \<Rightarrow> (case fetching c of None \<Rightarrow> Unknown | Some ch \<Rightarrow> WaitOn ch))"

definition claim_fetch :: "gotime \<Rightarrow> jwksClient \<Rightarrow> jwksClient" where
  "claim_fetch now c =
     c\<lparr>lastFetchAttempt := now, fetching := Some (nextChan c), nextChan := Suc (nextChan c)\<rparr>"

definition key_enter :: "gotime \<Rightarrow> string \<Rightarrow> jwksClient \<Rightarrow> entry \<times> jwksClient" where
  "key_enter now kid c =
     (if keys c kid \<noteq> None \<and> time_sub now (fetchedAt c) < jwksTTL
      then (Hit (the (keys c kid)), c)
      else if time_sub now (lastFetchAttempt c) < jwksMinRefreshInterval
      then (throttled_lookup kid c, c)
      else (StartFetch, claim_fetch now c))"

text \<open>\<open>close(c.fetching); c.fetching = nil\<close>: closing a nil or a closed channel panics.\<close>

definition close_fetching :: "jwksClient \<Rightarrow> jwksClient outcome" where
  "close_fetching c =
     (case fetching c of
        None \<Rightarrow> Panic ''close of nil channel''
      | Some ch \<Rightarrow>
          if ch \<in> closedChans c then Panic ''close of closed channel''
          else Return (c\<lparr>closedChans := insert ch (closedChans c), fetching := None\<rparr>))"

definition swap_keys :: "(string \<rightharpoonup> pubkey) \<Rightarrow> gotime \<Rightarrow> jwksClient \<Rightarrow> jwksClient" where
  "swap_keys ks now c = c\<lparr>keys := ks, fetchedAt := now\<rparr>"

section \<open>The fetch\<close>

text \<open>
  What the HTTP round trip yields: no request could be built, no response, or a response with its
  status, its body and whether closing the body fails.
\<close>

datatype http_outcome = BadRequest | TransportError | Response nat string bool

datatype fetch_error = RequestFailed | HttpFailed | BadStatus nat | BadDocument | CloseFailed

text \<open>
  \<open>fetch\<close>: its error and, when the document was read, the new key set. A failing close is
  reported although the keys were stored. \<open>dec\<close> reads the first JSON value of a byte stream.
\<close>

definition fetch ::
  "(string \<Rightarrow> json option) \<Rightarrow> http_outcome \<Rightarrow> fetch_error option \<times> (string \<rightharpoonup> pubkey) option" where
  "fetch dec resp =
     (case resp of
        BadRequest \<Rightarrow> (Some RequestFailed, None)
      | TransportError \<Rightarrow> (Some HttpFailed, None)
      | Response status body closeFails \<Rightarrow>
          if status \<noteq> 200 then (Some (BadStatus status), None)
          else
            (case Option.bind (dec (take maxJWKSBytes body)) decode_jwkSet of
               None \<Rightarrow> (Some BadDocument, None)
             | Some ks \<Rightarrow>
                 (if closeFails then Some CloseFailed else None,
                  Some (collect_keys ks (\<lambda>_. None)))))"

definition apply_fetch :: "(string \<rightharpoonup> pubkey) option \<Rightarrow> gotime \<Rightarrow> jwksClient \<Rightarrow> jwksClient" where
  "apply_fetch new now c = (case new of None \<Rightarrow> c | Some ks \<Rightarrow> swap_keys ks now c)"

section \<open>One call of \<open>key\<close>\<close>

datatype key_error = UnknownKeyID | CtxDone | FetchFailed fetch_error

definition answer :: "fetch_error option \<Rightarrow> string \<Rightarrow> jwksClient \<Rightarrow> key_error + pubkey" where
  "answer err kid c =
     (case keys c kid of
        Some key \<Rightarrow> Inr key
      | None \<Rightarrow> Inl (case err of None \<Rightarrow> UnknownKeyID | Some e \<Rightarrow> FetchFailed e))"

text \<open>
  What the call meets: the clock at its start and at the swap, the HTTP outcome, what other
  goroutines do to the client in the gaps between its critical sections when it fetches, and, when it
  waits, what they do until the \<open>select\<close> fires and whether the context has ended by then.
\<close>

record key_env =
  e_now :: gotime
  e_swap_now :: gotime
  e_response :: http_outcome
  e_others :: "nat \<Rightarrow> jwksClient \<Rightarrow> jwksClient"
  e_wait :: "jwksClient \<Rightarrow> jwksClient"
  e_cancelled :: bool

definition fetch_and_answer ::
  "(string \<Rightarrow> json option) \<Rightarrow> key_env \<Rightarrow> string \<Rightarrow> jwksClient
     \<Rightarrow> ((key_error + pubkey) \<times> jwksClient) outcome" where
  "fetch_and_answer dec E kid c =
     (let (err, new) = fetch dec (e_response E);
          c = apply_fetch new (e_swap_now E) (e_others E 0 c);
          c = e_others E 1 c
      in bind_outcome (close_fetching c) (\<lambda>c.
           let c = e_others E 2 c in Return (answer err kid c, c)))"

text \<open>
  The \<open>select\<close> fires for the channel only when that is closed. A wait that ends with the channel open
  ended with the context, and with both ready either may be taken. That a wait does end is not part
  of this definition: it is proved of the goroutine system (JwksCalls).
\<close>

definition waited :: "nat \<Rightarrow> bool \<Rightarrow> string \<Rightarrow> jwksClient \<Rightarrow> key_error + pubkey" where
  "waited ch ended kid c = (if ch \<notin> closedChans c \<or> ended then Inl CtxDone else answer None kid c)"

definition jwks_key ::
  "(string \<Rightarrow> json option) \<Rightarrow> key_env \<Rightarrow> string \<Rightarrow> jwksClient
     \<Rightarrow> ((key_error + pubkey) \<times> jwksClient) outcome" where
  "jwks_key dec E kid c =
     (let (r, c) = key_enter (e_now E) kid c in
      case r of
        Hit key \<Rightarrow> Return (Inr key, c)
      | Unknown \<Rightarrow> Return (Inl UnknownKeyID, c)
      | WaitOn ch \<Rightarrow>
          let c = e_wait E c in Return (waited ch (e_cancelled E) kid c, c)
      | StartFetch \<Rightarrow> fetch_and_answer dec E kid c)"

text \<open>A call nobody interferes with.\<close>

definition alone :: "key_env \<Rightarrow> bool" where
  "alone E \<longleftrightarrow> (\<forall>i c. e_others E i c = c) \<and> (\<forall>c. e_wait E c = c)"

section \<open>Invariant\<close>

definition client_ok :: "jwksClient \<Rightarrow> bool" where
  "client_ok c \<longleftrightarrow> keys_ok (keys c) \<and> closedChans c \<subseteq> {..<nextChan c} \<and>
     (\<forall>ch. fetching c = Some ch \<longrightarrow> ch < nextChan c \<and> ch \<notin> closedChans c)"

text \<open>
  Other goroutines keep the invariant, and do not finish our fetch for us. That the goroutines of
  this program do so is proved in JwksCalls.
\<close>

definition rely :: "key_env \<Rightarrow> bool" where
  "rely E \<longleftrightarrow> (\<forall>c. client_ok c \<longrightarrow> client_ok (e_wait E c)) \<and>
     (\<forall>i c. client_ok c \<longrightarrow> client_ok (e_others E i c) \<and>
       (fetching c \<noteq> None \<longrightarrow> fetching (e_others E i c) = fetching c))"

lemma alone_rely: "alone E \<Longrightarrow> rely E"
  by (simp add: alone_def rely_def)

lemma client_ok_new [simp]: "client_ok (newJWKSClient url hc)"
  by (simp add: client_ok_def newJWKSClient_def)

lemma key_enter_cases:
  obtains (fresh) key where "keys c kid = Some key" "time_sub now (fetchedAt c) < jwksTTL"
      "key_enter now kid c = (Hit key, c)"
  | (throttled) "\<not> (\<exists>key. keys c kid = Some key \<and> time_sub now (fetchedAt c) < jwksTTL)"
      "time_sub now (lastFetchAttempt c) < jwksMinRefreshInterval"
      "key_enter now kid c = (throttled_lookup kid c, c)"
  | (claim) "\<not> (\<exists>key. keys c kid = Some key \<and> time_sub now (fetchedAt c) < jwksTTL)"
      "jwksMinRefreshInterval \<le> time_sub now (lastFetchAttempt c)"
      "key_enter now kid c = (StartFetch, claim_fetch now c)"
proof (cases "keys c kid \<noteq> None \<and> time_sub now (fetchedAt c) < jwksTTL")
  case True
  then show ?thesis by (auto simp: key_enter_def intro: fresh)
next
  case no: False
  show ?thesis
  proof (cases "time_sub now (lastFetchAttempt c) < jwksMinRefreshInterval")
    case True
    with no show ?thesis by (intro throttled) (auto simp: key_enter_def)
  next
    case False
    with no show ?thesis by (intro claim) (auto simp: key_enter_def)
  qed
qed

lemma fetch_keys_ok: "fetch dec resp = (err, Some ks) \<Longrightarrow> keys_ok ks"
  by (auto simp: fetch_def collect_keys_ok split: http_outcome.splits option.splits if_splits)

lemma claim_fetch_ok: "client_ok c \<Longrightarrow> client_ok (claim_fetch now c)"
  by (auto simp: client_ok_def claim_fetch_def less_Suc_eq)

lemma apply_fetch_ok:
  "client_ok c \<Longrightarrow> fetch dec resp = (err, new) \<Longrightarrow> client_ok (apply_fetch new now c)"
  by (auto simp: client_ok_def apply_fetch_def swap_keys_def split: option.splits dest: fetch_keys_ok)

lemma apply_fetch_fields [simp]:
  "fetching (apply_fetch new now c) = fetching c"
  "lastFetchAttempt (apply_fetch new now c) = lastFetchAttempt c"
  "closedChans (apply_fetch new now c) = closedChans c"
  "nextChan (apply_fetch new now c) = nextChan c"
  by (simp_all add: apply_fetch_def swap_keys_def split: option.splits)

lemma close_fetching_ok:
  "client_ok c \<Longrightarrow> fetching c = Some ch \<Longrightarrow>
     \<exists>c'. close_fetching c = Return c' \<and> client_ok c' \<and> fetching c' = None \<and> keys c' = keys c"
  by (auto simp: client_ok_def close_fetching_def)

lemma throttled_lookup_Hit: "throttled_lookup kid c = Hit key \<longleftrightarrow> keys c kid = Some key"
  by (auto simp: throttled_lookup_def split: option.splits)

lemma answer_Inr: "answer err kid c = Inr key \<longleftrightarrow> keys c kid = Some key"
  by (auto simp: answer_def split: option.splits)

section \<open>What a call returns\<close>

text \<open>The call with its fetch, when it owns the fetch slot.\<close>

lemma fetch_and_answer_ok:
  assumes ok: "client_ok c" and own: "fetching c = Some ch" and rely: "rely E"
  shows "\<exists>r c'. fetch_and_answer dec E kid c = Return (r, c') \<and> client_ok c'
    \<and> (\<forall>key. r = Inr key \<longrightarrow> keys c' kid = Some key)"
proof -
  obtain err new where f: "fetch dec (e_response E) = (err, new)"
    by (cases "fetch dec (e_response E)")
  let ?c1 = "e_others E 0 c"
  have c1: "client_ok ?c1" "fetching ?c1 = Some ch"
    using rely ok own by (auto simp: rely_def)
  let ?c2 = "apply_fetch new (e_swap_now E) ?c1"
  have c2: "client_ok ?c2" "fetching ?c2 = Some ch"
    using apply_fetch_ok [OF c1(1) f] c1(2) by auto
  let ?c3 = "e_others E 1 ?c2"
  have c3: "client_ok ?c3" "fetching ?c3 = Some ch"
    using rely c2 by (auto simp: rely_def)
  then obtain c4 where c4: "close_fetching ?c3 = Return c4" "client_ok c4"
    using close_fetching_ok by blast
  have "client_ok (e_others E 2 c4)"
    using rely c4(2) by (auto simp: rely_def)
  then show ?thesis
    using c4(1) by (simp add: fetch_and_answer_def f answer_Inr Let_def)
qed

lemma jwks_key_sound_aux:
  assumes "client_ok c" and "rely E"
  shows "\<exists>r c'. jwks_key dec E kid c = Return (r, c') \<and> client_ok c'
    \<and> (\<forall>key. r = Inr key \<longrightarrow> keys c' kid = Some key \<and> key_ok key \<and> kid \<noteq> '''')"
proof -
  have fit: "keys c' kid = Some key \<Longrightarrow> client_ok c' \<Longrightarrow> key_ok key \<and> kid \<noteq> ''''" for key c'
    by (auto simp: client_ok_def keys_ok_def)
  have "\<exists>r c'. jwks_key dec E kid c = Return (r, c') \<and> client_ok c' \<and> (\<forall>key. r = Inr key \<longrightarrow> keys c' kid = Some key)"
  proof (cases rule: key_enter_cases [where c = c and kid = kid and now = "e_now E"])
    case fresh
    then show ?thesis using assms by (simp add: jwks_key_def)
  next
    case throttled
    have "client_ok (e_wait E c)" using assms by (auto simp: rely_def)
    then show ?thesis
      using throttled assms
      by (cases "throttled_lookup kid c")
        (auto simp: jwks_key_def throttled_lookup_Hit answer_Inr Let_def throttled_lookup_def waited_def
          split: option.splits)
  next
    case claim
    from fetch_and_answer_ok [OF claim_fetch_ok [OF assms(1)] _ assms(2), of "e_now E" "nextChan c" dec kid]
    show ?thesis using claim by (simp add: jwks_key_def) (simp add: claim_fetch_def)
  qed
  with fit show ?thesis by blast
qed

lemma jwks_key_throttled_aux:
  assumes "alone E" and "fetching c = None"
    and "time_sub (e_now E) (lastFetchAttempt c) < jwksMinRefreshInterval"
  shows "jwks_key dec E kid c =
    Return (case keys c kid of Some key \<Rightarrow> Inr key | None \<Rightarrow> Inl UnknownKeyID, c)"
  using assms by (auto simp: jwks_key_def key_enter_def throttled_lookup_def split: option.splits)

text \<open>A fresh hit answers from the cache; within the refresh interval of the last attempt the
  cache answers as it is, stale entries included, and no call starts a fetch or changes the client:
  random key ids cannot force outbound requests.\<close>

theorem jwks_key_throttled:
  assumes "alone E" and "fetching c = None"
    and "time_sub (e_now E) (lastFetchAttempt c) < jwksMinRefreshInterval"
  shows "jwks_key dec E kid c =
    Return (case keys c kid of Some key \<Rightarrow> Inr key | None \<Rightarrow> Inl UnknownKeyID, c)"
  using assms by (rule jwks_key_throttled_aux)

lemma jwks_key_refresh_aux:
  assumes ok: "client_ok c" and al: "alone E" and free: "fetching c = None"
    and due: "jwksMinRefreshInterval \<le> time_sub (e_now E) (lastFetchAttempt c)"
    and need: "keys c kid = None \<or> jwksTTL \<le> time_sub (e_now E) (fetchedAt c)"
    and f: "fetch dec (e_response E) = (err, new)"
  shows "\<exists>c'. jwks_key dec E kid c = Return (answer err kid c', c')
    \<and> keys c' = (case new of None \<Rightarrow> keys c | Some ks \<Rightarrow> ks)
    \<and> fetchedAt c' = (case new of None \<Rightarrow> fetchedAt c | Some ks \<Rightarrow> e_swap_now E)
    \<and> lastFetchAttempt c' = e_now E \<and> fetching c' = None"
proof -
  have enter: "key_enter (e_now E) kid c = (StartFetch, claim_fetch (e_now E) c)"
    using due need by (auto simp: key_enter_def)
  have "nextChan c \<notin> closedChans c"
    using ok by (auto simp: client_ok_def)
  then show ?thesis
    using al by (auto simp: jwks_key_def enter fetch_and_answer_def f alone_def Let_def
        apply_fetch_def claim_fetch_def swap_keys_def close_fetching_def split: option.splits)
qed

text \<open>C31: Outside the interval an unknown or stale key id is looked up at the provider: the answer comes
  from the fetched set when there is one, and from the old one (stale keys) when the fetch fails; the
  attempt is recorded either way and the slot is free again.\<close>

theorem jwks_key_refresh:
  assumes ok: "client_ok c" and al: "alone E" and free: "fetching c = None"
    and due: "jwksMinRefreshInterval \<le> time_sub (e_now E) (lastFetchAttempt c)"
    and need: "keys c kid = None \<or> jwksTTL \<le> time_sub (e_now E) (fetchedAt c)"
    and f: "fetch dec (e_response E) = (err, new)"
  shows "\<exists>c'. jwks_key dec E kid c = Return (answer err kid c', c')
    \<and> keys c' = (case new of None \<Rightarrow> keys c | Some ks \<Rightarrow> ks)
    \<and> fetchedAt c' = (case new of None \<Rightarrow> fetchedAt c | Some ks \<Rightarrow> e_swap_now E)
    \<and> lastFetchAttempt c' = e_now E \<and> fetching c' = None"
  using assms by (rule jwks_key_refresh_aux)

text \<open>A fetch that fails blocks the next ones. The fetch runs under the context of the request that
  happens to claim it, so when that request is aborted (a transport error here), every other caller
  with an uncached key id is refused for the rest of the interval without asking the provider.\<close>

theorem aborted_fetch_locks_out:
  assumes ok: "client_ok c" and al: "alone E" "alone E'" and free: "fetching c = None"
    and due: "jwksMinRefreshInterval \<le> time_sub (e_now E) (lastFetchAttempt c)"
    and need: "keys c kid = None" and abort: "e_response E = TransportError"
    and soon: "time_sub (e_now E') (e_now E) < jwksMinRefreshInterval"
    and uncached: "keys c kid' = None"
  shows "\<exists>c'. jwks_key dec E kid c = Return (Inl (FetchFailed HttpFailed), c')
    \<and> jwks_key dec E' kid' c' = Return (Inl UnknownKeyID, c')"
proof -
  have "fetch dec (e_response E) = (Some HttpFailed, None)"
    by (simp add: fetch_def abort)
  from jwks_key_refresh_aux [OF ok al(1) free due disjI1 [OF need] this] need
  obtain c' where c': "jwks_key dec E kid c = Return (Inl (FetchFailed HttpFailed), c')"
    "keys c' = keys c" "lastFetchAttempt c' = e_now E" "fetching c' = None"
    by (auto simp: answer_def)
  from jwks_key_throttled_aux [OF al(2) c'(4), of dec kid'] c' soon uncached show ?thesis by auto
qed

section \<open>Concrete calls\<close>

definition quiet_env :: "gotime \<Rightarrow> http_outcome \<Rightarrow> key_env" where
  "quiet_env now resp = \<lparr>e_now = now, e_swap_now = now, e_response = resp,
     e_others = (\<lambda>_ c. c), e_wait = (\<lambda>c. c), e_cancelled = False\<rparr>"

lemma quiet_env_simps [simp]:
  "alone (quiet_env now resp)" "e_now (quiet_env now resp) = now"
  "e_swap_now (quiet_env now resp) = now" "e_response (quiet_env now resp) = resp"
  "rely (quiet_env now resp)"
  by (simp_all add: quiet_env_def alone_def rely_def)

definition sample_client :: jwksClient where
  "sample_client = newJWKSClient ''https://team/certs'' \<lparr>hc_timeout = defaultJWKSFetchTimeout\<rparr>"

lemma sample_client_simps [simp]:
  "client_ok sample_client" "keys sample_client = (\<lambda>_. None)" "fetching sample_client = None"
  "lastFetchAttempt sample_client = 0"
  by (simp_all add: sample_client_def) (simp_all add: newJWKSClient_def zero_time_def)

definition sample_doc :: json where
  "sample_doc = JObject [(''keys'', JArray [JObject
     [(''kty'', JString ''RSA''), (''kid'', JString ''k1''), (''use'', JString ''sig''),
      (''n'', JString (jwk_N sample_jwk)), (''e'', JString (jwk_E sample_jwk))]])]"

lemma sample_doc_keys: "decode_jwkSet sample_doc = Some [sample_jwk]"
  by (simp add: sample_doc_def decode_jwkSet_def decode_jwk_def zero_jwk_def has_prefix_def to_lower_char_def
      is_upper_byte byte_of_def sample_jwk_def)

lemma sample_fetch:
  "fetch (\<lambda>_. Some sample_doc) (Response 200 body False) = (None, Some [''k1'' \<mapsto> sample_key])"
  by (simp add: fetch_def sample_doc_keys add_jwk_key sample_jwk_key sample_jwk_fields)

lemmas jwks_consts = jwksTTL_def jwksMinRefreshInterval_def

theorem jwks_key_throttled_witness:
  "jwks_key (\<lambda>_. None) (quiet_env 7 TransportError) ''k1'' sample_client = Return (Inl UnknownKeyID, sample_client)"
  using jwks_key_throttled [of "quiet_env 7 TransportError" sample_client "\<lambda>_. None" "''k1''"]
  by (simp add: time_sub_exact int64_defs jwks_consts duration_defs)

theorem jwks_key_refresh_witness:
  "\<exists>c'. jwks_key (\<lambda>_. Some sample_doc) (quiet_env (90 * second) (Response 200 ''x'' False)) ''k1'' sample_client
      = Return (Inr sample_key, c') \<and> fetching c' = None \<and> lastFetchAttempt c' = 90 * second"
  using jwks_key_refresh [of sample_client "quiet_env (90 * second) (Response 200 ''x'' False)"
      "''k1''" "\<lambda>_. Some sample_doc" None "Some [''k1'' \<mapsto> sample_key]"]
  by (auto simp: time_sub_exact int64_defs jwks_consts duration_defs answer_def sample_fetch)

theorem aborted_fetch_locks_out_witness:
  "\<exists>c'. jwks_key (\<lambda>_. None) (quiet_env (90 * second) TransportError) ''bogus'' sample_client
      = Return (Inl (FetchFailed HttpFailed), c')
    \<and> jwks_key (\<lambda>_. None) (quiet_env (119 * second) TransportError) ''k1'' c' = Return (Inl UnknownKeyID, c')"
  by (rule aborted_fetch_locks_out)
    (simp_all add: time_sub_exact int64_defs jwks_consts duration_defs)

end
