(* ===== verification/Principal.thy ===== *)
theory Principal
  imports GoJson
begin

text \<open>
  internal/auth/principal.go: the verified identity of the caller, and how it is rendered as JSON.
  A nil slice of roles is \<^term>\<open>None\<close>; \<open>encoding/json\<close> renders it as null, an empty one as an array.
\<close>

record principal =
  Subject :: string
  Email :: string
  DisplayName :: string
  Roles :: "string list option"

fun slice :: "'a list option \<Rightarrow> 'a list" where
  "slice None = []"
| "slice (Some xs) = xs"

text \<open>\<open>append\<close> to a slice that may be nil.\<close>

definition append_slice :: "'a list option \<Rightarrow> 'a \<Rightarrow> 'a list option" where
  "append_slice xs x = Some (slice xs @ [x])"

definition HasRole :: "principal \<Rightarrow> string \<Rightarrow> bool" where
  "HasRole p role \<longleftrightarrow> role \<in> set (slice (Roles p))"

definition zero_principal :: principal where
  "zero_principal = \<lparr>Subject = '''', Email = '''', DisplayName = '''', Roles = None\<rparr>"

definition principal_json :: "principal \<Rightarrow> json" where
  "principal_json p = JObject
     [(''subject'', JString (Subject p)), (''email'', JString (Email p)),
      (''display_name'', JString (DisplayName p)),
      (''roles'', case Roles p of None \<Rightarrow> JNull | Some rs \<Rightarrow> JArray (map JString rs))]"

lemma slice_append [simp]: "slice (append_slice xs x) = slice xs @ [x]"
  by (simp add: append_slice_def)

lemma no_roles [simp]: "\<not> HasRole zero_principal r"
  by (simp add: HasRole_def zero_principal_def)

end
