(* ===== verification/GoHttp.thy ===== *)
theory GoHttp
  imports Principal
begin

text \<open>
  What the code uses of package net/http, and internal/httputil/httputil.go: headers with canonical
  names, requests with their context, the response writer, and handlers.

  A handler transforms the request it was given (the mux records the matched pattern in it and the
  body limit replaces its body, and both are seen by whoever holds the same pointer) and a state
  that contains the response. It ends normally or with a panic; the state at a panic is kept,
  because deferred calls still run and what was sent stays sent.
\<close>

section \<open>Headers\<close>

text \<open>\<open>textproto.CanonicalMIMEHeaderKey\<close>: names with a byte that is not a token byte stay as they are.\<close>

definition is_token_char :: "char \<Rightarrow> bool" where
  "is_token_char c \<longleftrightarrow> is_alnum c \<or> c \<in> set ''!#$%&*+-.^_`|~'' \<or> c = CHR 0x27"

fun canonical_from :: "bool \<Rightarrow> string \<Rightarrow> string" where
  "canonical_from upper [] = []"
| "canonical_from upper (c # cs) =
     (if upper then to_upper_char c else to_lower_char c) # canonical_from (c = CHR ''-'') cs"

definition canonical_key :: "string \<Rightarrow> string" where
  "canonical_key k = (if list_all is_token_char k then canonical_from True k else k)"

type_synonym header = "string \<rightharpoonup> string list"

definition header_get :: "header \<Rightarrow> string \<Rightarrow> string" where
  "header_get h k = (case h (canonical_key k) of Some (v # _) \<Rightarrow> v | _ \<Rightarrow> '''')"

definition header_set :: "string \<Rightarrow> string \<Rightarrow> header \<Rightarrow> header" where
  "header_set k v h = h(canonical_key k \<mapsto> [v])"

section \<open>Requests\<close>

text \<open>
  The context carries two values, under the key types of packages auth and httputil. A body is the
  bytes that arrive and the limit \<open>http.MaxBytesReader\<close> puts on it. \<open>Path\<close> is the decoded path of the
  URL and \<open>RawPath\<close> its escaped form.
\<close>

record req_context =
  ctx_principal :: "principal option"
  ctx_requestID :: "string option"

record body =
  body_bytes :: string
  body_limit :: "nat option"

record request =
  Method :: string
  Path :: string
  RawPath :: string
  RawQuery :: string
  Header :: header
  Body :: body
  Ctx :: req_context
  Pattern :: string
  PathValues :: "(string \<times> string) list"

definition PathValue :: "request \<Rightarrow> string \<Rightarrow> string" where
  "PathValue r name = (case map_of (PathValues r) name of Some v \<Rightarrow> v | None \<Rightarrow> '''')"

text \<open>Reading the whole body: the bytes, or the error of a body over its limit.\<close>

definition too_large :: "body \<Rightarrow> bool" where
  "too_large b = (case body_limit b of None \<Rightarrow> False | Some n \<Rightarrow> n < length (body_bytes b))"

definition WithPrincipal :: "req_context \<Rightarrow> principal \<Rightarrow> req_context" where
  "WithPrincipal c p = c\<lparr>ctx_principal := Some p\<rparr>"

definition PrincipalFromContext :: "req_context \<Rightarrow> principal option" where
  "PrincipalFromContext c = ctx_principal c"

definition WithRequestID :: "req_context \<Rightarrow> string \<Rightarrow> req_context" where
  "WithRequestID c rid = c\<lparr>ctx_requestID := Some rid\<rparr>"

definition RequestIDFromContext :: "req_context \<Rightarrow> string" where
  "RequestIDFromContext c = (case ctx_requestID c of Some rid \<Rightarrow> rid | None \<Rightarrow> '''')"

section \<open>Responses\<close>

text \<open>
  The header map may be changed until the status is written; \<open>wrote\<close> is the status line with the
  headers as they were then, and later calls of \<open>WriteHeader\<close> have no effect on it. Body chunks
  are kept as the values that are encoded. \<open>recorders\<close> holds the status fields of the
  \<open>statusRecorder\<close>s the writer is wrapped in, innermost first: each sees every call.
\<close>

datatype chunk = JsonBody json | TextBody string

datatype level = Debug | Info | Warn | Error

record log_line =
  log_level :: level
  log_msg :: string
  log_attrs :: "(string \<times> string) list"

record web =
  hdr :: header
  wrote :: "(nat \<times> header) option"
  chunks :: "chunk list"
  recorders :: "nat list"
  logs :: "log_line list"

definition set_header :: "string \<Rightarrow> string \<Rightarrow> 'a web_scheme \<Rightarrow> 'a web_scheme" where
  "set_header k v w = w\<lparr>hdr := header_set k v (hdr w)\<rparr>"

definition commit :: "nat \<Rightarrow> 'a web_scheme \<Rightarrow> 'a web_scheme" where
  "commit code w = (case wrote w of None \<Rightarrow> w\<lparr>wrote := Some (code, hdr w)\<rparr> | Some _ \<Rightarrow> w)"

definition WriteHeader :: "nat \<Rightarrow> 'a web_scheme \<Rightarrow> 'a web_scheme" where
  "WriteHeader code w = commit code (w\<lparr>recorders := map (\<lambda>_. code) (recorders w)\<rparr>)"

definition write_chunk :: "chunk \<Rightarrow> 'a web_scheme \<Rightarrow> 'a web_scheme" where
  "write_chunk ch w = (commit 200 w)\<lparr>chunks := chunks w @ [ch]\<rparr>"

text \<open>\<open>statusRecorder.Flush\<close> forwards to the writer, which sends the header it has not sent yet.\<close>

definition Flush :: "'a web_scheme \<Rightarrow> 'a web_scheme" where
  "Flush w = commit 200 w"

definition log_to :: "level \<Rightarrow> string \<Rightarrow> (string \<times> string) list \<Rightarrow> 'a web_scheme \<Rightarrow> 'a web_scheme" where
  "log_to lv msg attrs w = w\<lparr>logs := logs w @ [\<lparr>log_level = lv, log_msg = msg, log_attrs = attrs\<rparr>]\<rparr>"

text \<open>When the handler chain returns, the server commits a response that was not written as 200.\<close>

definition status_of :: "'a web_scheme \<Rightarrow> nat" where
  "status_of w = (case wrote w of Some (code, _) \<Rightarrow> code | None \<Rightarrow> 200)"

definition sent_header :: "'a web_scheme \<Rightarrow> header" where
  "sent_header w = (case wrote w of Some (_, h) \<Rightarrow> h | None \<Rightarrow> hdr w)"

text \<open>\<open>http.StatusText\<close> for the codes the program writes.\<close>

definition StatusText :: "nat \<Rightarrow> string" where
  "StatusText code =
     (if code = 200 then ''OK'' else if code = 400 then ''Bad Request''
      else if code = 401 then ''Unauthorized'' else if code = 403 then ''Forbidden''
      else if code = 404 then ''Not Found'' else if code = 405 then ''Method Not Allowed''
      else if code = 413 then ''Request Entity Too Large''
      else if code = 415 then ''Unsupported Media Type''
      else if code = 429 then ''Too Many Requests''
      else if code = 500 then ''Internal Server Error''
      else if code = 503 then ''Service Unavailable'' else '''')"

text \<open>\<open>json.Encoder\<close> writes a map with its keys in order.\<close>

definition problem_json :: "nat \<Rightarrow> string \<Rightarrow> string \<Rightarrow> json" where
  "problem_json status title detail = JObject
     ((if detail \<noteq> '''' then [(''detail'', JString detail)] else []) @
      [(''status'', JNumber (itoa_digits status)), (''title'', JString title),
       (''type'', JString ''about:blank'')])"

definition WriteProblem :: "nat \<Rightarrow> string \<Rightarrow> string \<Rightarrow> 'a web_scheme \<Rightarrow> 'a web_scheme" where
  "WriteProblem status title detail w =
     write_chunk (JsonBody (problem_json status title detail))
       (WriteHeader status (set_header ''Content-Type'' ''application/problem+json'' w))"

text \<open>The error of a body that failed to be read.\<close>

datatype read_error = MaxBytesError | OtherReadError

definition IsRequestEntityTooLarge :: "read_error \<Rightarrow> bool" where
  "IsRequestEntityTooLarge e \<longleftrightarrow> e = MaxBytesError"

section \<open>Handlers\<close>

datatype 's run = Done request 's | Panicked string request 's

type_synonym 's handler = "request \<Rightarrow> 's \<Rightarrow> 's run"

fun then_run :: "'s run \<Rightarrow> (request \<Rightarrow> 's \<Rightarrow> 's run) \<Rightarrow> 's run" where
  "then_run (Done r s) f = f r s"
| "then_run (Panicked e r s) f = Panicked e r s"

text \<open>A deferred call: it runs whichever way the body ends; its own panic replaces the body's.\<close>

fun deferred :: "('s \<Rightarrow> 's outcome) \<Rightarrow> 's run \<Rightarrow> 's run" where
  "deferred f (Done r s) = (case f s of Return s' \<Rightarrow> Done r s' | Panic e \<Rightarrow> Panicked e r s)"
| "deferred f (Panicked e r s) =
     (case f s of Return s' \<Rightarrow> Panicked e r s' | Panic e' \<Rightarrow> Panicked e' r s)"

text \<open>A call that may panic, inside a handler.\<close>

fun outcome_run :: "request \<Rightarrow> 's \<Rightarrow> 's outcome \<Rightarrow> 's run" where
  "outcome_run r s (Return s') = Done r s'"
| "outcome_run r s (Panic e) = Panicked e r s"

fun run_state :: "'s run \<Rightarrow> 's" where
  "run_state (Done r s) = s"
| "run_state (Panicked e r s) = s"

fun run_request :: "'s run \<Rightarrow> request" where
  "run_request (Done r s) = r"
| "run_request (Panicked e r s) = r"

fun with_request :: "request \<Rightarrow> 's run \<Rightarrow> 's run" where
  "with_request r (Done _ s) = Done r s"
| "with_request r (Panicked e _ s) = Panicked e r s"

text \<open>
  \<open>next.ServeHTTP(w, r.WithContext(ctx))\<close>: the inner handler gets a copy, so what it does to its
  request is not seen outside.
\<close>

definition serve_with_ctx :: "'s handler \<Rightarrow> req_context \<Rightarrow> 's handler" where
  "serve_with_ctx nxt c r s = with_request r (nxt (r\<lparr>Ctx := c\<rparr>) s)"

section \<open>Lemmas\<close>

lemma header_get_set: "header_get (header_set k v h) k' =
    (if canonical_key k' = canonical_key k then v else header_get h k')"
  by (simp add: header_get_def header_set_def)

lemma web_fields [simp]:
  "wrote (set_header k v w) = wrote w" "chunks (set_header k v w) = chunks w"
  "recorders (set_header k v w) = recorders w" "logs (set_header k v w) = logs w"
  "web.more (set_header k v w) = web.more w"
  "hdr (set_header k v w) = header_set k v (hdr w)"
  by (simp_all add: set_header_def)

lemma commit_fields [simp]:
  "hdr (commit c w) = hdr w" "chunks (commit c w) = chunks w"
  "recorders (commit c w) = recorders w" "logs (commit c w) = logs w"
  "web.more (commit c w) = web.more w"
  "wrote (commit c w) = (case wrote w of None \<Rightarrow> Some (c, hdr w) | Some x \<Rightarrow> Some x)"
  by (simp_all add: commit_def split: option.splits)

lemma WriteHeader_fields [simp]:
  "hdr (WriteHeader c w) = hdr w" "chunks (WriteHeader c w) = chunks w"
  "recorders (WriteHeader c w) = map (\<lambda>_. c) (recorders w)" "logs (WriteHeader c w) = logs w"
  "web.more (WriteHeader c w) = web.more w"
  "wrote (WriteHeader c w) = (case wrote w of None \<Rightarrow> Some (c, hdr w) | Some x \<Rightarrow> Some x)"
  by (auto simp: WriteHeader_def split: option.splits)

lemma write_chunk_fields [simp]:
  "hdr (write_chunk ch w) = hdr w" "chunks (write_chunk ch w) = chunks w @ [ch]"
  "recorders (write_chunk ch w) = recorders w" "logs (write_chunk ch w) = logs w"
  "web.more (write_chunk ch w) = web.more w"
  "wrote (write_chunk ch w) = (case wrote w of None \<Rightarrow> Some (200, hdr w) | Some x \<Rightarrow> Some x)"
  by (auto simp: write_chunk_def split: option.splits)

lemma log_to_fields [simp]:
  "hdr (log_to lv m a w) = hdr w" "chunks (log_to lv m a w) = chunks w"
  "recorders (log_to lv m a w) = recorders w" "wrote (log_to lv m a w) = wrote w"
  "web.more (log_to lv m a w) = web.more w"
  "logs (log_to lv m a w) = logs w @ [\<lparr>log_level = lv, log_msg = m, log_attrs = a\<rparr>]"
  by (simp_all add: log_to_def)

text \<open>A problem response on a fresh writer: its status, its media type and its only chunk.\<close>

lemma WriteProblem_fields [simp]:
  "recorders (WriteProblem st t d w) = map (\<lambda>_. st) (recorders w)"
  "logs (WriteProblem st t d w) = logs w" "web.more (WriteProblem st t d w) = web.more w"
  "chunks (WriteProblem st t d w) = chunks w @ [JsonBody (problem_json st t d)]"
  "hdr (WriteProblem st t d w) = header_set ''Content-Type'' ''application/problem+json'' (hdr w)"
  "wrote (WriteProblem st t d w) =
     (case wrote w of None \<Rightarrow> Some (st, header_set ''Content-Type'' ''application/problem+json'' (hdr w))
      | Some x \<Rightarrow> Some x)"
  by (auto simp: WriteProblem_def split: option.splits)

lemma run_state_then [simp]: "run_state (then_run (Done r s) f) = run_state (f r s)"
  by simp

lemma with_request_state [simp]: "run_state (with_request r x) = run_state x"
  by (cases x) auto

lemma with_request_request [simp]: "run_request (with_request r x) = r"
  by (cases x) auto



lemma then_run_Done: "then_run x f = Done r s \<longleftrightarrow> (\<exists>r' s'. x = Done r' s' \<and> f r' s' = Done r s)"
  by (cases x) auto

lemma with_request_Done: "with_request q x = Done r s \<longleftrightarrow> r = q \<and> (\<exists>r'. x = Done r' s)"
  by (cases x) auto

lemma RequestID_With [simp]: "RequestIDFromContext (WithRequestID c rid) = rid"
  by (simp add: RequestIDFromContext_def WithRequestID_def)

lemma Principal_With [simp]:
  "PrincipalFromContext (WithPrincipal c p) = Some p"
  "RequestIDFromContext (WithPrincipal c p) = RequestIDFromContext c"
  "PrincipalFromContext (WithRequestID c rid) = PrincipalFromContext c"
  by (simp_all add: RequestIDFromContext_def WithRequestID_def PrincipalFromContext_def WithPrincipal_def)

end
