(* ===== verification/JwtProvider.thy ===== *)
theory JwtProvider
  imports JwksClient GoHttp
begin

text \<open>
  The verifying provider of internal/auth/jwt.go: \<open>NewJWTProvider\<close>, \<open>Authenticate\<close>, \<open>verify\<close>, the
  key function, the classification of errors and the conversion of claims.

  The parser of golang-jwt is not part of the repository: it is the argument \<open>L\<close> of the
  definitions. A parse either stops before the key function, or reaches it with a token and goes
  on with its result. What the proofs rely on is \<open>jwt_contract\<close> below, the library's documented
  behaviour.
\<close>

section \<open>Errors\<close>

datatype own_error = ErrUnexpectedAlgorithm | ErrMissingKeyID | ErrNoUsableKey | ErrKeyTypeMismatch

fun own_text :: "own_error \<Rightarrow> string" where
  "own_text ErrUnexpectedAlgorithm = ''unexpected signing algorithm''"
| "own_text ErrMissingKeyID = ''missing key id''"
| "own_text ErrNoUsableKey = ''no usable verification key''"
| "own_text ErrKeyTypeMismatch = ''verification key type does not match pinned algorithm''"

text \<open>The sentinels of golang-jwt, and an error value of it: what \<open>errors.Is\<close> finds in it and its text.\<close>

datatype jwt_sentinel = TokenMalformed | InvalidType | TokenExpired | TokenUsedBeforeIssued
  | TokenNotValidYet | TokenInvalidIssuer | TokenInvalidAudience | TokenRequiredClaimMissing
  | TokenSignatureInvalid | TokenUnverifiable

record lib_error =
  le_own :: "own_error list"
  le_jwt :: "jwt_sentinel list"
  le_text :: string

datatype auth_error = Reason string | Own own_error | Library lib_error

fun error_text :: "auth_error \<Rightarrow> string" where
  "error_text (Reason s) = s"
| "error_text (Own e) = own_text e"
| "error_text (Library e) = le_text e"

section \<open>The library\<close>

type_synonym mapclaims = "string \<rightharpoonup> json"

record jwt_token =
  tok_alg :: string
  tok_header :: "string \<rightharpoonup> json"

record parser =
  validMethods :: "string list"
  p_issuer :: string
  p_audience :: string
  p_leeway :: duration
  p_issuedAt :: bool

datatype parse_step = Stop lib_error | Keyfunc jwt_token "own_error + pubkey \<Rightarrow> lib_error + mapclaims"

record jwt_lib =
  lib_parse :: "parser \<Rightarrow> gotime \<Rightarrow> string \<Rightarrow> parse_step"
  lib_exp :: "mapclaims \<Rightarrow> unit + gotime option"
  lib_nbf :: "mapclaims \<Rightarrow> unit + gotime option"
  lib_iat :: "mapclaims \<Rightarrow> unit + gotime option"
  lib_sub :: "mapclaims \<Rightarrow> unit + string"
  lib_iss :: "mapclaims \<Rightarrow> unit + string"
  lib_aud :: "mapclaims \<Rightarrow> unit + string list"
  lib_json :: "string \<Rightarrow> json option"

section \<open>Claims\<close>

record claims =
  c_sub :: string
  c_iss :: string
  c_aud :: "string list"
  c_exp :: int
  c_nbf :: int
  c_iat :: int
  Custom :: mapclaims

definition unix_epoch :: gotime where "unix_epoch = 62135596800 * second"

definition time_unix :: "gotime \<Rightarrow> int" where
  "time_unix t = (t - unix_epoch) div second"

definition unix_or_zero :: "unit + gotime option \<Rightarrow> int" where
  "unix_or_zero d = (case d of Inr (Some t) \<Rightarrow> time_unix t | _ \<Rightarrow> 0)"

definition claimsFromMap :: "jwt_lib \<Rightarrow> mapclaims \<Rightarrow> auth_error + claims" where
  "claimsFromMap L m =
     (case lib_exp L m of
        Inl _ \<Rightarrow> Inl (Reason ''malformed token'')
      | Inr None \<Rightarrow> Inl (Reason ''missing expiry'')
      | Inr (Some exp) \<Rightarrow>
          (case lib_sub L m of
             Inl _ \<Rightarrow> Inl (Reason ''missing subject'')
           | Inr sub \<Rightarrow>
               if sub = '''' then Inl (Reason ''missing subject'')
               else Inr \<lparr>c_sub = sub,
                 c_iss = (case lib_iss L m of Inl _ \<Rightarrow> '''' | Inr iss \<Rightarrow> iss),
                 c_aud = (case lib_aud L m of Inl _ \<Rightarrow> [] | Inr aud \<Rightarrow> aud),
                 c_exp = time_unix exp, c_nbf = unix_or_zero (lib_nbf L m),
                 c_iat = unix_or_zero (lib_iat L m), Custom = m\<rparr>))"

definition mapJWTError :: "lib_error \<Rightarrow> bool \<Rightarrow> auth_error" where
  "mapJWTError e keyfuncRan =
     (if le_own e \<noteq> [] then Library e
      else if TokenMalformed \<in> set (le_jwt e) \<or> InvalidType \<in> set (le_jwt e) then Reason ''malformed token''
      else if TokenExpired \<in> set (le_jwt e) then Reason ''token expired''
      else if TokenUsedBeforeIssued \<in> set (le_jwt e) then Reason ''token issued in the future''
      else if TokenNotValidYet \<in> set (le_jwt e) then Reason ''token not yet valid''
      else if TokenInvalidIssuer \<in> set (le_jwt e) then Reason ''unexpected issuer''
      else if TokenInvalidAudience \<in> set (le_jwt e) then Reason ''unexpected audience''
      else if TokenRequiredClaimMissing \<in> set (le_jwt e) then Reason ''missing required claim''
      else if TokenSignatureInvalid \<in> set (le_jwt e) then
        (if \<not> keyfuncRan then Own ErrUnexpectedAlgorithm else Reason ''invalid signature'')
      else if TokenUnverifiable \<in> set (le_jwt e) then Own ErrNoUsableKey
      else Reason ''token validation failed'')"

section \<open>The provider\<close>

record JWTConfig =
  cfg_Header :: string
  cfg_Issuer :: string
  cfg_Audience :: string
  cfg_Algorithm :: string
  cfg_JWKSURL :: string
  cfg_MapClaims :: "(claims \<Rightarrow> auth_error + principal) option"
  cfg_HTTPClient :: "http_client option"

record jwtProvider =
  cfg :: JWTConfig
  jparser :: parser
  mapFn :: "claims \<Rightarrow> auth_error + principal"

definition AlgRS256 :: string where "AlgRS256 = ''RS256''"

definition AlgES256 :: string where "AlgES256 = ''ES256''"

definition expiryLeeway :: duration where "expiryLeeway = 60 * second"

datatype config_error = MissingSettings | UnsupportedAlgorithm string | UnknownProvider string
  | InvalidTeamDomain string

definition default_map :: "claims \<Rightarrow> auth_error + principal" where
  "default_map c = Inr (zero_principal\<lparr>Subject := c_sub c\<rparr>)"

definition NewJWTProvider :: "JWTConfig \<Rightarrow> config_error + (jwtProvider \<times> jwksClient)" where
  "NewJWTProvider c =
     (if cfg_Header c = '''' \<or> cfg_Issuer c = '''' \<or> cfg_Audience c = '''' \<or> cfg_JWKSURL c = ''''
      then Inl MissingSettings
      else if cfg_Algorithm c \<noteq> AlgRS256 \<and> cfg_Algorithm c \<noteq> AlgES256
      then Inl (UnsupportedAlgorithm (cfg_Algorithm c))
      else
        let mf = (case cfg_MapClaims c of None \<Rightarrow> default_map | Some f \<Rightarrow> f);
            hc = (case cfg_HTTPClient c of None \<Rightarrow> \<lparr>hc_timeout = defaultJWKSFetchTimeout\<rparr> | Some h \<Rightarrow> h)
        in Inr (\<lparr>cfg = c,
                 jparser = \<lparr>validMethods = [cfg_Algorithm c], p_issuer = cfg_Issuer c,
                   p_audience = cfg_Audience c, p_leeway = expiryLeeway, p_issuedAt = True\<rparr>,
                 mapFn = mf\<rparr>,
                newJWKSClient (cfg_JWKSURL c) hc))"

fun is_rsa :: "pubkey \<Rightarrow> bool" where
  "is_rsa (RSAKey n e) \<longleftrightarrow> True"
| "is_rsa (ECKey x y) \<longleftrightarrow> False"

definition verificationKey ::
  "jwt_lib \<Rightarrow> jwtProvider \<Rightarrow> key_env \<Rightarrow> jwt_token \<Rightarrow> jwksClient
     \<Rightarrow> ((own_error + pubkey) \<times> jwksClient) outcome" where
  "verificationKey L p E tok c =
     (if tok_alg tok \<noteq> cfg_Algorithm (cfg p) then Return (Inl ErrUnexpectedAlgorithm, c)
      else
        let kid = get_string (tok_header tok) ''kid'' in
        if kid = '''' then Return (Inl ErrMissingKeyID, c)
        else bind_outcome (jwks_key (lib_json L) E kid c) (\<lambda>(r, c).
          Return (case r of
              Inl _ \<Rightarrow> Inl ErrNoUsableKey
            | Inr key \<Rightarrow>
                if cfg_Algorithm (cfg p) = AlgRS256 \<and> \<not> is_rsa key then Inl ErrKeyTypeMismatch
                else if cfg_Algorithm (cfg p) = AlgES256 \<and> is_rsa key then Inl ErrKeyTypeMismatch
                else Inr key, c)))"

text \<open>The environment of one authentication: that of the key lookup, and the validator's clock.\<close>

record auth_env =
  ae_key :: key_env
  ae_now :: gotime

definition verify ::
  "jwt_lib \<Rightarrow> jwtProvider \<Rightarrow> auth_env \<Rightarrow> string \<Rightarrow> jwksClient
     \<Rightarrow> ((auth_error + claims) \<times> jwksClient) outcome" where
  "verify L p E token c =
     (case lib_parse L (jparser p) (ae_now E) token of
        Stop e \<Rightarrow> Return (Inl (mapJWTError e False), c)
      | Keyfunc t k \<Rightarrow>
          bind_outcome (verificationKey L p (ae_key E) t c) (\<lambda>(r, c).
            Return (case k r of
                Inl e \<Rightarrow> Inl (mapJWTError e True)
              | Inr m \<Rightarrow> claimsFromMap L m, c)))"

definition Authenticate ::
  "jwt_lib \<Rightarrow> jwtProvider \<Rightarrow> auth_env \<Rightarrow> request \<Rightarrow> jwksClient
     \<Rightarrow> ((auth_error + principal) \<times> jwksClient) outcome" where
  "Authenticate L p E r c =
     (let token = header_get (Header r) (cfg_Header (cfg p)) in
      if token = '''' then Return (Inl (Reason ''no token in header''), c)
      else bind_outcome (verify L p E token c) (\<lambda>(a, c).
        Return (case a of Inl e \<Rightarrow> Inl e | Inr cl \<Rightarrow> mapFn p cl, c)))"

section \<open>What the library promises\<close>

text \<open>
  The validator's part: issuer and audience match when they are configured (the library skips the check
  of an empty one), and the time claims that are present hold at the validator's clock, up to the leeway.
\<close>

definition claims_valid :: "jwt_lib \<Rightarrow> parser \<Rightarrow> gotime \<Rightarrow> mapclaims \<Rightarrow> bool" where
  "claims_valid L ps now m \<longleftrightarrow>
     (p_issuer ps \<noteq> '''' \<longrightarrow> lib_iss L m = Inr (p_issuer ps)) \<and>
     (p_audience ps \<noteq> '''' \<longrightarrow> (\<exists>aud. lib_aud L m = Inr aud \<and> p_audience ps \<in> set aud)) \<and>
     (\<forall>t. lib_exp L m = Inr (Some t) \<longrightarrow> now < t + p_leeway ps) \<and>
     (\<forall>t. lib_nbf L m = Inr (Some t) \<longrightarrow> t \<le> now + p_leeway ps) \<and>
     (\<forall>t. p_issuedAt ps \<and> lib_iat L m = Inr (Some t) \<longrightarrow> t \<le> now + p_leeway ps)"

text \<open>
  The parser reaches the key function only with a method of its list, if it has one; an error of the key function
  comes back wrapped, under \<open>ErrTokenUnverifiable\<close> and a fixed prefix; the parse succeeds only when
  \<open>sig_ok\<close>, the signature check of the method, holds for the key and the claims are valid; errors
  raised before the key function are not the caller's own.
\<close>

definition wrapped_text :: "own_error \<Rightarrow> string" where
  "wrapped_text e = ''token is unverifiable: error while executing keyfunc: '' @ own_text e"

definition jwt_contract :: "(string \<Rightarrow> pubkey \<Rightarrow> string \<Rightarrow> bool) \<Rightarrow> jwt_lib \<Rightarrow> bool" where
  "jwt_contract sig_ok L \<longleftrightarrow>
     (\<forall>ps now token. case lib_parse L ps now token of
        Stop e \<Rightarrow> le_own e = []
      | Keyfunc t k \<Rightarrow>
          (validMethods ps = [] \<or> tok_alg t \<in> set (validMethods ps)) \<and>
          (\<forall>s. \<exists>e. k (Inl s) = Inl e \<and> le_own e = [s] \<and> le_text e = wrapped_text s) \<and>
          (\<forall>key. case k (Inr key) of
              Inl e \<Rightarrow> le_own e = []
            | Inr m \<Rightarrow> sig_ok (tok_alg t) key token \<and> claims_valid L ps now m))"

lemma jwt_contractD:
  assumes "jwt_contract sig_ok L"
  shows "lib_parse L ps now token = Stop e \<Longrightarrow> le_own e = []"
    "lib_parse L ps now token = Keyfunc t k \<Longrightarrow> validMethods ps = [] \<or> tok_alg t \<in> set (validMethods ps)"
    "lib_parse L ps now token = Keyfunc t k \<Longrightarrow>
       \<exists>e. k (Inl s) = Inl e \<and> le_own e = [s] \<and> le_text e = wrapped_text s"
    "lib_parse L ps now token = Keyfunc t k \<Longrightarrow> k (Inr key) = Inl e \<Longrightarrow> le_own e = []"
    "lib_parse L ps now token = Keyfunc t k \<Longrightarrow> k (Inr key) = Inr m \<Longrightarrow>
       sig_ok (tok_alg t) key token \<and> claims_valid L ps now m"
proof -
  have c: "case lib_parse L ps now token of
        Stop e \<Rightarrow> le_own e = []
      | Keyfunc t k \<Rightarrow>
          (validMethods ps = [] \<or> tok_alg t \<in> set (validMethods ps)) \<and>
          (\<forall>s. \<exists>e. k (Inl s) = Inl e \<and> le_own e = [s] \<and> le_text e = wrapped_text s) \<and>
          (\<forall>key. case k (Inr key) of
              Inl e \<Rightarrow> le_own e = []
            | Inr m \<Rightarrow> sig_ok (tok_alg t) key token \<and> claims_valid L ps now m)"
    using assms unfolding jwt_contract_def by blast
  show "lib_parse L ps now token = Stop e \<Longrightarrow> le_own e = []"
    "lib_parse L ps now token = Keyfunc t k \<Longrightarrow> validMethods ps = [] \<or> tok_alg t \<in> set (validMethods ps)"
    "lib_parse L ps now token = Keyfunc t k \<Longrightarrow>
       \<exists>e. k (Inl s) = Inl e \<and> le_own e = [s] \<and> le_text e = wrapped_text s"
    using c by auto
  assume *: "lib_parse L ps now token = Keyfunc t k"
  with c have r: "case k (Inr key) of Inl e \<Rightarrow> le_own e = []
      | Inr m \<Rightarrow> sig_ok (tok_alg t) key token \<and> claims_valid L ps now m" by simp
  show "k (Inr key) = Inl e \<Longrightarrow> le_own e = []"
    "k (Inr key) = Inr m \<Longrightarrow> sig_ok (tok_alg t) key token \<and> claims_valid L ps now m"
    using r by auto
qed

section \<open>Key function and claims\<close>

text \<open>The type of key each pinned algorithm verifies with.\<close>

definition key_fits :: "string \<Rightarrow> pubkey \<Rightarrow> bool" where
  "key_fits alg key \<longleftrightarrow> (alg = AlgRS256 \<and> is_rsa key) \<or> (alg = AlgES256 \<and> \<not> is_rsa key)"

lemma NewJWTProvider_Inr:
  "NewJWTProvider c = Inr (p, j) \<longleftrightarrow>
     cfg_Header c \<noteq> '''' \<and> cfg_Issuer c \<noteq> '''' \<and> cfg_Audience c \<noteq> '''' \<and> cfg_JWKSURL c \<noteq> ''''
     \<and> (cfg_Algorithm c = AlgRS256 \<or> cfg_Algorithm c = AlgES256)
     \<and> p = \<lparr>cfg = c,
          jparser = \<lparr>validMethods = [cfg_Algorithm c], p_issuer = cfg_Issuer c,
            p_audience = cfg_Audience c, p_leeway = expiryLeeway, p_issuedAt = True\<rparr>,
          mapFn = (case cfg_MapClaims c of None \<Rightarrow> default_map | Some f \<Rightarrow> f)\<rparr>
     \<and> j = newJWKSClient (cfg_JWKSURL c)
          (case cfg_HTTPClient c of None \<Rightarrow> \<lparr>hc_timeout = defaultJWKSFetchTimeout\<rparr> | Some h \<Rightarrow> h)"
  by (auto simp: NewJWTProvider_def Let_def)

text \<open>The key function always returns; a key it returns is cached under the token's key id and fits.\<close>

lemma verificationKey_ok:
  assumes ok: "client_ok c" and rely: "rely E"
    and alg: "cfg_Algorithm (cfg p) = AlgRS256 \<or> cfg_Algorithm (cfg p) = AlgES256"
  shows "\<exists>r c'. verificationKey L p E tok c = Return (r, c') \<and> client_ok c'
    \<and> (\<forall>key. r = Inr key \<longrightarrow> key_fits (cfg_Algorithm (cfg p)) key \<and> key_ok key
        \<and> tok_alg tok = cfg_Algorithm (cfg p)
        \<and> keys c' (get_string (tok_header tok) ''kid'') = Some key)"
proof (cases "tok_alg tok \<noteq> cfg_Algorithm (cfg p) \<or> get_string (tok_header tok) ''kid'' = ''''")
  case True
  then show ?thesis using ok by (auto simp: verificationKey_def Let_def)
next
  case False
  let ?kid = "get_string (tok_header tok) ''kid''"
  obtain r c' where j: "jwks_key (lib_json L) E ?kid c = Return (r, c')" "client_ok c'"
    "\<And>key. r = Inr key \<Longrightarrow> keys c' ?kid = Some key \<and> key_ok key"
    using jwks_key_sound_aux [OF ok rely] by metis
  then show ?thesis
    using False alg by (cases r) (auto simp: verificationKey_def key_fits_def)
qed

lemma claimsFromMap_Inr:
  "claimsFromMap L m = Inr cl \<Longrightarrow>
     c_sub cl \<noteq> '''' \<and> lib_sub L m = Inr (c_sub cl) \<and> Custom cl = m
     \<and> (\<exists>t. lib_exp L m = Inr (Some t) \<and> c_exp cl = time_unix t)"
  by (auto simp: claimsFromMap_def split: sum.splits option.splits if_splits)

text \<open>Every outcome of \<open>verify\<close>, from the key function's.\<close>

lemma verify_ok:
  assumes ok: "client_ok c" and rely: "rely (ae_key E)"
    and alg: "cfg_Algorithm (cfg p) = AlgRS256 \<or> cfg_Algorithm (cfg p) = AlgES256"
  shows "\<exists>a c'. verify L p E token c = Return (a, c') \<and> client_ok c'
    \<and> (\<forall>cl. a = Inr cl \<longrightarrow> (\<exists>t k r m. lib_parse L (jparser p) (ae_now E) token = Keyfunc t k
        \<and> k r = Inr m \<and> claimsFromMap L m = Inr cl
        \<and> (\<forall>key. r = Inr key \<longrightarrow> key_fits (cfg_Algorithm (cfg p)) key \<and> key_ok key
            \<and> tok_alg t = cfg_Algorithm (cfg p)
            \<and> keys c' (get_string (tok_header t) ''kid'') = Some key)))"
proof (cases "lib_parse L (jparser p) (ae_now E) token")
  case (Stop e)
  then show ?thesis using ok by (simp add: verify_def)
next
  case (Keyfunc t k)
  obtain r c' where v: "verificationKey L p (ae_key E) t c = Return (r, c')" "client_ok c'"
    "\<forall>key. r = Inr key \<longrightarrow> key_fits (cfg_Algorithm (cfg p)) key \<and> key_ok key
        \<and> tok_alg t = cfg_Algorithm (cfg p)
        \<and> keys c' (get_string (tok_header t) ''kid'') = Some key"
    using verificationKey_ok [OF ok rely alg] by metis
  show ?thesis
  proof (cases "k r")
    case (Inl e)
    with v Keyfunc show ?thesis by (simp add: verify_def)
  next
    case (Inr m)
    with v Keyfunc have "verify L p E token c = Return (claimsFromMap L m, c')"
      by (simp add: verify_def)
    with v Inr Keyfunc show ?thesis by blast
  qed
qed

lemma Authenticate_returns:
  assumes "client_ok c" and "rely (ae_key E)"
    and "cfg_Algorithm (cfg p) = AlgRS256 \<or> cfg_Algorithm (cfg p) = AlgES256"
  shows "\<exists>a c'. Authenticate L p E r c = Return (a, c') \<and> client_ok c'
    \<and> (\<forall>pr. a = Inr pr \<longrightarrow> (\<exists>cl. c_sub cl \<noteq> '''' \<and> mapFn p cl = Inr pr))"
proof (cases "header_get (Header r) (cfg_Header (cfg p)) = ''''")
  case True
  then show ?thesis using assms(1) by (simp add: Authenticate_def)
next
  case False
  let ?token = "header_get (Header r) (cfg_Header (cfg p))"
  obtain a c' where v: "verify L p E ?token c = Return (a, c')" "client_ok c'"
    "\<And>cl. a = Inr cl \<Longrightarrow> c_sub cl \<noteq> ''''"
    using verify_ok [OF assms] claimsFromMap_Inr by metis
  with False show ?thesis
    by (cases a) (auto simp: Authenticate_def Let_def)
qed

section \<open>Properties\<close>

text \<open>C3: Soundness of authentication, for every token, header, cache state and interference: a
  principal is returned only if the request carried a token whose signature checks under a key that
  is in the key set for the token's key id, has the pinned algorithm's type and is fit for use; whose
  issuer and audience are the configured ones; which has an expiry, not passed by more than the
  leeway of 60 seconds, and whose not-before and issued-at times, where it has them, are at most the
  leeway ahead; and whose subject is not empty. The principal is the mapping of those claims.\<close>

theorem authenticate_sound:
  assumes lib: "jwt_contract sig_ok L" and new: "NewJWTProvider c = Inr (p, j)"
    and ok: "client_ok s" and rely: "rely (ae_key E)"
    and auth: "Authenticate L p E r s = Return (Inr pr, s')"
  shows "\<exists>kid key m cl t. header_get (Header r) (cfg_Header c) \<noteq> ''''
    \<and> keys s' kid = Some key \<and> kid \<noteq> '''' \<and> key_ok key \<and> key_fits (cfg_Algorithm c) key
    \<and> sig_ok (cfg_Algorithm c) key (header_get (Header r) (cfg_Header c))
    \<and> lib_iss L m = Inr (cfg_Issuer c) \<and> (\<exists>aud. lib_aud L m = Inr aud \<and> cfg_Audience c \<in> set aud)
    \<and> lib_exp L m = Inr (Some t) \<and> ae_now E < t + 60 * second
    \<and> (\<forall>u. lib_nbf L m = Inr (Some u) \<longrightarrow> u \<le> ae_now E + 60 * second)
    \<and> (\<forall>u. lib_iat L m = Inr (Some u) \<longrightarrow> u \<le> ae_now E + 60 * second)
    \<and> claimsFromMap L m = Inr cl \<and> c_sub cl \<noteq> '''' \<and> mapFn p cl = Inr pr"
proof -
  let ?token = "header_get (Header r) (cfg_Header c)"
  have p: "cfg p = c" "jparser p = \<lparr>validMethods = [cfg_Algorithm c], p_issuer = cfg_Issuer c,
      p_audience = cfg_Audience c, p_leeway = expiryLeeway, p_issuedAt = True\<rparr>"
    and alg: "cfg_Algorithm (cfg p) = AlgRS256 \<or> cfg_Algorithm (cfg p) = AlgES256"
    and set: "cfg_Issuer c \<noteq> ''''" "cfg_Audience c \<noteq> ''''"
    using new by (auto simp: NewJWTProvider_Inr)
  have tok: "?token \<noteq> ''''" using auth p by (auto simp: Authenticate_def)
  obtain a c' where v: "verify L p E ?token s = Return (a, c')"
    "\<And>cl. a = Inr cl \<Longrightarrow> \<exists>t k r m. lib_parse L (jparser p) (ae_now E) ?token = Keyfunc t k
        \<and> k r = Inr m \<and> claimsFromMap L m = Inr cl
        \<and> (\<forall>key. r = Inr key \<longrightarrow> key_fits (cfg_Algorithm (cfg p)) key \<and> key_ok key
            \<and> tok_alg t = cfg_Algorithm (cfg p)
            \<and> keys c' (get_string (tok_header t) ''kid'') = Some key)" and ok': "client_ok c'"
    using verify_ok [OF ok rely alg] by metis
  then obtain cl where a: "a = Inr cl" "mapFn p cl = Inr pr" "s' = c'"
    using auth tok p by (cases a) (auto simp: Authenticate_def)
  from v(2) [OF a(1)] obtain t k q m where k: "lib_parse L (jparser p) (ae_now E) ?token = Keyfunc t k"
    "k q = Inr m" "claimsFromMap L m = Inr cl"
    "\<And>key. q = Inr key \<Longrightarrow> key_fits (cfg_Algorithm c) key \<and> key_ok key
        \<and> tok_alg t = cfg_Algorithm c \<and> keys c' (get_string (tok_header t) ''kid'') = Some key"
    using p by auto
  obtain key where q: "q = Inr key"
  proof (cases q)
    case (Inl s)
    with jwt_contractD(3) [OF lib k(1), of s] k(2) show ?thesis by auto
  qed (rule that)
  have "sig_ok (tok_alg t) key ?token \<and> claims_valid L (jparser p) (ae_now E) m"
    using jwt_contractD(5) [OF lib k(1)] k(2) q by simp
  moreover from k(4) [OF q] ok' have "get_string (tok_header t) ''kid'' \<noteq> ''''"
    by (auto simp: client_ok_def keys_ok_def)
  moreover obtain u where "lib_exp L m = Inr (Some u)" "c_sub cl \<noteq> ''''"
    using claimsFromMap_Inr [OF k(3)] by auto
  moreover have "Custom cl = m" using claimsFromMap_Inr [OF k(3)] by simp
  ultimately show ?thesis
    using tok k(3) k(4) [OF q] a p set
    by (intro exI [of _ "get_string (tok_header t) ''kid''"] exI [of _ key] exI [of _ m] exI [of _ cl] exI [of _ u])
      (auto simp: claims_valid_def expiryLeeway_def)
qed

text \<open>The texts a rejection can have when the mapping of claims does not add its own.\<close>

definition static_texts :: "string list" where
  "static_texts =
     [''no token in header'', ''malformed token'', ''token expired'', ''token issued in the future'',
      ''token not yet valid'', ''unexpected issuer'', ''unexpected audience'', ''missing required claim'',
      ''invalid signature'', ''token validation failed'', ''missing expiry'', ''missing subject'']
     @ map own_text [ErrUnexpectedAlgorithm, ErrMissingKeyID, ErrNoUsableKey, ErrKeyTypeMismatch]
     @ map wrapped_text [ErrUnexpectedAlgorithm, ErrMissingKeyID, ErrNoUsableKey, ErrKeyTypeMismatch]"

lemma own_texts: "own_text e \<in> set static_texts" "wrapped_text e \<in> set static_texts"
  by (cases e; simp only: static_texts_def; force)+

lemma reason_texts:
  "''no token in header'' \<in> set static_texts" "''malformed token'' \<in> set static_texts"
  "''token expired'' \<in> set static_texts" "''token issued in the future'' \<in> set static_texts"
  "''token not yet valid'' \<in> set static_texts" "''unexpected issuer'' \<in> set static_texts"
  "''unexpected audience'' \<in> set static_texts" "''missing required claim'' \<in> set static_texts"
  "''invalid signature'' \<in> set static_texts" "''token validation failed'' \<in> set static_texts"
  "''missing expiry'' \<in> set static_texts" "''missing subject'' \<in> set static_texts"
  by (simp_all add: static_texts_def)

lemma mapJWTError_text:
  assumes "le_own e = [] \<or> (\<exists>s. le_own e = [s] \<and> le_text e = wrapped_text s)"
  shows "error_text (mapJWTError e kr) \<in> set static_texts"
proof (cases "le_own e = []")
  case True
  then show ?thesis
    unfolding mapJWTError_def by (simp add: own_texts(1) reason_texts del: own_text.simps)
next
  case False
  with assms show ?thesis by (auto simp: mapJWTError_def own_texts)
qed

text \<open>C26: Nothing of the token crosses the error path: whatever the request carries, the text of a
  rejection is one of a fixed list of texts of the program (the four own errors also with the
  library's fixed prefix).\<close>

theorem rejection_texts_static:
  assumes lib: "jwt_contract sig_ok L" and ok: "client_ok s" and rely: "rely (ae_key E)"
    and new: "NewJWTProvider c = Inr (p, j)"
    and total: "\<And>cl. \<exists>pr. mapFn p cl = Inr pr"
    and auth: "Authenticate L p E r s = Return (Inl e, s')"
  shows "error_text e \<in> set static_texts"
proof (cases "header_get (Header r) (cfg_Header (cfg p)) = ''''")
  case True
  with auth have "e = Reason ''no token in header''" by (simp add: Authenticate_def)
  then show ?thesis by (simp add: reason_texts)
next
  case False
  let ?token = "header_get (Header r) (cfg_Header (cfg p))"
  have alg: "cfg_Algorithm (cfg p) = AlgRS256 \<or> cfg_Algorithm (cfg p) = AlgES256"
    using new by (auto simp: NewJWTProvider_Inr)
  obtain a c' where v: "verify L p E ?token s = Return (a, c')"
    using verify_ok [OF ok rely alg] by metis
  have a: "a = Inl e"
    using auth v False total by (cases a) (auto simp: Authenticate_def Let_def split: sum.splits, metis Inl_Inr_False)
  show ?thesis
  proof (cases "lib_parse L (jparser p) (ae_now E) ?token")
    case (Stop x)
    with v a jwt_contractD(1) [OF lib Stop] show ?thesis
      by (auto simp: verify_def intro!: mapJWTError_text)
  next
    case (Keyfunc t k)
    obtain q d where q: "verificationKey L p (ae_key E) t s = Return (q, d)"
      using verificationKey_ok [OF ok rely alg] by metis
    show ?thesis
    proof (cases "k q")
      case (Inl x)
      with v a q Keyfunc have "e = mapJWTError x True" by (simp add: verify_def)
      moreover have "le_own x = [] \<or> (\<exists>y. le_own x = [y] \<and> le_text x = wrapped_text y)"
      proof (cases q)
        case (Inl y)
        with jwt_contractD(3) [OF lib Keyfunc, of y] \<open>k q = Inl x\<close> show ?thesis by auto
      next
        case (Inr key)
        with jwt_contractD(4) [OF lib Keyfunc, of key x] \<open>k q = Inl x\<close> show ?thesis by simp
      qed
      ultimately show ?thesis by (simp add: mapJWTError_text)
    next
      case (Inr m)
      with v a q Keyfunc have "claimsFromMap L m = Inl e" by (simp add: verify_def)
      then have "e = Reason ''malformed token'' \<or> e = Reason ''missing expiry'' \<or> e = Reason ''missing subject''"
        by (auto simp: claimsFromMap_def split: sum.splits option.splits if_splits)
      then show ?thesis by (auto simp: reason_texts)
    qed
  qed
qed

text \<open>Tokens the parser rejects before the key function (malformed ones, \<open>alg=none\<close>, any method
  that is not the pinned one) and tokens without a key id never touch the key cache, so they cannot
  cause an outbound request; a method rejection is reported as such, not as a bad signature.\<close>

theorem early_rejection_no_lookup:
  assumes tok: "header_get (Header r) (cfg_Header (cfg p)) = token" "token \<noteq> ''''"
    and step: "lib_parse L (jparser p) (ae_now E) token = st"
    and early: "case st of Stop e \<Rightarrow> le_own e = [] | Keyfunc t k \<Rightarrow>
      (tok_alg t \<noteq> cfg_Algorithm (cfg p) \<or> get_string (tok_header t) ''kid'' = '''')
      \<and> (\<forall>s. \<exists>e. k (Inl s) = Inl e \<and> le_own e = [s])"
  shows "\<exists>e. Authenticate L p E r s = Return (Inl e, s)
    \<and> (\<forall>x. st = Stop x \<and> le_jwt x = [TokenSignatureInvalid] \<longrightarrow> e = Own ErrUnexpectedAlgorithm)"
proof (cases st)
  case (Stop e)
  with tok step early show ?thesis
    by (auto simp: Authenticate_def verify_def mapJWTError_def)
next
  case (Keyfunc t k)
  then obtain y where y: "verificationKey L p (ae_key E) t s = Return (Inl y, s)"
    using early by (cases "tok_alg t = cfg_Algorithm (cfg p)") (auto simp: verificationKey_def Let_def)
  obtain x where "k (Inl y) = Inl x" using early Keyfunc by auto
  with y tok step Keyfunc show ?thesis
    by (simp add: Authenticate_def verify_def)
qed

lemma authenticate_warm:
  assumes new: "NewJWTProvider c = Inr (p, j)"
    and tok: "header_get (Header r) (cfg_Header c) = token" "token \<noteq> ''''"
    and step: "lib_parse L (jparser p) (ae_now E) token = Keyfunc t k"
    and kid: "get_string (tok_header t) ''kid'' = kid" "kid \<noteq> ''''" and alg: "tok_alg t = cfg_Algorithm c"
    and key: "keys s kid = Some key" "key_fits (cfg_Algorithm c) key"
    and fresh: "time_sub (e_now (ae_key E)) (fetchedAt s) < jwksTTL"
    and acc: "k (Inr key) = Inr m" "claimsFromMap L m = Inr cl"
  shows "Authenticate L p E r s = Return (mapFn p cl, s)"
proof -
  have p: "cfg p = c" using new by (simp add: NewJWTProvider_Inr)
  have "jwks_key (lib_json L) (ae_key E) kid s = Return (Inr key, s)"
    using key fresh by (simp add: jwks_key_def key_enter_def)
  then have "verificationKey L p (ae_key E) t s = Return (Inr key, s)"
    using p kid alg key(2)
    by (auto simp: verificationKey_def key_fits_def AlgRS256_def AlgES256_def)
  then show ?thesis
    using p tok step acc by (simp add: Authenticate_def verify_def)
qed

text \<open>C27: Completeness on a warm cache: a token the library accepts under the cached key of its key id,
  with an expiry and a subject, is accepted, with no request to the provider and no change of the
  cache.\<close>

theorem authenticate_accepts:
  assumes new: "NewJWTProvider c = Inr (p, j)"
    and tok: "header_get (Header r) (cfg_Header c) = token" "token \<noteq> ''''"
    and step: "lib_parse L (jparser p) (ae_now E) token = Keyfunc t k"
    and kid: "get_string (tok_header t) ''kid'' = kid" "kid \<noteq> ''''" and alg: "tok_alg t = cfg_Algorithm c"
    and key: "keys s kid = Some key" "key_fits (cfg_Algorithm c) key"
    and fresh: "time_sub (e_now (ae_key E)) (fetchedAt s) < jwksTTL"
    and acc: "k (Inr key) = Inr m" "claimsFromMap L m = Inr cl"
  shows "Authenticate L p E r s = Return (mapFn p cl, s)"
  using assms by (rule authenticate_warm)

section \<open>A concrete library\<close>

text \<open>
  An instance of the parameter for the witnesses: one signed token, \<open>good\<close>, with fixed claims; the
  promise \<open>jwt_contract\<close> holds of it.
\<close>

definition sample_claims :: mapclaims where
  "sample_claims = [''iss'' \<mapsto> JString ''https://team.cloudflareaccess.com'', ''aud'' \<mapsto> JString ''app'',
     ''sub'' \<mapsto> JString ''alice'', ''exp'' \<mapsto> JNumber ''100'',
     ''email'' \<mapsto> JString ''alice@example.com'', ''roles'' \<mapsto> JArray [JString ''admin'']]"

definition sample_exp :: "mapclaims \<Rightarrow> unit + gotime option" where
  "sample_exp m = (case m ''exp'' of None \<Rightarrow> Inr None
     | Some (JNumber s) \<Rightarrow> Inr (Some (unix_epoch + second * int (foldl (\<lambda>n d. 10 * n + (byte_of d - 48)) 0 s)))
     | Some _ \<Rightarrow> Inl ())"

definition sample_valid :: "parser \<Rightarrow> gotime \<Rightarrow> mapclaims \<Rightarrow> bool" where
  "sample_valid ps now m \<longleftrightarrow> get_string m ''iss'' = p_issuer ps \<and> get_string m ''aud'' = p_audience ps
     \<and> (case sample_exp m of Inr (Some t) \<Rightarrow> now < t + p_leeway ps | _ \<Rightarrow> False)"

definition sample_step :: "parser \<Rightarrow> gotime \<Rightarrow> string \<Rightarrow> parse_step" where
  "sample_step ps now token =
     (if token = ''good'' \<and> AlgRS256 \<in> set (validMethods ps) then
        Keyfunc \<lparr>tok_alg = AlgRS256, tok_header = [''kid'' \<mapsto> JString ''k1'']\<rparr>
          (\<lambda>r. case r of
             Inl s \<Rightarrow> Inl \<lparr>le_own = [s], le_jwt = [TokenUnverifiable], le_text = wrapped_text s\<rparr>
           | Inr key \<Rightarrow> if sample_valid ps now sample_claims then Inr sample_claims
               else Inl \<lparr>le_own = [], le_jwt = [TokenExpired], le_text = ''token has invalid claims''\<rparr>)
      else Stop \<lparr>le_own = [], le_jwt = [TokenSignatureInvalid], le_text = ''signing method none is invalid''\<rparr>)"

definition sample_lib :: jwt_lib where
  "sample_lib = \<lparr>lib_parse = sample_step, lib_exp = sample_exp, lib_nbf = (\<lambda>_. Inr None),
     lib_iat = (\<lambda>_. Inr None), lib_sub = (\<lambda>m. Inr (get_string m ''sub'')),
     lib_iss = (\<lambda>m. Inr (get_string m ''iss'')), lib_aud = (\<lambda>m. Inr [get_string m ''aud'']),
     lib_json = (\<lambda>_. Some sample_doc)\<rparr>"

definition sample_sig :: "string \<Rightarrow> pubkey \<Rightarrow> string \<Rightarrow> bool" where
  "sample_sig alg key token \<longleftrightarrow> alg = AlgRS256 \<and> token = ''good''"

lemma sample_contract: "jwt_contract sample_sig sample_lib"
  by (auto simp: jwt_contract_def sample_lib_def sample_step_def sample_sig_def claims_valid_def
      sample_valid_def split: option.splits sum.splits)

definition sample_cfg :: JWTConfig where
  "sample_cfg = \<lparr>cfg_Header = ''Cf-Access-Jwt-Assertion'', cfg_Issuer = ''https://team.cloudflareaccess.com'',
     cfg_Audience = ''app'', cfg_Algorithm = AlgRS256,
     cfg_JWKSURL = ''https://team.cloudflareaccess.com/cdn-cgi/access/certs'',
     cfg_MapClaims = None, cfg_HTTPClient = None\<rparr>"

definition sample_provider :: jwtProvider where
  "sample_provider = \<lparr>cfg = sample_cfg,
     jparser = \<lparr>validMethods = [AlgRS256], p_issuer = ''https://team.cloudflareaccess.com'',
       p_audience = ''app'', p_leeway = expiryLeeway, p_issuedAt = True\<rparr>, mapFn = default_map\<rparr>"

lemma sample_new: "NewJWTProvider sample_cfg = Inr (sample_provider,
    newJWKSClient ''https://team.cloudflareaccess.com/cdn-cgi/access/certs'' \<lparr>hc_timeout = defaultJWKSFetchTimeout\<rparr>)"
  by (simp add: NewJWTProvider_Inr sample_provider_def) (simp add: sample_cfg_def)

definition sample_now :: gotime where "sample_now = unix_epoch + 90 * second"

definition warm_client :: jwksClient where
  "warm_client = sample_client\<lparr>keys := [''k1'' \<mapsto> sample_key], fetchedAt := sample_now, lastFetchAttempt := sample_now\<rparr>"

definition sample_env :: auth_env where
  "sample_env = \<lparr>ae_key = quiet_env sample_now TransportError, ae_now = sample_now\<rparr>"

definition sample_request :: "string \<Rightarrow> string \<Rightarrow> string \<Rightarrow> request" where
  "sample_request mthd pth token = \<lparr>Method = mthd, Path = pth, RawPath = pth, RawQuery = '''',
     Header = header_set ''Cf-Access-Jwt-Assertion'' token (\<lambda>_. None),
     Body = \<lparr>body_bytes = '''', body_limit = None\<rparr>,
     Ctx = \<lparr>ctx_principal = None, ctx_requestID = None\<rparr>, Pattern = '''', PathValues = []\<rparr>"

lemma sample_header: "header_get (Header (sample_request mthd pth token)) (cfg_Header sample_cfg) = token"
  by (simp add: sample_request_def sample_cfg_def header_get_set)

lemma warm_client_ok: "client_ok warm_client"
  using parseRSAJWK_key_ok [OF sample_parse]
  by (simp add: warm_client_def client_ok_def keys_ok_def sample_client_def newJWKSClient_def)

lemma sample_cl: "claimsFromMap sample_lib sample_claims = Inr \<lparr>c_sub = ''alice'',
    c_iss = ''https://team.cloudflareaccess.com'', c_aud = [''app''], c_exp = 100, c_nbf = 0, c_iat = 0,
    Custom = sample_claims\<rparr>"
  by (simp add: claimsFromMap_def sample_lib_def sample_exp_def sample_claims_def get_string_def
      unix_or_zero_def time_unix_def byte_of_def second_def)

definition alice :: principal where
  "alice = \<lparr>Subject = ''alice'', Email = '''', DisplayName = '''', Roles = None\<rparr>"

lemma sample_fields [simp]:
  "lib_parse sample_lib = sample_step" "cfg sample_provider = sample_cfg"
  "cfg_Algorithm sample_cfg = AlgRS256" "ae_now sample_env = sample_now"
  "ae_key sample_env = quiet_env sample_now TransportError"
  "keys warm_client = [''k1'' \<mapsto> sample_key]" "fetchedAt warm_client = sample_now"
  by (simp_all add: sample_lib_def sample_provider_def sample_cfg_def sample_env_def warm_client_def)

lemma sample_sub: "time_sub sample_now sample_now < jwksTTL"
  by (simp add: time_sub_exact int64_defs jwks_consts duration_defs)

lemma sample_valid_now: "sample_valid (jparser sample_provider) sample_now sample_claims"
  by (simp add: sample_valid_def sample_provider_def sample_claims_def get_string_def sample_exp_def
      sample_now_def expiryLeeway_def second_def byte_of_def)

definition sample_keyfunc :: "own_error + pubkey \<Rightarrow> lib_error + mapclaims" where
  "sample_keyfunc r = (case r of
       Inl s \<Rightarrow> Inl \<lparr>le_own = [s], le_jwt = [TokenUnverifiable], le_text = wrapped_text s\<rparr>
     | Inr key \<Rightarrow> Inr sample_claims)"

lemma sample_step_good: "lib_parse sample_lib (jparser sample_provider) (ae_now sample_env) ''good'' =
      Keyfunc \<lparr>tok_alg = AlgRS256, tok_header = [''kid'' \<mapsto> JString ''k1'']\<rparr> sample_keyfunc"
  using sample_valid_now
  by (auto simp: sample_step_def sample_keyfunc_def fun_eq_iff split: sum.splits) (simp add: sample_provider_def)

lemma sample_step_bad: "lib_parse sample_lib ps now ''bad'' =
    Stop \<lparr>le_own = [], le_jwt = [TokenSignatureInvalid], le_text = ''signing method none is invalid''\<rparr>"
  by (simp add: sample_step_def)

lemma sample_map: "mapFn sample_provider \<lparr>c_sub = ''alice'', c_iss = iss, c_aud = aud, c_exp = e, c_nbf = nb,
    c_iat = ia, Custom = m\<rparr> = Inr alice"
  by (simp add: sample_provider_def default_map_def zero_principal_def alice_def)

lemma sample_key_rsa: "key_fits AlgRS256 sample_key"
  by (simp add: key_fits_def sample_key_def)

lemma sample_kid: "get_string (tok_header \<lparr>tok_alg = AlgRS256, tok_header = [''kid'' \<mapsto> JString ''k1'']\<rparr>) ''kid'' = ''k1''"
  by (simp add: get_string_def)

lemmas sample_good = sample_new sample_header sample_step_good sample_kid sample_key_rsa sample_sub
  sample_cl sample_map

lemma sample_auth: "Authenticate sample_lib sample_provider sample_env (sample_request mthd pth ''good'') warm_client
     = Return (Inr alice, warm_client)"
  using authenticate_warm [OF sample_new sample_header _ sample_step_good sample_kid _ _ _ _ _ _ sample_cl,
      of warm_client sample_key mthd pth]
  by (simp add: sample_good sample_keyfunc_def)

theorem authenticate_accepts_witness:
  "Authenticate sample_lib sample_provider sample_env (sample_request ''GET'' ''/'' ''good'') warm_client
     = Return (Inr alice, warm_client)"
  using authenticate_accepts [OF sample_new sample_header _ sample_step_good sample_kid _ _ _ _ _ _ sample_cl,
      of warm_client sample_key "''GET''" "''/''"]
  by (simp add: sample_good sample_keyfunc_def)

theorem authenticate_sound_witness:
  "\<exists>kid key. keys warm_client kid = Some key \<and> kid \<noteq> '''' \<and> key_ok key \<and> is_rsa key \<and> sample_sig AlgRS256 key ''good''"
  using authenticate_sound [OF sample_contract sample_new warm_client_ok _ sample_auth [of "''GET''" "''/''"]]
  by (fastforce simp: sample_header key_fits_def AlgRS256_def AlgES256_def split: if_splits)

theorem rejection_texts_static_witness:
  "error_text (Own ErrUnexpectedAlgorithm) \<in> set static_texts"
proof (rule rejection_texts_static [OF sample_contract warm_client_ok _ sample_new])
  show "rely (ae_key sample_env)" by simp
  show "\<exists>pr. mapFn sample_provider cl = Inr pr" for cl
    by (simp add: sample_provider_def default_map_def)
  show "Authenticate sample_lib sample_provider sample_env (sample_request ''GET'' ''/'' ''bad'') warm_client
      = Return (Inl (Own ErrUnexpectedAlgorithm), warm_client)"
    by (simp add: Authenticate_def verify_def sample_header sample_step_def mapJWTError_def)
qed

theorem early_rejection_no_lookup_witness:
  "\<exists>e. Authenticate sample_lib sample_provider sample_env (sample_request ''GET'' ''/'' ''bad'') sample_client
     = Return (Inl e, sample_client) \<and> e = Own ErrUnexpectedAlgorithm"
  using early_rejection_no_lookup [of "sample_request ''GET'' ''/'' ''bad''" sample_provider "''bad''"
      sample_lib sample_env, OF _ _ sample_step_bad, of sample_client]
  by (simp add: sample_header)

end
