(* ===== verification/Providers.thy ===== *)
theory Providers
  imports JwtProvider
begin

text \<open>
  The provider registry and the three providers: internal/auth/provider.go, cloudflare.go,
  localprovider.go and pomerium.go. Then the interface \<open>Provider\<close> as a locale, with the JWT
  provider as its instance.
\<close>

section \<open>Role mapping and claims\<close>

type_synonym role_mapper = "string \<Rightarrow> string"

definition IdentityRoleMapper :: role_mapper where
  "IdentityRoleMapper role = role"

definition trimRolePrefix :: "string \<Rightarrow> role_mapper" where
  "trimRolePrefix prefix =
     (if prefix = '''' then IdentityRoleMapper else (\<lambda>role. trim_prefix role prefix))"

text \<open>The loop over the elements of the roles (or groups) claim.\<close>

fun roles_loop :: "role_mapper \<Rightarrow> json list \<Rightarrow> string list option \<Rightarrow> string list option" where
  "roles_loop f [] roles = roles"
| "roles_loop f (v # vs) roles =
     roles_loop f vs
       (case v of JString s \<Rightarrow> if s \<noteq> '''' then append_slice roles (f s) else roles | _ \<Rightarrow> roles)"

definition mapCloudflareClaims :: "claims \<Rightarrow> role_mapper \<Rightarrow> principal" where
  "mapCloudflareClaims c mapRoles =
     \<lparr>Subject = c_sub c, Email = get_string (Custom c) ''email'', DisplayName = get_string (Custom c) ''name'',
      Roles = (case get_array (Custom c) ''roles'' of None \<Rightarrow> None | Some raw \<Rightarrow> roles_loop mapRoles raw None)\<rparr>"

definition mapPomeriumClaims :: "claims \<Rightarrow> role_mapper \<Rightarrow> principal" where
  "mapPomeriumClaims c mapRoles =
     \<lparr>Subject = c_sub c, Email = get_string (Custom c) ''email'', DisplayName = get_string (Custom c) ''name'',
      Roles = (case get_array (Custom c) ''groups'' of None \<Rightarrow> None | Some raw \<Rightarrow> roles_loop mapRoles raw None)\<rparr>"

definition mapLocalClaims :: "claims \<Rightarrow> auth_error + principal" where
  "mapLocalClaims c = Inr
     \<lparr>Subject = c_sub c, Email = get_string (Custom c) ''email'', DisplayName = get_string (Custom c) ''name'',
      Roles = (case get_array (Custom c) ''roles'' of
        None \<Rightarrow> None | Some raw \<Rightarrow> roles_loop (\<lambda>s. s) raw None)\<rparr>"

section \<open>Constructors\<close>

record Settings =
  TeamDomain :: string
  Audience :: string
  LocalIssuer :: string
  LocalAudience :: string
  JWKSURL :: string
  LocalHeader :: string
  LocalAlgorithm :: string
  PomeriumJWKSURL :: string
  PomeriumIssuer :: string
  PomeriumAudience :: string
  PomeriumHeader :: string
  PomeriumAlgorithm :: string
  PomeriumRolePrefix :: string
  set_HTTPClient :: "http_client option"

type_synonym constructor = "Settings \<Rightarrow> config_error + (jwtProvider \<times> jwksClient)"

definition is_domain_char :: "char \<Rightarrow> bool" where
  "is_domain_char c \<longleftrightarrow> is_lower c \<or> is_upper c \<or> is_digit c \<or> c = CHR ''-'' \<or> c = CHR ''.''"

definition isValidTeamDomain :: "string \<Rightarrow> bool" where
  "isValidTeamDomain s \<longleftrightarrow>
     \<not> (s = '''') \<and>
     \<not> (has_prefix s ''.'' \<or> has_suffix s ''.'' \<or> has_prefix s ''-'' \<or> has_suffix s ''-'') \<and>
     \<not> contains_str s ''..'' \<and> list_all is_domain_char s"

definition cloudflare_suffix :: string where
  "cloudflare_suffix = ''.cloudflareaccess.com''"

definition NewCloudflare ::
  "string \<Rightarrow> string \<Rightarrow> role_mapper option \<Rightarrow> http_client option \<Rightarrow> config_error + (jwtProvider \<times> jwksClient)" where
  "NewCloudflare teamDomain audience mapRoles hc =
     (if teamDomain = '''' \<or> audience = '''' then Inl MissingSettings
      else if \<not> isValidTeamDomain teamDomain then Inl (InvalidTeamDomain teamDomain)
      else
        let mr = (case mapRoles of None \<Rightarrow> IdentityRoleMapper | Some f \<Rightarrow> f);
            team = trim_suffix teamDomain cloudflare_suffix;
            issuer = ''https://'' @ team @ cloudflare_suffix
        in NewJWTProvider \<lparr>cfg_Header = ''Cf-Access-Jwt-Assertion'', cfg_Issuer = issuer,
             cfg_Audience = audience, cfg_Algorithm = AlgRS256,
             cfg_JWKSURL = issuer @ ''/cdn-cgi/access/certs'',
             cfg_MapClaims = Some (\<lambda>c. Inr (mapCloudflareClaims c mr)), cfg_HTTPClient = hc\<rparr>)"

definition newPomeriumProvider :: constructor where
  "newPomeriumProvider s =
     (if PomeriumJWKSURL s = '''' \<or> PomeriumIssuer s = '''' \<or> PomeriumAudience s = ''''
      then Inl MissingSettings
      else NewJWTProvider
        \<lparr>cfg_Header = (if PomeriumHeader s \<noteq> '''' then PomeriumHeader s else ''X-Pomerium-Jwt-Assertion''),
         cfg_Issuer = PomeriumIssuer s, cfg_Audience = PomeriumAudience s,
         cfg_Algorithm = (if PomeriumAlgorithm s \<noteq> '''' then PomeriumAlgorithm s else AlgES256),
         cfg_JWKSURL = PomeriumJWKSURL s,
         cfg_MapClaims = Some (\<lambda>c. Inr (mapPomeriumClaims c (trimRolePrefix (PomeriumRolePrefix s)))),
         cfg_HTTPClient = set_HTTPClient s\<rparr>)"

definition newLocalJWTProvider :: constructor where
  "newLocalJWTProvider s =
     (if LocalIssuer s = '''' \<or> LocalAudience s = '''' then Inl MissingSettings
      else
        let header = (if LocalHeader s \<noteq> '''' then LocalHeader s else ''Cf-Access-Jwt-Assertion'');
            alg = (if LocalAlgorithm s \<noteq> '''' then LocalAlgorithm s else AlgRS256)
        in if JWKSURL s = '''' then Inl MissingSettings
           else NewJWTProvider
             \<lparr>cfg_Header = header, cfg_Issuer = LocalIssuer s, cfg_Audience = LocalAudience s,
              cfg_Algorithm = alg, cfg_JWKSURL = JWKSURL s, cfg_MapClaims = Some mapLocalClaims,
              cfg_HTTPClient = set_HTTPClient s\<rparr>)"

text \<open>The registry, filled by the package's init functions in the order of the file names.\<close>

definition register :: "string \<Rightarrow> constructor \<Rightarrow> (string, constructor) gomap \<Rightarrow> (string, constructor) gomap" where
  "register name new reg = AList.update name new reg"

definition registry :: "(string, constructor) gomap" where
  "registry =
     register ''pomerium'' newPomeriumProvider
       (register ''local'' newLocalJWTProvider
         (register ''cloudflare-access''
           (\<lambda>s. NewCloudflare (TeamDomain s) (Audience s) None (set_HTTPClient s)) []))"

definition NewProvider :: "string \<Rightarrow> constructor" where
  "NewProvider name s =
     (case map_of registry name of
        None \<Rightarrow> Inl (UnknownProvider name)
      | Some new \<Rightarrow> new s)"

section \<open>Lemmas\<close>

lemma registry_lookup:
  "map_of registry name =
     (if name = ''cloudflare-access'' then Some (\<lambda>s. NewCloudflare (TeamDomain s) (Audience s) None (set_HTTPClient s))
      else if name = ''local'' then Some newLocalJWTProvider
      else if name = ''pomerium'' then Some newPomeriumProvider else None)"
  by (simp add: registry_def register_def)

fun strings_of :: "json list \<Rightarrow> string list" where
  "strings_of [] = []"
| "strings_of (JString s # vs) = (if s \<noteq> '''' then s # strings_of vs else strings_of vs)"
| "strings_of (_ # vs) = strings_of vs"

lemma roles_loop_slice: "slice (roles_loop f vs roles) = slice roles @ map f (strings_of vs)"
  by (induction vs arbitrary: roles rule: strings_of.induct) auto

lemma roles_loop_nil: "roles_loop f vs None = None \<longleftrightarrow> strings_of vs = []"
proof -
  have keep: "\<exists>y. roles_loop f vs (Some rs) = Some y" for rs vs
    by (induction vs arbitrary: rs rule: strings_of.induct) (auto simp: append_slice_def)
  show ?thesis
    by (induction vs rule: strings_of.induct) (use keep in \<open>auto simp: append_slice_def\<close>)
qed

text \<open>The roles a claim asserts: its non-empty strings.\<close>

definition claim_roles :: "string \<Rightarrow> claims \<Rightarrow> string list" where
  "claim_roles k c = (case get_array (Custom c) k of None \<Rightarrow> [] | Some vs \<Rightarrow> strings_of vs)"

lemma mapped_roles [simp]:
  "slice (Roles (mapCloudflareClaims c f)) = map f (claim_roles ''roles'' c)"
  "slice (Roles (mapPomeriumClaims c f)) = map f (claim_roles ''groups'' c)"
  "mapLocalClaims c = Inr (mapCloudflareClaims c (\<lambda>s. s))"
  "Subject (mapCloudflareClaims c f) = c_sub c" "Subject (mapPomeriumClaims c f) = c_sub c"
  by (simp_all add: mapCloudflareClaims_def mapPomeriumClaims_def mapLocalClaims_def claim_roles_def
      roles_loop_slice split: option.splits)

text \<open>Every constructor goes through \<open>NewJWTProvider\<close> with a mapping that keeps the subject.\<close>

lemma NewProvider_cases:
  assumes "NewProvider name s = Inr (p, j)"
  obtains (cloudflare) "name = ''cloudflare-access''"
      "NewCloudflare (TeamDomain s) (Audience s) None (set_HTTPClient s) = Inr (p, j)"
  | (local) "name = ''local''" "newLocalJWTProvider s = Inr (p, j)"
  | (pomerium) "name = ''pomerium''" "newPomeriumProvider s = Inr (p, j)"
  using assms by (auto simp: NewProvider_def registry_lookup split: if_splits)

lemma NewProvider_new:
  assumes "NewProvider name s = Inr (p, j)"
  shows "\<exists>c f. NewJWTProvider c = Inr (p, j) \<and> cfg_MapClaims c = Some f
    \<and> (\<forall>cl. \<exists>pr. f cl = Inr pr \<and> Subject pr = c_sub cl) \<and> cfg_HTTPClient c = set_HTTPClient s"
  using assms
  by (cases rule: NewProvider_cases)
    (auto simp: NewCloudflare_def newLocalJWTProvider_def newPomeriumProvider_def Let_def split: if_splits)

lemma NewProvider_settings:
  assumes "NewProvider name s = Inr (p, j)"
  shows "name = ''cloudflare-access'' \<Longrightarrow> cfg_Audience (cfg p) = Audience s"
    and "name = ''local'' \<Longrightarrow> cfg_Issuer (cfg p) = LocalIssuer s \<and> cfg_Audience (cfg p) = LocalAudience s \<and> jwks_url j = JWKSURL s"
    and "name = ''pomerium'' \<Longrightarrow> cfg_Issuer (cfg p) = PomeriumIssuer s \<and> cfg_Audience (cfg p) = PomeriumAudience s
      \<and> jwks_url j = PomeriumJWKSURL s"
  using assms
  by (cases rule: NewProvider_cases; auto simp: NewCloudflare_def newLocalJWTProvider_def newPomeriumProvider_def Let_def
      NewJWTProvider_Inr newJWKSClient_def split: if_splits)+

lemma NewProvider_map:
  assumes "NewProvider name s = Inr (p, j)"
  shows "\<exists>pr. mapFn p cl = Inr pr \<and> Subject pr = c_sub cl"
  using NewProvider_new [OF assms] by (auto simp: NewJWTProvider_Inr)

lemma NewProvider_alg:
  assumes "NewProvider name s = Inr (p, j)"
  shows "cfg_Algorithm (cfg p) = AlgRS256 \<or> cfg_Algorithm (cfg p) = AlgES256"
  using NewProvider_new [OF assms] by (auto simp: NewJWTProvider_Inr)

section \<open>The provider interface\<close>

text \<open>
  What the middleware may rely on: an authentication returns, keeps the provider's state fit, and
  a principal has a subject.
\<close>

locale provider =
  fixes authenticate :: "'e \<Rightarrow> request \<Rightarrow> 's \<Rightarrow> ((auth_error + principal) \<times> 's) outcome"
    and env_ok :: "'e \<Rightarrow> bool" and invar :: "'s \<Rightarrow> bool"
  assumes auth_returns: "env_ok E \<Longrightarrow> invar s \<Longrightarrow>
      \<exists>a s'. authenticate E r s = Return (a, s') \<and> invar s'"
    and auth_subject: "env_ok E \<Longrightarrow> invar s \<Longrightarrow> authenticate E r s = Return (Inr p, s') \<Longrightarrow> Subject p \<noteq> ''''"
begin

lemma auth_cases:
  assumes "env_ok E" and "invar s"
  obtains (reject) e s' where "authenticate E r s = Return (Inl e, s')" "invar s'"
  | (accept) p s' where "authenticate E r s = Return (Inr p, s')" "invar s'" "Subject p \<noteq> ''''"
proof -
  obtain a s' where "authenticate E r s = Return (a, s')" "invar s'"
    using auth_returns [OF assms] by blast
  then show thesis
    using reject accept auth_subject [OF assms] by (cases a) auto
qed

end

definition registered :: "jwtProvider \<Rightarrow> bool" where
  "registered p \<longleftrightarrow> (\<exists>name s j. NewProvider name s = Inr (p, j))"

lemma registered_subject:
  assumes "registered p" and "client_ok s" and "rely (ae_key E)"
    and "Authenticate L p E r s = Return (Inr pr, s')"
  shows "Subject pr \<noteq> ''''"
proof -
  obtain name st j where new: "NewProvider name st = Inr (p, j)"
    using assms(1) by (auto simp: registered_def)
  obtain cl where "c_sub cl \<noteq> ''''" "mapFn p cl = Inr pr"
    using Authenticate_returns [OF assms(2,3) NewProvider_alg [OF new], of L r] assms(4) by auto
  with NewProvider_map [OF new, of cl] show ?thesis by auto
qed

interpretation jwt: provider "Authenticate L p" "\<lambda>E. rely (ae_key E)" "\<lambda>s. client_ok s \<and> registered p"
proof
  fix E :: auth_env and r s
  assume "rely (ae_key E)" "client_ok s \<and> registered p"
  then show "\<exists>a s'. Authenticate L p E r s = Return (a, s') \<and> client_ok s' \<and> registered p"
    using Authenticate_returns NewProvider_alg unfolding registered_def by metis
qed (use registered_subject in blast)

section \<open>Properties\<close>

text \<open>C24: Whatever the registered provider, what it hands to the verifier is pinned: the parser accepts one
  method, one of the two algorithms, and checks the configured issuer and audience and the issued-at
  time, with a leeway of 60 seconds; header, issuer and audience are not empty and, like the URL of the
  key set, those of the provider's own settings (for Cloudflare see below); the key set is fetched with a ten-second
  client unless the settings carry one; and the principal's subject is the verified one.\<close>

theorem registered_provider_pinned:
  assumes "NewProvider name s = Inr (p, j)"
  shows "name \<in> {''cloudflare-access'', ''local'', ''pomerium''}
    \<and> cfg_Algorithm (cfg p) \<in> {AlgRS256, AlgES256} 
    \<and> jparser p = \<lparr>validMethods = [cfg_Algorithm (cfg p)], p_issuer = cfg_Issuer (cfg p), p_audience = cfg_Audience (cfg p),
         p_leeway = 60 * second, p_issuedAt = True\<rparr>
    \<and> (name = ''cloudflare-access'' \<longrightarrow> cfg_Audience (cfg p) = Audience s)
    \<and> (name = ''local'' \<longrightarrow> cfg_Issuer (cfg p) = LocalIssuer s \<and> cfg_Audience (cfg p) = LocalAudience s \<and> jwks_url j = JWKSURL s)
    \<and> (name = ''pomerium'' \<longrightarrow> cfg_Issuer (cfg p) = PomeriumIssuer s \<and> cfg_Audience (cfg p) = PomeriumAudience s
         \<and> jwks_url j = PomeriumJWKSURL s)
    \<and> cfg_Header (cfg p) \<noteq> '''' \<and> cfg_Issuer (cfg p) \<noteq> '''' \<and> cfg_Audience (cfg p) \<noteq> ''''
    \<and> client_ok j
    \<and> hc_timeout (httpClient j) = (case set_HTTPClient s of None \<Rightarrow> 10 * second | Some h \<Rightarrow> hc_timeout h)
    \<and> (\<forall>cl. \<exists>pr. mapFn p cl = Inr pr \<and> Subject pr = c_sub cl)"
proof -
  obtain c f where c: "NewJWTProvider c = Inr (p, j)" "cfg_MapClaims c = Some f"
    "\<forall>cl. \<exists>pr. f cl = Inr pr \<and> Subject pr = c_sub cl" "cfg_HTTPClient c = set_HTTPClient s"
    using NewProvider_new [OF assms] by blast
  have "name \<in> {''cloudflare-access'', ''local'', ''pomerium''}"
    using assms by (cases rule: NewProvider_cases) auto
  moreover have "cfg p = c \<and> jparser p = \<lparr>validMethods = [cfg_Algorithm c], p_issuer = cfg_Issuer c,
      p_audience = cfg_Audience c, p_leeway = 60 * second, p_issuedAt = True\<rparr>"
    "cfg_Algorithm c \<in> {AlgRS256, AlgES256}" "cfg_Header c \<noteq> [] \<and> cfg_Issuer c \<noteq> [] \<and> cfg_Audience c \<noteq> []" "mapFn p = f"
    "client_ok j" "hc_timeout (httpClient j) = (case set_HTTPClient s of None \<Rightarrow> 10 * second | Some h \<Rightarrow> hc_timeout h)"
    using c(1,2,4) by (auto simp: NewJWTProvider_Inr expiryLeeway_def)
      (simp_all add: newJWKSClient_def defaultJWKSFetchTimeout_def split: option.splits)
  ultimately show ?thesis
    using NewProvider_settings [OF assms] c(3) by simp
qed

lemma domain_chars_split:
  "is_domain_char c \<Longrightarrow> c \<notin> set ''/?#@:%''"
  by (auto simp: is_domain_char_def char_bytes byte_of_def)

text \<open>C23: The Cloudflare team domain cannot redirect the key fetch: a provider exists only for a domain
  of letters, digits, dots and hyphens, its issuer is \<open>https://\<close> followed by such a name under
  cloudflareaccess.com and its key set is at a fixed path of that issuer; no character of the name
  starts another URL component. The algorithm is RS256.\<close>

theorem cloudflare_confined:
  assumes "NewCloudflare td aud mr hc = Inr (p, j)"
  shows "\<exists>team. (td = team \<or> td = team @ cloudflare_suffix)
    \<and> cfg_Issuer (cfg p) = ''https://'' @ team @ cloudflare_suffix \<and> set team \<inter> set ''/?#@:%'' = {}
    \<and> jwks_url j = ''https://'' @ team @ cloudflare_suffix @ ''/cdn-cgi/access/certs''
    \<and> cfg_Audience (cfg p) = aud \<and> cfg_Algorithm (cfg p) = AlgRS256"
proof -
  let ?team = "trim_suffix td cloudflare_suffix"
  have valid: "list_all is_domain_char td"
    using assms by (auto simp: NewCloudflare_def isValidTeamDomain_def split: if_splits)
  have "td = ?team \<or> td = ?team @ cloudflare_suffix"
    by (cases "has_suffix td cloudflare_suffix") (auto simp: has_suffix_iff trim_suffix_id)
  moreover have "set ?team \<inter> set ''/?#@:%'' = {}"
    using valid set_trim_suffix [of td cloudflare_suffix] domain_chars_split
    by (fastforce simp: list_all_iff)
  moreover have "cfg_Issuer (cfg p) = ''https://'' @ ?team @ cloudflare_suffix \<and> cfg_Audience (cfg p) = aud
      \<and> cfg_Algorithm (cfg p) = AlgRS256
      \<and> jwks_url j = ''https://'' @ ?team @ cloudflare_suffix @ ''/cdn-cgi/access/certs''"
    using assms
    by (auto simp: NewCloudflare_def Let_def NewJWTProvider_Inr newJWKSClient_def split: if_splits)
  ultimately show ?thesis by blast
qed

text \<open>C25: Which roles a principal has, for each provider: exactly the non-empty strings of the roles
  claim (Cloudflare Access, local), or of the groups claim with the configured prefix removed
  (Pomerium). Other elements of the claim, or a claim that is not an array, give none.\<close>

theorem provider_roles:
  assumes "NewProvider name s = Inr (p, j)" and "mapFn p cl = Inr pr"
  shows "HasRole pr role \<longleftrightarrow>
    (if name = ''pomerium''
     then (\<exists>g \<in> set (claim_roles ''groups'' cl). trim_prefix g (PomeriumRolePrefix s) = role)
     else role \<in> set (claim_roles ''roles'' cl))"
  using assms(1)
proof (cases rule: NewProvider_cases)
  case pomerium
  have "trimRolePrefix pre g = trim_prefix g pre" for pre g
    by (simp add: trimRolePrefix_def IdentityRoleMapper_def trim_prefix_def)
  with pomerium assms(2) show ?thesis
    by (auto simp: newPomeriumProvider_def NewJWTProvider_Inr HasRole_def split: if_splits)
next
  case cloudflare
  with assms(2) show ?thesis
    by (auto simp: NewCloudflare_def Let_def NewJWTProvider_Inr HasRole_def IdentityRoleMapper_def split: if_splits)
next
  case local
  with assms(2) show ?thesis
    by (auto simp: newLocalJWTProvider_def Let_def NewJWTProvider_Inr HasRole_def split: if_splits)
qed

definition sample_settings :: Settings where
  "sample_settings = \<lparr>TeamDomain = ''team'', Audience = ''app'', LocalIssuer = '''', LocalAudience = '''',
     JWKSURL = '''', LocalHeader = '''', LocalAlgorithm = '''',
     PomeriumJWKSURL = ''https://app.example.com/jwks.json'', PomeriumIssuer = ''app.example.com'',
     PomeriumAudience = ''app.example.com'', PomeriumHeader = '''', PomeriumAlgorithm = '''',
     PomeriumRolePrefix = ''/'', set_HTTPClient = None\<rparr>"

lemma valid_team: "isValidTeamDomain ''team''"
  by (simp add: isValidTeamDomain_def has_prefix_def has_suffix_def is_domain_char_def is_lower_def
      less_eq_char_def)

definition cloudflare_provider :: "jwtProvider \<times> jwksClient" where
  "cloudflare_provider = projr (NewCloudflare ''team'' ''app'' None None)"

lemma sample_cloudflare: "NewCloudflare ''team'' ''app'' None None = Inr cloudflare_provider"
  unfolding cloudflare_provider_def
  by (simp add: NewCloudflare_def valid_team Let_def NewJWTProvider_def)

definition pomerium_provider :: "jwtProvider \<times> jwksClient" where
  "pomerium_provider = projr (newPomeriumProvider sample_settings)"

lemma sample_pomerium: "NewProvider ''pomerium'' sample_settings = Inr pomerium_provider"
  unfolding pomerium_provider_def
  by (simp add: NewProvider_def registry_lookup newPomeriumProvider_def sample_settings_def NewJWTProvider_def)

theorem registered_provider_pinned_witness:
  "cfg_Algorithm (cfg (fst pomerium_provider)) \<in> {AlgRS256, AlgES256}
    \<and> p_issuer (jparser (fst pomerium_provider)) = PomeriumIssuer sample_settings
    \<and> hc_timeout (httpClient (snd pomerium_provider)) = 10 * second"
  using registered_provider_pinned [of "''pomerium''" sample_settings "fst pomerium_provider" "snd pomerium_provider"]
  by (simp add: sample_pomerium) (simp add: sample_settings_def)

theorem cloudflare_confined_witness:
  "\<exists>team. (''team'' = team \<or> ''team'' = team @ cloudflare_suffix)
    \<and> cfg_Issuer (cfg (fst cloudflare_provider)) = ''https://'' @ team @ cloudflare_suffix"
  using cloudflare_confined [of "''team''" "''app''" None None "fst cloudflare_provider" "snd cloudflare_provider"]
  by (auto simp: sample_cloudflare)

definition grouped_claims :: claims where
  "grouped_claims = \<lparr>c_sub = ''bob'', c_iss = '''', c_aud = [], c_exp = 0, c_nbf = 0, c_iat = 0,
     Custom = [''groups'' \<mapsto> JArray [JString ''/admin'', JNumber ''3'', JString '''']]\<rparr>"

theorem provider_roles_witness:
  "\<exists>pr. mapFn (fst pomerium_provider) grouped_claims = Inr pr \<and> HasRole pr ''admin'' \<and> \<not> HasRole pr ''/admin''"
proof -
  obtain pr where pr: "mapFn (fst pomerium_provider) grouped_claims = Inr pr"
    using NewProvider_map [of "''pomerium''" sample_settings "fst pomerium_provider" "snd pomerium_provider"]
    by (auto simp: sample_pomerium)
  have "claim_roles ''groups'' grouped_claims = [''/admin'']"
    by (simp add: claim_roles_def get_array_def grouped_claims_def)
  moreover have "trim_prefix ''/admin'' (PomeriumRolePrefix sample_settings) = ''admin''"
    by (simp add: sample_settings_def trim_prefix_def has_prefix_def)
  moreover have "HasRole pr r \<longleftrightarrow> (\<exists>g \<in> set (claim_roles ''groups'' grouped_claims).
      trim_prefix g (PomeriumRolePrefix sample_settings) = r)" for r
    using provider_roles [of "''pomerium''" sample_settings "fst pomerium_provider" "snd pomerium_provider"
        grouped_claims pr r] sample_pomerium pr by simp
  ultimately have "HasRole pr ''admin''" "\<not> HasRole pr ''/admin''" by simp_all
  with pr show ?thesis by blast
qed

end
