(* ===== verification/AuthMiddleware.thy ===== *)
theory AuthMiddleware
  imports Providers
begin

text \<open>
  internal/auth/middleware.go: authentication and the role guard, and what a guard is in general: a
  middleware that either passes the request on or answers it itself.
\<close>

section \<open>The two middlewares\<close>

type_synonym 's middleware = "'s handler \<Rightarrow> 's handler"

definition auth_refusal :: "auth_error \<Rightarrow> request \<Rightarrow> 'a web_scheme \<Rightarrow> 'a web_scheme" where
  "auth_refusal e r w =
     WriteProblem 401 (StatusText 401) ''''
       (log_to Info ''authentication failed''
         [(''error'', error_text e), (''request_id'', RequestIDFromContext (Ctx r))] w)"

definition Middleware ::
  "(request \<Rightarrow> 'a web_scheme \<Rightarrow> ((auth_error + principal) \<times> 'a web_scheme) outcome)
     \<Rightarrow> 'a web_scheme middleware" where
  "Middleware authenticate nxt r w =
     (case authenticate r w of
        Panic e \<Rightarrow> Panicked e r w
      | Return (Inl e, w) \<Rightarrow> Done r (auth_refusal e r w)
      | Return (Inr p, w) \<Rightarrow> serve_with_ctx nxt (WithPrincipal (Ctx r) p) r w)"

definition has_role_in :: "string \<Rightarrow> request \<Rightarrow> bool" where
  "has_role_in role r \<longleftrightarrow> (case PrincipalFromContext (Ctx r) of None \<Rightarrow> False | Some p \<Rightarrow> HasRole p role)"

definition RequireRole :: "string \<Rightarrow> 'a web_scheme middleware" where
  "RequireRole role nxt r w =
     (if \<not> has_role_in role r then Done r (WriteProblem 403 (StatusText 403) '''' w)
      else nxt r w)"

section \<open>Guards\<close>

text \<open>
  A guard looks at the request and the state, may change the state, and then either lets the next
  handler run on the same request or refuses with a problem response.
\<close>

locale guard =
  fixes mw :: "'a web_scheme middleware" and passes :: "request \<Rightarrow> 'a web_scheme \<Rightarrow> bool"
    and before :: "request \<Rightarrow> 'a web_scheme \<Rightarrow> 'a web_scheme"
    and refuse :: "request \<Rightarrow> 'a web_scheme \<Rightarrow> 'a web_scheme"
    and refusals :: "nat set"
  assumes pass: "passes r w \<Longrightarrow> mw nxt r w = nxt r (before r w)"
    and stop: "\<not> passes r w \<Longrightarrow> mw nxt r w = Done r (refuse r w)"
    and before_quiet: "wrote (before r w) = wrote w" "chunks (before r w) = chunks w"
      "hdr (before r w) = hdr w" "recorders (before r w) = recorders w"
    and refused: "wrote w = None \<Longrightarrow> \<exists>st h. wrote (refuse r w) = Some (st, h) \<and> st \<in> refusals"
begin

text \<open>Behind a guard, whatever holds of refusals and of the next handler when it runs holds of the whole.\<close>

lemma frame:
  assumes "\<And>r w. \<not> passes r w \<Longrightarrow> P r w \<Longrightarrow> Q (Done r (refuse r w))"
    and "\<And>r w. passes r w \<Longrightarrow> P r w \<Longrightarrow> Q (nxt r (before r w))" and "P r w"
  shows "Q (mw nxt r w)"
  using assms pass stop by (cases "passes r w") metis+

text \<open>A refused request never reaches the next handler: the response does not depend on it.\<close>

lemma blocks: "\<not> passes r w \<Longrightarrow> mw nxt r w = mw nxt' r w"
  by (simp add: stop)

lemma refusal_status:
  assumes "\<not> passes r w" and "wrote w = None"
  shows "status_of (run_state (mw nxt r w)) \<in> refusals"
proof -
  obtain st h where "wrote (refuse r w) = Some (st, h)" "st \<in> refusals" using refused [OF assms(2)] by blast
  then show ?thesis using assms by (simp add: stop status_of_def)
qed

text \<open>Two guards in a row are a guard.\<close>

lemma then_guard:
  assumes "guard mw' passes' before' refuse' refusals'"
  shows "guard (\<lambda>nxt. mw (mw' nxt)) (\<lambda>r w. passes r w \<and> passes' r (before r w))
    (\<lambda>r w. before' r (before r w))
    (\<lambda>r w. if passes r w then refuse' r (before r w) else refuse r w) (refusals \<union> refusals')"
proof -
  note g = assms [unfolded guard_def]
  have "\<exists>st h. wrote (refuse' r (before r w)) = Some (st, h) \<and> st \<in> refusals \<union> refusals'" if "wrote w = None" for r w
  proof -
    have "wrote (before r w) = None" using that by (simp add: before_quiet)
    then show ?thesis using g by blast
  qed
  moreover have "\<exists>st h. wrote (refuse r w) = Some (st, h) \<and> st \<in> refusals \<union> refusals'" if "wrote w = None" for r w
    using refused [OF that] by blast
  ultimately show ?thesis
    using g by (auto simp: guard_def pass stop before_quiet)
qed

end

interpretation role: guard "RequireRole rl" "\<lambda>r w. has_role_in rl r" "\<lambda>r w. w"
  "\<lambda>r w. WriteProblem 403 (StatusText 403) '''' w" "{403}"
  by unfold_locales (simp_all add: RequireRole_def)

section \<open>Authentication\<close>

text \<open>
  A provider whose state is part of the server's, and which leaves the response alone. Behind it the
  middleware refuses with 401, or hands over to the next handler, which then runs with a principal
  that has a subject.
\<close>

locale web_provider = provider authenticate env_ok invar
  for authenticate :: "'e \<Rightarrow> request \<Rightarrow> 'a web_scheme \<Rightarrow> ((auth_error + principal) \<times> 'a web_scheme) outcome"
    and env_ok :: "'e \<Rightarrow> bool" and invar :: "'a web_scheme \<Rightarrow> bool" +
  assumes auth_quiet: "env_ok E \<Longrightarrow> invar s \<Longrightarrow> authenticate E r s = Return (a, s') \<Longrightarrow>
    wrote s' = wrote s \<and> chunks s' = chunks s \<and> hdr s' = hdr s \<and> recorders s' = recorders s \<and> logs s' = logs s"
begin

lemma middleware_cases:
  assumes env: "env_ok E" and inv: "invar w"
  obtains (refused) e w' where "Middleware (authenticate E) nxt r w = Done r (auth_refusal e r w')" "invar w'"
      "wrote w' = wrote w" "chunks w' = chunks w" "hdr w' = hdr w" "recorders w' = recorders w" "logs w' = logs w"
      "authenticate E r w = Return (Inl e, w')"
  | (passed) p w' where "Middleware (authenticate E) nxt r w = serve_with_ctx nxt (WithPrincipal (Ctx r) p) r w'"
      "invar w'" "Subject p \<noteq> ''''" "wrote w' = wrote w" "chunks w' = chunks w" "hdr w' = hdr w"
      "recorders w' = recorders w" "logs w' = logs w" "authenticate E r w = Return (Inr p, w')"
proof (rule auth_cases [OF env inv, of r])
  fix e w' assume a: "authenticate E r w = Return (Inl e, w')" "invar w'"
  then show thesis using auth_quiet [OF env inv a(1)] by (intro refused [of e w']) (auto simp: Middleware_def)
next
  fix p w' assume a: "authenticate E r w = Return (Inr p, w')" "invar w'" "Subject p \<noteq> ''''"
  then show thesis using auth_quiet [OF env inv a(1)] by (intro passed [of p w']) (auto simp: Middleware_def)
qed

lemma refused_status:
  assumes "env_ok E" and "invar w" and "wrote w = None" and "authenticate E r w = Return (Inl e, w')"
  shows "status_of (run_state (Middleware (authenticate E) nxt r w)) = 401"
    and "Middleware (authenticate E) nxt r w = Middleware (authenticate E) nxt' r w"
  using assms auth_quiet [OF assms(1,2,4)]
  by (auto simp: Middleware_def auth_refusal_def status_of_def split: option.splits)

end

end
