(* ===== verification/RateLimiter.thy ===== *)
theory RateLimiter
  imports GoPrelude
begin

text \<open>
  The token-bucket limiter of internal/api/ratelimit.go: one bucket per authenticated
  subject in a map bounded by \<open>rateLimitMaxBuckets\<close>, refilled on use, swept once a minute.
  The clock is an argument (\<open>now\<close>), and so is the order in which the runtime ranges over
  the map. The mutex makes \<open>allow\<close> atomic, so a history of the limiter is a list of calls.
  The second half holds the invariant, the exact effect of a call, the token-bucket
  contract as a locale with the limiter as its instance, and what follows for histories.
\<close>

section \<open>State and operations\<close>

definition rateLimitRate :: duration where "rateLimitRate = quot64 second 2"

definition rateLimitBurst :: int where "rateLimitBurst = 10"

definition rateLimitMaxBuckets :: nat where "rateLimitMaxBuckets = 10000"

definition rateLimitBucketTTL :: duration where "rateLimitBucketTTL = hour"

definition rateLimitCleanupInterval :: duration where "rateLimitCleanupInterval = minute"

record bucket =
  tokens :: int
  last_use :: gotime

record rateLimiter =
  buckets :: "(string, bucket) gomap"
  rate :: duration
  burst :: int
  lastCleanup :: gotime

definition newRateLimiter :: "duration \<Rightarrow> int \<Rightarrow> rateLimiter" where
  "newRateLimiter r b = \<lparr>buckets = [], rate = r, burst = b, lastCleanup = zero_time\<rparr>"

fun cleanup_loop ::
  "gotime \<Rightarrow> (string \<times> bucket) list \<Rightarrow> (string, bucket) gomap \<Rightarrow> (string, bucket) gomap" where
  "cleanup_loop now [] m = m"
| "cleanup_loop now ((k, b) # kbs) m =
     cleanup_loop now kbs
       (if rateLimitBucketTTL \<le> time_sub now (last_use b) then AList.delete k m else m)"

definition cleanupLocked ::
  "(string, bucket) range_fn \<Rightarrow> gotime \<Rightarrow> rateLimiter \<Rightarrow> rateLimiter" where
  "cleanupLocked ord now rl =
     rl\<lparr>buckets := cleanup_loop now (ord (buckets rl)) (buckets rl)\<rparr>"

fun oldest_loop :: "(string \<times> bucket) list \<Rightarrow> string \<times> gotime \<Rightarrow> string \<times> gotime" where
  "oldest_loop [] acc = acc"
| "oldest_loop ((k, b) # kbs) (oldestKey, oldest) =
     oldest_loop kbs
       (if time_is_zero oldest \<or> time_before (last_use b) oldest
        then (k, last_use b) else (oldestKey, oldest))"

definition evictOldestLocked ::
  "(string, bucket) range_fn \<Rightarrow> rateLimiter \<Rightarrow> rateLimiter" where
  "evictOldestLocked ord rl =
     (let (oldestKey, _) = oldest_loop (ord (buckets rl)) ('''', zero_time) in
      if oldestKey \<noteq> '''' then rl\<lparr>buckets := AList.delete oldestKey (buckets rl)\<rparr> else rl)"

text \<open>
  \<open>allow\<close> in three steps: the periodic sweep, the lookup that creates a missing bucket
  (evicting at the cap), the refill and the take. The division panics on a zero rate.
\<close>

definition sweep :: "(string, bucket) range_fn \<Rightarrow> gotime \<Rightarrow> rateLimiter \<Rightarrow> rateLimiter" where
  "sweep ord now rl =
     (if rateLimitCleanupInterval \<le> time_sub now (lastCleanup rl)
      then (cleanupLocked ord now rl)\<lparr>lastCleanup := now\<rparr> else rl)"

definition bucket_for ::
  "(string, bucket) range_fn \<Rightarrow> string \<Rightarrow> rateLimiter \<Rightarrow> bucket \<times> rateLimiter" where
  "bucket_for ord subject rl =
     (case map_of (buckets rl) subject of
        Some b \<Rightarrow> (b, rl)
      | None \<Rightarrow>
          (let rl' = (if rateLimitMaxBuckets \<le> length (buckets rl)
                      then evictOldestLocked ord rl else rl);
               b = \<lparr>tokens = burst rl', last_use = zero_time\<rparr>
           in (b, rl'\<lparr>buckets := AList.update subject b (buckets rl')\<rparr>)))"

definition refill :: "gotime \<Rightarrow> duration \<Rightarrow> int \<Rightarrow> bucket \<Rightarrow> int" where
  "refill now r bst b =
     (let t = add64 (tokens b) (quot64 (time_sub now (last_use b)) r)
      in if bst < t then bst else t)"

definition allow ::
  "(string, bucket) range_fn \<Rightarrow> gotime \<Rightarrow> string \<Rightarrow> rateLimiter \<Rightarrow> (bool \<times> rateLimiter) outcome"
where
  "allow ord now subject rl =
     (let (b, rl') = bucket_for ord subject (sweep ord now rl) in
      if rate rl' = 0 then Panic ''runtime error: integer divide by zero''
      else
        let t = refill now (rate rl') (burst rl') b;
            ok = (0 < t);
            b' = \<lparr>tokens = (if ok then t - 1 else t), last_use = now\<rparr>
        in Return (ok, rl'\<lparr>buckets := AList.update subject b' (buckets rl')\<rparr>))"

text \<open>A history: calls in the order in which they take the mutex.\<close>

record call =
  c_time :: gotime
  c_subject :: string
  c_order :: "(string, bucket) range_fn"

definition call_step :: "call \<Rightarrow> rateLimiter \<Rightarrow> (bool \<times> rateLimiter) outcome" where
  "call_step c rl = allow (c_order c) (c_time c) (c_subject c) rl"

fun run_steps ::
  "('c \<Rightarrow> 's \<Rightarrow> (bool \<times> 's) outcome) \<Rightarrow> 'c list \<Rightarrow> 's \<Rightarrow> (bool list \<times> 's) outcome" where
  "run_steps step [] s = Return ([], s)"
| "run_steps step (c # cs) s =
     bind_outcome (step c s) (\<lambda>(ok, s').
       map_outcome (\<lambda>(oks, s''). (ok # oks, s'')) (run_steps step cs s'))"

text \<open>How many calls of one subject were allowed.\<close>

fun count_ok :: "('c \<Rightarrow> 'k) \<Rightarrow> 'k \<Rightarrow> 'c list \<Rightarrow> bool list \<Rightarrow> int" where
  "count_ok subj k (c # cs) (ok # oks) =
     (if ok \<and> subj c = k then 1 else 0) + count_ok subj k cs oks"
| "count_ok subj k _ _ = 0"

lemma run_steps_append:
  "run_steps step (xs @ ys) s = Return (oks, s') \<longleftrightarrow>
     (\<exists>oks1 s1 oks2. run_steps step xs s = Return (oks1, s1)
        \<and> run_steps step ys s1 = Return (oks2, s') \<and> oks = oks1 @ oks2)"
  by (induction xs arbitrary: s oks)
    (fastforce simp: bind_outcome_Return map_outcome_Return)+

lemma run_steps_length: "run_steps step cs s = Return (oks, s') \<Longrightarrow> length oks = length cs"
  by (induction cs arbitrary: s oks) (auto simp: bind_outcome_Return map_outcome_Return)

section \<open>The loops compute what they are for\<close>

lemma cleanup_loop_filter:
  assumes "distinct (map fst kbs)"
  shows "cleanup_loop now kbs m =
    filter (\<lambda>(k, b). \<not> (\<exists>b'. (k, b') \<in> set kbs \<and> rateLimitBucketTTL \<le> time_sub now (last_use b'))) m"
  using assms
proof (induction kbs arbitrary: m)
  case Nil
  then show ?case by simp
next
  case (Cons kb kbs)
  obtain k b where kb: "kb = (k, b)" by (cases kb)
  with Cons.prems have "\<And>b'. (k, b') \<notin> set kbs" by force
  then show ?case
    using Cons kb by (auto simp: AList.delete_eq intro!: filter_cong)
qed

text \<open>The sweep keeps exactly the buckets used within the TTL, whatever the order.\<close>

lemma cleanupLocked_buckets:
  assumes "range_order ord" "gomap_ok (buckets rl)"
  shows "buckets (cleanupLocked ord now rl) =
    filter (\<lambda>(k, b). time_sub now (last_use b) < rateLimitBucketTTL) (buckets rl)"
proof -
  have "filter (\<lambda>(k, b). \<not> (\<exists>b'. (k, b') \<in> set (buckets rl)
          \<and> rateLimitBucketTTL \<le> time_sub now (last_use b'))) (buckets rl) =
        filter (\<lambda>(k, b). time_sub now (last_use b) < rateLimitBucketTTL) (buckets rl)"
    using assms(2) by (intro filter_cong) (auto simp: not_le dest: gomap_unique)
  then show ?thesis
    using assms by (simp add: cleanupLocked_def cleanup_loop_filter range_order_ok)
qed

text \<open>
  The scan for the least recently used bucket: with no zero timestamp it returns a key
  whose timestamp is minimal.
\<close>

lemma oldest_loop_min:
  assumes "\<forall>(k, b) \<in> set kbs. 0 < last_use b"
    and "oldest_loop kbs (k0, t0) = (k', t')"
    and "0 < t0"
  shows "0 < t' \<and> t' \<le> t0 \<and> (\<forall>(k, b) \<in> set kbs. t' \<le> last_use b)
    \<and> ((k', t') = (k0, t0) \<or> (\<exists>b. (k', b) \<in> set kbs \<and> last_use b = t'))"
  using assms
proof (induction kbs arbitrary: k0 t0)
  case Nil
  then show ?case by simp
next
  case (Cons kb kbs)
  obtain k b where kb: "kb = (k, b)" by (cases kb)
  let ?acc = "if last_use b < t0 then (k, last_use b) else (k0, t0)"
  have step: "oldest_loop kbs ?acc = (k', t')"
    using Cons.prems kb by (simp add: time_is_zero_def zero_time_def time_before_def split: if_splits)
  show ?case
  proof (cases "last_use b < t0")
    case True
    with Cons.IH [of k "last_use b"] Cons.prems step kb show ?thesis by force
  next
    case False
    with Cons.IH [of k0 t0] Cons.prems step kb show ?thesis by force
  qed
qed

lemma oldest_loop_lru:
  assumes pos: "\<forall>(k, b) \<in> set kbs. 0 < last_use b" and ne: "kbs \<noteq> []"
    and res: "oldest_loop kbs ('''', zero_time) = (k', t')"
  shows "\<exists>b. (k', b) \<in> set kbs \<and> last_use b = t' \<and> (\<forall>(k, c) \<in> set kbs. t' \<le> last_use c)"
proof -
  obtain k b rest where kbs: "kbs = (k, b) # rest"
    using ne by (metis neq_Nil_conv old.prod.exhaust)
  have "oldest_loop rest (k, last_use b) = (k', t')"
    using res kbs by (simp add: time_is_zero_def)
  from oldest_loop_min [OF _ this] pos kbs show ?thesis by fastforce
qed

lemma evict_deletes_lru:
  assumes "range_order ord" and "gomap_ok (buckets rl)" and "buckets rl \<noteq> []"
    and "\<forall>(k, b) \<in> set (buckets rl). k \<noteq> '''' \<and> 0 < last_use b"
  obtains k b where "(k, b) \<in> set (buckets rl)"
    and "\<forall>(k', b') \<in> set (buckets rl). last_use b \<le> last_use b'"
    and "evictOldestLocked ord rl = rl\<lparr>buckets := AList.delete k (buckets rl)\<rparr>"
proof -
  obtain k t where kt: "oldest_loop (ord (buckets rl)) ('''', zero_time) = (k, t)"
    by (cases "oldest_loop (ord (buckets rl)) ('''', zero_time)")
  have "ord (buckets rl) \<noteq> []"
    using assms(1,3) by (metis range_order_set set_empty)
  with oldest_loop_lru [OF _ _ kt] assms obtain b where
    b: "(k, b) \<in> set (buckets rl)" "\<forall>(k', b') \<in> set (buckets rl). last_use b \<le> last_use b'"
    by (force simp: range_order_set)
  moreover have "evictOldestLocked ord rl = rl\<lparr>buckets := AList.delete k (buckets rl)\<rparr>"
    using b(1) assms(4) kt by (auto simp: evictOldestLocked_def)
  ultimately show thesis by (rule that)
qed

section \<open>Invariant\<close>

definition rl_ok :: "gotime \<Rightarrow> rateLimiter \<Rightarrow> bool" where
  "rl_ok now rl \<longleftrightarrow>
     gomap_ok (buckets rl) \<and> length (buckets rl) \<le> rateLimitMaxBuckets \<and>
     2 \<le> rate rl \<and> 0 \<le> burst rl \<and> burst rl * rate rl \<le> rateLimitBucketTTL \<and>
     (\<forall>(k, b) \<in> set (buckets rl).
        k \<noteq> '''' \<and> 0 \<le> tokens b \<and> tokens b \<le> burst rl \<and> 0 < last_use b \<and> last_use b \<le> now)"

text \<open>The tokens a subject would find at time \<open>now\<close>: a missing bucket counts as a full one.\<close>

definition virtual_tokens :: "gotime \<Rightarrow> rateLimiter \<Rightarrow> string \<Rightarrow> int" where
  "virtual_tokens now rl s =
     (case map_of (buckets rl) s of
        None \<Rightarrow> burst rl
      | Some b \<Rightarrow> min (burst rl) (tokens b + (now - last_use b) div rate rl))"

lemmas limiter_consts = rateLimitRate_def rateLimitBurst_def rateLimitMaxBuckets_def
  rateLimitBucketTTL_def rateLimitCleanupInterval_def

lemma rl_ok_new:
  "2 \<le> r \<Longrightarrow> 0 \<le> b \<Longrightarrow> b * r \<le> rateLimitBucketTTL \<Longrightarrow> rl_ok now (newRateLimiter r b)"
  by (simp add: rl_ok_def newRateLimiter_def)

lemma newRateLimiter_buckets [simp]: "buckets (newRateLimiter r b) = []"
  by (simp add: newRateLimiter_def)

lemma rl_ok_mono: "rl_ok t rl \<Longrightarrow> t \<le> t' \<Longrightarrow> rl_ok t' rl"
  by (fastforce simp: rl_ok_def)

lemma rl_ok_lookup:
  assumes "rl_ok t rl" and "map_of (buckets rl) s = Some b"
  shows "s \<noteq> ''''" "0 \<le> tokens b" "tokens b \<le> burst rl" "0 < last_use b" "last_use b \<le> t"
  using assms map_of_SomeD [OF assms(2)] by (auto simp: rl_ok_def)

lemma rl_ok_burst: "rl_ok t rl \<Longrightarrow> burst rl \<le> rateLimitBucketTTL"
  using mult_left_mono [of 1 "rate rl" "burst rl"] by (simp add: rl_ok_def)

lemma rl_okD:
  assumes "rl_ok t rl"
  shows "gomap_ok (buckets rl)" "length (buckets rl) \<le> rateLimitMaxBuckets"
    "2 \<le> rate rl" "0 \<le> burst rl" "burst rl * rate rl \<le> rateLimitBucketTTL"
  using assms by (auto simp: rl_ok_def)

text \<open>An idle time of at least \<open>burst * rate\<close> refills a bucket, saturated or not.\<close>

lemma full_refill:
  assumes "0 \<le> b" "0 < r" "b * r \<le> d" shows "b \<le> d div (r::int)"
  using assms zdiv_mono1 [of "b * r" d r] by simp

lemma capped_refill:
  assumes "0 \<le> tk" "0 \<le> bst" "0 < r" "bst * r \<le> m" "0 \<le> m"
  shows "min bst (tk + min g m div r) = min bst (tk + g div (r::int))"
proof (cases "g \<le> m")
  case False
  then have "bst \<le> m div r" "bst \<le> g div r"
    using assms full_refill [of bst r] by auto
  with assms(1) False show ?thesis by simp
qed (use assms in simp)

lemma time_sub_min: "u \<le> t \<Longrightarrow> time_sub t u = min (t - u) max_int64"
  by (auto simp: time_sub_def Let_def int64_defs)

lemma refill_tokens:
  assumes r: "2 \<le> r" and bst: "0 \<le> bst" "bst * r \<le> rateLimitBucketTTL"
    and tk: "0 \<le> tokens b" "tokens b \<le> bst" and le: "last_use b \<le> now"
  shows "refill now r bst b = min bst (tokens b + (now - last_use b) div r)"
proof -
  let ?e = "time_sub now (last_use b)"
  have e: "0 \<le> ?e" "?e \<le> max_int64"
    using le time_sub_nonneg [OF le] time_sub_in [of now "last_use b"] by (auto simp: in_int64_def)
  then have q: "0 \<le> ?e div r" "?e div r \<le> max_int64 div 2"
    using r zdiv_mono1 [of ?e max_int64 r] zdiv_mono2 [of max_int64 2 r]
    by (auto simp: pos_imp_zdiv_nonneg_iff max_int64_def)
  have "bst \<le> rateLimitBucketTTL"
    using bst r mult_left_mono [of 1 r bst] by simp
  with q tk have "in_int64 (tokens b + ?e div r)"
    by (simp add: int64_defs limiter_consts duration_defs)
  moreover have "quot64 ?e r = ?e div r"
    using e r by (simp add: quot64_nonneg)
  ultimately have "refill now r bst b = min bst (tokens b + ?e div r)"
    by (auto simp: refill_def add64_exact Let_def)
  also have "\<dots> = min bst (tokens b + (now - last_use b) div r)"
    unfolding time_sub_min [OF le] using assms
    by (intro capped_refill) (auto simp: max_int64_def limiter_consts duration_defs)
  finally show ?thesis .
qed

section \<open>The effect of one call\<close>

lemma sweep_fields [simp]:
  "rate (sweep ord now rl) = rate rl" "burst (sweep ord now rl) = burst rl"
  by (simp_all add: sweep_def cleanupLocked_def)

lemma sweep_buckets:
  assumes "range_order ord" and "rl_ok t rl"
  shows "buckets (sweep ord now rl) =
    (if rateLimitCleanupInterval \<le> time_sub now (lastCleanup rl)
     then filter (\<lambda>(k, b). time_sub now (last_use b) < rateLimitBucketTTL) (buckets rl)
     else buckets rl)"
  using assms by (simp add: sweep_def cleanupLocked_buckets rl_okD)

lemma sweep_subset: "range_order ord \<Longrightarrow> rl_ok t rl \<Longrightarrow> set (buckets (sweep ord now rl)) \<subseteq> set (buckets rl)"
  by (auto simp: sweep_buckets)

lemma sweep_ok:
  assumes "range_order ord" and "rl_ok t rl" shows "rl_ok t (sweep ord now rl)"
proof -
  have "length (buckets (sweep ord now rl)) \<le> length (buckets rl)"
    using assms by (simp add: sweep_buckets)
  moreover have "gomap_ok (buckets (sweep ord now rl))"
    using assms by (auto simp: sweep_buckets rl_okD)
  ultimately show ?thesis
    using assms(2) sweep_subset [OF assms, of now] by (auto simp: rl_ok_def)
qed

text \<open>The sweep is invisible: a bucket old enough to go is one that is full again.\<close>

lemma sweep_virtual_tokens:
  assumes ord: "range_order ord" and ok: "rl_ok t rl"
  shows "virtual_tokens now (sweep ord now rl) s = virtual_tokens now rl s"
proof (cases "map_of (buckets rl) s")
  case None
  with assms show ?thesis
    by (auto simp: virtual_tokens_def sweep_buckets map_of_filter_gomap rl_okD)
next
  case (Some b)
  have "burst rl \<le> (now - last_use b) div rate rl"
    if "\<not> time_sub now (last_use b) < rateLimitBucketTTL"
  proof (rule full_refill)
    have "rateLimitBucketTTL \<le> now - last_use b"
      using that by (simp add: not_less time_sub_ge_iff int64_defs limiter_consts duration_defs)
    then show "burst rl * rate rl \<le> now - last_use b"
      using rl_okD [OF ok] by simp
  qed (use rl_okD [OF ok] in auto)
  with assms Some rl_ok_lookup [OF ok Some] show ?thesis
    by (auto simp: virtual_tokens_def sweep_buckets map_of_filter_gomap rl_okD)
qed

lemma evict_fields [simp]:
  "rate (evictOldestLocked ord rl) = rate rl" "burst (evictOldestLocked ord rl) = burst rl"
  by (simp_all add: evictOldestLocked_def split: prod.splits)

lemma evict_subset: "set (buckets (evictOldestLocked ord rl)) \<subseteq> set (buckets rl)"
  by (auto simp: evictOldestLocked_def AList.delete_eq split: prod.splits)

text \<open>At the cap an eviction makes room.\<close>

lemma evict_length:
  assumes "range_order ord" and "rl_ok t rl" and "buckets rl \<noteq> []"
  shows "length (buckets (evictOldestLocked ord rl)) < length (buckets rl)"
proof -
  from assms(2) have "\<forall>(k, b) \<in> set (buckets rl). k \<noteq> '''' \<and> 0 < last_use b"
    by (auto simp: rl_ok_def)
  then show ?thesis
    using assms by (elim evict_deletes_lru [of ord rl]) (auto simp: rl_okD length_delete_less rev_image_eqI)
qed

lemma evict_ok:
  assumes "rl_ok t rl" shows "rl_ok t (evictOldestLocked ord rl)"
proof -
  have "gomap_ok (buckets (evictOldestLocked ord rl))"
    "length (buckets (evictOldestLocked ord rl)) \<le> length (buckets rl)"
    using assms by (auto simp: evictOldestLocked_def rl_okD length_delete_le split: prod.splits)
  then show ?thesis
    using assms evict_subset [of ord rl] by (auto simp: rl_ok_def)
qed

text \<open>
  \<open>room\<close> is the map a call finds before it stores its own bucket: swept, and with a bucket
  evicted when the subject is new and the map is at the cap.
\<close>

definition room :: "(string, bucket) range_fn \<Rightarrow> gotime \<Rightarrow> string \<Rightarrow> rateLimiter \<Rightarrow> rateLimiter" where
  "room ord now s rl =
     (let rl1 = sweep ord now rl in
      if map_of (buckets rl1) s = None \<and> rateLimitMaxBuckets \<le> length (buckets rl1)
      then evictOldestLocked ord rl1 else rl1)"

lemma room_fields [simp]: "rate (room ord now s rl) = rate rl" "burst (room ord now s rl) = burst rl"
  by (simp_all add: room_def Let_def)

lemma room_ok: "range_order ord \<Longrightarrow> rl_ok t rl \<Longrightarrow> rl_ok t (room ord now s rl)"
  by (simp add: room_def Let_def sweep_ok evict_ok)

lemma map_of_evict_None: "map_of (buckets rl) s = None \<Longrightarrow> map_of (buckets (evictOldestLocked ord rl)) s = None"
  using image_mono [OF evict_subset, of fst ord rl] by (auto simp: map_of_eq_None_iff)

lemma virtual_tokens_room:
  assumes "range_order ord" and "rl_ok t rl"
  shows "virtual_tokens now (room ord now s rl) s = virtual_tokens now rl s"
  using sweep_virtual_tokens [OF assms, of now s]
  by (auto simp: room_def Let_def virtual_tokens_def map_of_evict_None)

lemma room_space:
  assumes "range_order ord" and "rl_ok t rl" and "map_of (buckets (room ord now s rl)) s = None"
  shows "length (buckets (room ord now s rl)) < rateLimitMaxBuckets"
proof (cases "rateLimitMaxBuckets \<le> length (buckets (sweep ord now rl))")
  case True
  then have "buckets (sweep ord now rl) \<noteq> []"
    by (auto simp: rateLimitMaxBuckets_def)
  with evict_length [OF assms(1) sweep_ok [OF assms(1,2)], of now] True assms
    rl_okD(2) [OF sweep_ok [OF assms(1,2)], of now]
  show ?thesis by (auto simp: room_def Let_def split: if_splits)
qed (use assms in \<open>auto simp: room_def Let_def\<close>)

text \<open>One call, in one equation: the answer and the only bucket it writes.\<close>

lemma allow_eq:
  assumes ord: "range_order ord" and ok: "rl_ok t rl" and now: "t \<le> now" "0 < now"
  shows "allow ord now s rl =
    (let v = virtual_tokens now rl s; rl' = room ord now s rl in
     Return (0 < v, rl'\<lparr>buckets := AList.update s
       \<lparr>tokens = (if 0 < v then v - 1 else v), last_use = now\<rparr> (buckets rl')\<rparr>))"
proof -
  let ?rl = "room ord now s rl"
  note room = room_ok [OF ord ok, of now s]
  have rate: "rate rl \<noteq> 0" using rl_okD(3) [OF ok] by simp
  have v: "virtual_tokens now rl s = virtual_tokens now ?rl s"
    using virtual_tokens_room [OF ord ok] by simp
  show ?thesis
  proof (cases "map_of (buckets (sweep ord now rl)) s")
    case None
    then have bf: "bucket_for ord s (sweep ord now rl) =
        (\<lparr>tokens = burst rl, last_use = zero_time\<rparr>,
         ?rl\<lparr>buckets := AList.update s \<lparr>tokens = burst rl, last_use = zero_time\<rparr> (buckets ?rl)\<rparr>)"
      by (simp add: bucket_for_def room_def Let_def)
    have "map_of (buckets ?rl) s = None"
      using None by (simp add: room_def Let_def map_of_evict_None)
    then have "virtual_tokens now ?rl s = burst rl"
      by (simp add: virtual_tokens_def)
    moreover have "refill now (rate rl) (burst rl) \<lparr>tokens = burst rl, last_use = zero_time\<rparr> = burst rl"
      using rl_okD [OF ok] now by (simp add: refill_tokens zero_time_def pos_imp_zdiv_nonneg_iff min_def)
    ultimately show ?thesis
      by (simp add: allow_def bf rate v Let_def)
  next
    case (Some b)
    then have rl: "?rl = sweep ord now rl" by (simp add: room_def Let_def)
    from Some have bf: "bucket_for ord s (sweep ord now rl) = (b, ?rl)"
      by (simp add: bucket_for_def rl)
    have "refill now (rate rl) (burst rl) b = virtual_tokens now ?rl s"
      using Some rl_ok_lookup [OF room, of s b] rl_okD [OF ok] now
      by (simp add: refill_tokens virtual_tokens_def rl)
    then show ?thesis
      by (simp add: allow_def bf rate v Let_def)
  qed
qed

lemma virtual_tokens_range:
  assumes ok: "rl_ok t rl" and now: "t \<le> now"
  shows "0 \<le> virtual_tokens now rl s" "virtual_tokens now rl s \<le> burst rl"
proof -
  have "0 \<le> tokens b + (now - last_use b) div rate rl" if "map_of (buckets rl) s = Some b" for b
    using rl_ok_lookup [OF ok that] rl_okD(3) [OF ok] now
    by (intro add_nonneg_nonneg) (auto simp: pos_imp_zdiv_nonneg_iff)
  then show "0 \<le> virtual_tokens now rl s" "virtual_tokens now rl s \<le> burst rl"
    using rl_okD(4) [OF ok] by (auto simp: virtual_tokens_def split: option.splits)
qed

lemma allow_ok:
  assumes ord: "range_order ord" and ok: "rl_ok t rl" and now: "t \<le> now" "0 < now"
    and s: "s \<noteq> ''''"
  obtains ans rl' where "allow ord now s rl = Return (ans, rl')" "rl_ok now rl'"
    "rate rl' = rate rl" "burst rl' = burst rl"
proof -
  let ?rl = "room ord now s rl" and ?v = "virtual_tokens now rl s"
  let ?b = "\<lparr>tokens = (if 0 < ?v then ?v - 1 else ?v), last_use = now\<rparr>"
  have room: "rl_ok now ?rl"
    by (rule rl_ok_mono [OF room_ok [OF ord ok] now(1)])
  note v = virtual_tokens_range [OF ok now(1), of s]
  have "length (AList.update s ?b (buckets ?rl)) \<le> rateLimitMaxBuckets"
    using room_space [OF ord ok, of now s] rl_okD(2) [OF room]
    by (cases "map_of (buckets ?rl) s") (auto simp: length_update_new length_update_old)
  moreover have "(k, b) \<in> set (AList.update s ?b (buckets ?rl)) \<Longrightarrow> (k, b) = (s, ?b) \<or> (k, b) \<in> set (buckets ?rl)" for k b
    using rl_okD(1) [OF room] by (auto simp flip: gomap_lookup_iff simp: update_conv' split: if_splits)
  ultimately have ok': "rl_ok now (?rl\<lparr>buckets := AList.update s ?b (buckets ?rl)\<rparr>)"
    using room v s now unfolding rl_ok_def by (fastforce split: if_splits)
  show thesis
    by (rule that [OF _ ok', of "0 < ?v"]) (simp_all add: allow_eq [OF ord ok now] Let_def)
qed

text \<open>Calls write only their own bucket; below the cap nothing else disappears either.\<close>

lemma allow_frame:
  assumes ord: "range_order ord" and ok: "rl_ok t rl" and now: "t \<le> now" "0 < now"
    and space: "length (buckets rl) < rateLimitMaxBuckets \<or> map_of (buckets (sweep ord now rl)) s \<noteq> None"
    and res: "allow ord now s rl = Return (ans, rl')" and ne: "s' \<noteq> s"
  shows "map_of (buckets rl') s' = map_of (buckets (sweep ord now rl)) s'"
proof -
  have "length (buckets (sweep ord now rl)) \<le> length (buckets rl)"
    by (simp add: sweep_buckets [OF ord ok])
  with space have "room ord now s rl = sweep ord now rl"
    by (auto simp: room_def Let_def)
  then show ?thesis
    using res ne allow_eq [OF ord ok now, of s] by (auto simp: Let_def update_conv')
qed

section \<open>The contract of a token bucket\<close>

text \<open>
  What a rate limiter promises its caller: every call in time order returns and keeps the
  invariant; each subject has a credit that grows no faster than time passes, never drops
  below zero and pays \<open>cost\<close> for each allowed call. The bound on what a history can let
  through is proved from this alone.
\<close>

locale token_bucket =
  fixes step :: "'c \<Rightarrow> 's \<Rightarrow> (bool \<times> 's) outcome"
    and time_of :: "'c \<Rightarrow> int"
    and subj_of :: "'c \<Rightarrow> 'k"
    and ok_call :: "'c \<Rightarrow> bool"
    and invar :: "int \<Rightarrow> 's \<Rightarrow> bool"
    and credit :: "int \<Rightarrow> 's \<Rightarrow> 'k \<Rightarrow> int"
    and cost cap :: int
  assumes step_returns: "invar t s \<Longrightarrow> ok_call c \<Longrightarrow> t \<le> time_of c \<Longrightarrow>
      \<exists>ok s'. step c s = Return (ok, s') \<and> invar (time_of c) s'"
    and credit_nonneg: "invar t s \<Longrightarrow> t \<le> u \<Longrightarrow> 0 \<le> credit u s k"
    and credit_cap: "invar t s \<Longrightarrow> credit u s k \<le> cap"
    and credit_drift: "invar t s \<Longrightarrow> t \<le> u \<Longrightarrow> u \<le> u' \<Longrightarrow> credit u' s k \<le> credit u s k + (u' - u)"
    and credit_step: "invar t s \<Longrightarrow> ok_call c \<Longrightarrow> t \<le> time_of c \<Longrightarrow> step c s = Return (ok, s') \<Longrightarrow>
      credit (time_of c) s' k \<le> credit (time_of c) s k - (if ok \<and> subj_of c = k then cost else 0)"
begin

lemma run_returns:
  assumes "invar t s" and "sorted (t # map time_of cs)" and "\<forall>c \<in> set cs. ok_call c"
  shows "\<exists>oks s'. run_steps step cs s = Return (oks, s') \<and> length oks = length cs
    \<and> invar (last (t # map time_of cs)) s'"
  using assms
proof (induction cs arbitrary: t s)
  case Nil
  then show ?case by simp
next
  case (Cons c cs)
  from Cons.prems have "ok_call c" "t \<le> time_of c" by auto
  then obtain ok s' where s': "step c s = Return (ok, s')" "invar (time_of c) s'"
    using step_returns [OF Cons.prems(1)] by blast
  moreover from Cons.prems have "sorted (time_of c # map time_of cs)" "\<forall>c \<in> set cs. ok_call c"
    by auto
  ultimately obtain oks s'' where "run_steps step cs s' = Return (oks, s'')"
    "length oks = length cs" "invar (last (time_of c # map time_of cs)) s''"
    using Cons.IH by blast
  with s'(1) show ?case by simp
qed

lemma run_bound:
  assumes "invar t s" and "t \<le> u" and "sorted (u # map time_of cs)"
    and "\<forall>c \<in> set cs. ok_call c \<and> time_of c \<le> T" and "u \<le> T"
    and "run_steps step cs s = Return (oks, s')"
  shows "cost * count_ok subj_of k cs oks \<le> credit u s k + (T - u)"
  using assms
proof (induction cs arbitrary: t s u oks)
  case Nil
  then show ?case using credit_nonneg [of t s u k] by simp
next
  case (Cons c cs)
  let ?v = "time_of c"
  from Cons.prems have tv: "t \<le> ?v" "u \<le> ?v" "ok_call c" "?v \<le> T" by auto
  obtain ok s1 where s1: "step c s = Return (ok, s1)" "invar ?v s1"
    using Cons.prems(1) tv step_returns by blast
  then obtain oks' where oks: "run_steps step cs s1 = Return (oks', s')" "oks = ok # oks'"
    using Cons.prems(6) by (cases "run_steps step cs s1") auto
  have "cost * count_ok subj_of k cs oks' \<le> credit ?v s1 k + (T - ?v)"
    using Cons.IH [OF s1(2) order_refl _ _ tv(4) oks(1)] Cons.prems by simp
  moreover have "credit ?v s1 k \<le> credit ?v s k - (if ok \<and> subj_of c = k then cost else 0)"
    using credit_step Cons.prems(1) tv s1(1) by blast
  moreover have "credit ?v s k \<le> credit u s k + (?v - u)"
    using credit_drift Cons.prems(1,2) tv(2) by blast
  ultimately show ?case
    using oks(2) by (auto simp: distrib_left)
qed

text \<open>The bound holds for every window of a history, wherever it starts.\<close>

lemma run_window:
  assumes inv: "invar t s" and srt: "sorted (t # map time_of (pre @ win @ post))"
    and ok: "\<forall>c \<in> set (pre @ win @ post). ok_call c" and ne: "win \<noteq> []"
    and run: "run_steps step (pre @ win @ post) s = Return (oks, s')"
  shows "cost * count_ok subj_of k win (take (length win) (drop (length pre) oks))
    \<le> cap + (time_of (last win) - time_of (hd win))"
proof -
  obtain oks1 s1 where pre: "run_steps step pre s = Return (oks1, s1)" "length oks1 = length pre"
    "invar (last (t # map time_of pre)) s1"
    using run_returns [OF inv, of pre] srt ok by (auto simp: sorted_append)
  let ?t1 = "last (t # map time_of pre)"
  have srt1: "sorted (?t1 # map time_of win)" and srt2: "sorted (map time_of win)"
    using srt by (auto simp: sorted_append last_map)
  obtain oks2 s2 where win: "run_steps step win s1 = Return (oks2, s2)" "length oks2 = length win"
    using run_returns [OF pre(3) srt1] ok by auto
  have "take (length win) (drop (length pre) oks) = oks2"
    using run pre(1,2) win by (auto simp: run_steps_append)
  moreover have "cost * count_ok subj_of k win oks2
      \<le> credit (time_of (hd win)) s1 k + (time_of (last win) - time_of (hd win))"
  proof (rule run_bound [OF pre(3) _ _ _ _ win(1)])
    show "?t1 \<le> time_of (hd win)" "sorted (time_of (hd win) # map time_of win)"
      using ne srt1 srt2 by (cases win; force)+
    show "\<forall>c \<in> set win. ok_call c \<and> time_of c \<le> time_of (last win)"
      using ok srt2 ne by (auto simp: sorted_iff_nth_mono in_set_conv_nth last_conv_nth)
    then show "time_of (hd win) \<le> time_of (last win)"
      using ne by simp
  qed
  ultimately show ?thesis
    using credit_cap [OF pre(3), of "time_of (hd win)" k] by simp
qed

end

section \<open>The limiter is a token bucket\<close>

definition token_credit :: "gotime \<Rightarrow> rateLimiter \<Rightarrow> string \<Rightarrow> int" where
  "token_credit now rl s =
     (case map_of (buckets rl) s of
        None \<Rightarrow> burst rl * rate rl
      | Some b \<Rightarrow> min (burst rl * rate rl) (tokens b * rate rl + (now - last_use b)))"

text \<open>
  The calls of a history are of subjects of a set \<open>S\<close> that fits under the cap, so that no
  bucket is evicted (an evicted bucket comes back full).
\<close>

definition call_in :: "string set \<Rightarrow> call \<Rightarrow> bool" where
  "call_in S c \<longleftrightarrow> c_subject c \<in> S \<and> c_subject c \<noteq> '''' \<and> 0 < c_time c \<and> range_order (c_order c)"

definition limiter_inv ::
  "string set \<Rightarrow> duration \<Rightarrow> int \<Rightarrow> gotime \<Rightarrow> rateLimiter \<Rightarrow> bool" where
  "limiter_inv S r bst t rl \<longleftrightarrow> rl_ok t rl \<and> rate rl = r \<and> burst rl = bst \<and>
     fst ` set (buckets rl) \<subseteq> S \<and> finite S \<and> card S \<le> rateLimitMaxBuckets"

lemma token_credit_sweep:
  assumes "range_order ord" and ok: "rl_ok t rl"
  shows "token_credit now (sweep ord now rl) s = token_credit now rl s"
proof (cases "map_of (buckets rl) s")
  case None
  with assms show ?thesis
    by (auto simp: token_credit_def sweep_buckets map_of_filter_gomap rl_okD)
next
  case (Some b)
  have "burst rl * rate rl \<le> tokens b * rate rl + (now - last_use b)"
    if "\<not> time_sub now (last_use b) < rateLimitBucketTTL"
  proof -
    have "rateLimitBucketTTL \<le> now - last_use b"
      using that by (simp add: not_less time_sub_ge_iff int64_defs limiter_consts duration_defs)
    then show ?thesis
      using rl_okD [OF ok] rl_ok_lookup [OF ok Some] by (simp add: add_increasing)
  qed
  with assms Some show ?thesis
    by (auto simp: token_credit_def sweep_buckets map_of_filter_gomap rl_okD)
qed

lemma virtual_tokens_credit:
  assumes "rl_ok t rl"
  shows "virtual_tokens now rl s * rate rl \<le> token_credit now rl s"
proof -
  have r: "0 < rate rl" using rl_okD(3) [OF assms] by simp
  have "(now - last_use b) div rate rl * rate rl \<le> now - last_use b" for b
    using r by (simp add: minus_mod_eq_div_mult [symmetric])
  then show ?thesis
    using r by (auto simp: virtual_tokens_def token_credit_def min_mult_distrib_right
        min_le_iff_disj distrib_right split: option.splits)
qed

text \<open>Where every key fits in \<open>S\<close>, a call for a subject of \<open>S\<close> never evicts.\<close>

lemma no_eviction:
  assumes "range_order ord" and "limiter_inv S r bst t rl" and "s \<in> S"
  shows "room ord now s rl = sweep ord now rl"
proof -
  let ?m = "buckets (sweep ord now rl)"
  have ok: "rl_ok t rl" and S: "fst ` set (buckets rl) \<subseteq> S" "finite S" "card S \<le> rateLimitMaxBuckets"
    using assms(2) by (auto simp: limiter_inv_def)
  have m: "set (map fst ?m) \<subseteq> S" and d: "distinct (map fst ?m)"
    using sweep_subset [OF assms(1) ok, of now] S rl_okD(1) [OF sweep_ok [OF assms(1) ok], of now]
    by (auto simp: gomap_ok_def)
  have "length ?m < rateLimitMaxBuckets" if "map_of ?m s = None"
  proof -
    from that have "set (map fst ?m) \<subset> S"
      using m assms(3) by (auto simp: map_of_eq_None_iff)
    then have "card (set (map fst ?m)) < card S"
      using S(2) by (rule psubset_card_mono [rotated])
    then show ?thesis
      using distinct_card [OF d] S(3) by simp
  qed
  then show ?thesis by (auto simp: room_def Let_def)
qed

lemma call_step_eq:
  assumes inv: "limiter_inv S r bst t rl" and c: "call_in S c" and t: "t \<le> c_time c"
  shows "call_step c rl =
    (let v = virtual_tokens (c_time c) rl (c_subject c); rl' = sweep (c_order c) (c_time c) rl in
     Return (0 < v, rl'\<lparr>buckets := AList.update (c_subject c)
       \<lparr>tokens = (if 0 < v then v - 1 else v), last_use = c_time c\<rparr> (buckets rl')\<rparr>))"
  using assms allow_eq [of "c_order c" t rl "c_time c" "c_subject c"]
    no_eviction [OF _ inv, of "c_order c" "c_subject c"]
  by (simp add: call_step_def call_in_def limiter_inv_def Let_def)

lemma call_step_credit:
  assumes inv: "limiter_inv S r bst t rl" and c: "call_in S c" and t: "t \<le> c_time c"
    and res: "call_step c rl = Return (ok, rl')"
  shows "token_credit (c_time c) rl' k
    \<le> token_credit (c_time c) rl k - (if ok \<and> c_subject c = k then r else 0)"
proof -
  let ?v = "virtual_tokens (c_time c) rl (c_subject c)" and ?s = "sweep (c_order c) (c_time c) rl"
  have ok: "rl_ok t rl" and r: "rate rl = r" and ord: "range_order (c_order c)"
    using inv c by (auto simp: limiter_inv_def call_in_def)
  have rl': "rl' = ?s\<lparr>buckets := AList.update (c_subject c)
      \<lparr>tokens = (if 0 < ?v then ?v - 1 else ?v), last_use = c_time c\<rparr> (buckets ?s)\<rparr>"
    and ans: "ok \<longleftrightarrow> 0 < ?v"
    using res call_step_eq [OF inv c t] by (auto simp: Let_def)
  show ?thesis
  proof (cases "k = c_subject c")
    case True
    then show ?thesis
      using virtual_tokens_credit [OF ok, of "c_time c" k]
      by (auto simp: rl' ans r token_credit_def update_conv' left_diff_distrib)
  next
    case False
    then have "token_credit (c_time c) rl' k = token_credit (c_time c) ?s k"
      by (simp add: rl' token_credit_def update_conv' cong: option.case_cong)
    with False show ?thesis
      by (simp add: token_credit_sweep [OF ord ok])
  qed
qed

lemma call_step_inv:
  assumes inv: "limiter_inv S r bst t rl" and c: "call_in S c" and t: "t \<le> c_time c"
  shows "\<exists>ok rl'. call_step c rl = Return (ok, rl') \<and> limiter_inv S r bst (c_time c) rl'"
proof -
  have ok: "rl_ok t rl" and ord: "range_order (c_order c)" and s: "c_subject c \<noteq> ''''"
    and now: "0 < c_time c"
    using inv c by (auto simp: limiter_inv_def call_in_def)
  obtain ans rl' where res: "call_step c rl = Return (ans, rl')" and ok': "rl_ok (c_time c) rl'"
    "rate rl' = rate rl" "burst rl' = burst rl"
    using allow_ok [OF ord ok t now s] by (metis call_step_def)
  obtain b where "buckets rl' = AList.update (c_subject c) b (buckets (sweep (c_order c) (c_time c) rl))"
    using res call_step_eq [OF assms] by (auto simp: Let_def)
  then have "fst ` set (buckets rl') \<subseteq> insert (c_subject c) (fst ` set (buckets rl))"
    using image_mono [OF sweep_subset [OF ord ok, of "c_time c"], of fst]
    by (simp add: gomap_keys_update) blast
  also have "\<dots> \<subseteq> S"
    using inv c by (auto simp: limiter_inv_def call_in_def)
  finally show ?thesis
    using res ok' inv by (auto simp: limiter_inv_def)
qed

interpretation limiter: token_bucket call_step c_time c_subject "call_in S" "limiter_inv S r bst"
  token_credit r "bst * r" for S r bst
proof unfold_locales
  fix t u u' rl k
  show "token_credit u rl k \<le> bst * r" if "limiter_inv S r bst t rl"
    using that by (auto simp: limiter_inv_def token_credit_def split: option.splits)
  show "0 \<le> token_credit u rl k" if "limiter_inv S r bst t rl" "t \<le> u"
  proof -
    have ok: "rl_ok u rl" using that by (auto simp: limiter_inv_def intro: rl_ok_mono)
    show ?thesis
      using rl_okD [OF ok] rl_ok_lookup [OF ok, of k]
      by (auto simp: token_credit_def split: option.splits)
  qed
  show "limiter_inv S r bst t rl \<Longrightarrow> t \<le> u \<Longrightarrow> u \<le> u' \<Longrightarrow>
      token_credit u' rl k \<le> token_credit u rl k + (u' - u)"
    by (auto simp: token_credit_def split: option.splits)
qed (erule call_step_inv call_step_credit; assumption)+

section \<open>What callers can rely on\<close>

text \<open>The limiter never panics and keeps its invariant: distinct non-empty keys, at most
  \<open>rateLimitMaxBuckets\<close> of them, every count between 0 and the burst, every timestamp set and
  not in the future.\<close>

theorem allow_preserves_invariant:
  assumes "range_order ord" and "rl_ok t rl" and "t \<le> now" and "0 < now" and "s \<noteq> ''''"
  shows "\<exists>ans rl'. allow ord now s rl = Return (ans, rl') \<and> rl_ok now rl'
    \<and> length (buckets rl') \<le> rateLimitMaxBuckets"
  using allow_ok [OF assms] rl_okD(2) by metis

theorem allow_preserves_invariant_witness:
  "\<exists>ans rl'. allow rev 5 ''alice'' (newRateLimiter rateLimitRate rateLimitBurst) = Return (ans, rl')
    \<and> rl_ok 5 rl' \<and> length (buckets rl') \<le> rateLimitMaxBuckets"
  by (rule allow_preserves_invariant [where t = 1])
    (simp_all add: range_order_rev rl_ok_new limiter_consts duration_defs quot64_def wrap64_def)

text \<open>C21: Refinement of the token-bucket specification: the answer is whether the subject has a
  (virtual) token left, an allowed call costs exactly one, and below the cap no other subject's
  tokens change; the sweep and the order of the map are invisible.\<close>

theorem allow_refines_token_bucket:
  assumes ord: "range_order ord" and ok: "rl_ok t rl" and now: "t \<le> now" "0 < now"
    and space: "length (buckets rl) < rateLimitMaxBuckets"
  shows "\<exists>rl'. allow ord now s rl = Return (0 < virtual_tokens now rl s, rl')
    \<and> virtual_tokens now rl' s = max 0 (virtual_tokens now rl s - 1)
    \<and> (\<forall>s'. s' \<noteq> s \<longrightarrow> virtual_tokens now rl' s' = virtual_tokens now rl s')"
proof -
  let ?v = "virtual_tokens now rl s" and ?rl = "room ord now s rl"
  let ?rl' = "?rl\<lparr>buckets := AList.update s
      \<lparr>tokens = (if 0 < ?v then ?v - 1 else ?v), last_use = now\<rparr> (buckets ?rl)\<rparr>"
  have res: "allow ord now s rl = Return (0 < ?v, ?rl')"
    using allow_eq [OF ord ok now] by (simp add: Let_def)
  have "virtual_tokens now ?rl' s = max 0 (?v - 1)"
    using virtual_tokens_range [OF ok now(1), of s]
    by (auto simp: virtual_tokens_def [of _ ?rl'] update_conv')
  moreover have "virtual_tokens now ?rl' s' = virtual_tokens now rl s'" if "s' \<noteq> s" for s'
    using allow_frame [OF ord ok now _ res that] space sweep_virtual_tokens [OF ord ok, of now s']
    by (simp add: virtual_tokens_def cong: option.case_cong)
  ultimately show ?thesis using res by blast
qed

theorem allow_refines_token_bucket_witness:
  "\<exists>rl'. allow rev 5 ''alice'' (newRateLimiter second 3)
      = Return (0 < virtual_tokens 5 (newRateLimiter second 3) ''alice'', rl')
    \<and> virtual_tokens 5 rl' ''alice'' = max 0 (virtual_tokens 5 (newRateLimiter second 3) ''alice'' - 1)
    \<and> (\<forall>s'. s' \<noteq> ''alice'' \<longrightarrow>
         virtual_tokens 5 rl' s' = virtual_tokens 5 (newRateLimiter second 3) s')"
  by (rule allow_refines_token_bucket [where t = 1])
    (simp_all add: range_order_rev rl_ok_new limiter_consts duration_defs)

text \<open>C12: The rate the template promises, for every history of the production limiter with calls in
  time order and at most \<open>rateLimitMaxBuckets\<close> distinct subjects: no call panics, and in every
  window of the history each subject is let through at most burst plus (length of the window)/rate
  times.\<close>

theorem production_rate_bound:
  assumes srt: "sorted (map c_time cs)" and ne: "\<forall>c \<in> set cs. c_subject c \<noteq> ''''"
    and tm: "\<forall>c \<in> set cs. 0 < c_time c \<and> range_order (c_order c)"
    and cap: "card (c_subject ` set cs) \<le> rateLimitMaxBuckets"
  shows "\<exists>oks rl'. run_steps call_step cs (newRateLimiter rateLimitRate rateLimitBurst) = Return (oks, rl')
    \<and> (\<forall>pre win post s. cs = pre @ win @ post \<and> win \<noteq> [] \<longrightarrow>
         count_ok c_subject s win (take (length win) (drop (length pre) oks))
           \<le> rateLimitBurst + (c_time (last win) - c_time (hd win)) div rateLimitRate)"
proof -
  let ?S = "c_subject ` set cs" and ?rl = "newRateLimiter rateLimitRate rateLimitBurst"
  have rate: "rateLimitRate = 500000000"
    by (simp add: rateLimitRate_def duration_defs quot64_def wrap64_def)
  have inv: "limiter_inv ?S rateLimitRate rateLimitBurst 0 ?rl"
    using cap rl_ok_new [of rateLimitRate rateLimitBurst 0]
    by (simp add: limiter_inv_def newRateLimiter_def rate rateLimitBurst_def
        rateLimitBucketTTL_def duration_defs)
  have ok: "\<forall>c \<in> set cs. call_in ?S c"
    using ne tm by (auto simp: call_in_def)
  have srt0: "sorted (0 # map c_time cs)"
    using srt tm by (auto simp: less_imp_le)
  obtain oks rl' where run: "run_steps call_step cs ?rl = Return (oks, rl')"
    using limiter.run_returns [OF inv srt0 ok] by blast
  have "count_ok c_subject s win (take (length win) (drop (length pre) oks))
      \<le> rateLimitBurst + (c_time (last win) - c_time (hd win)) div rateLimitRate"
    if cs: "cs = pre @ win @ post" and win: "win \<noteq> []" for pre win post s
  proof -
    have "rateLimitRate * count_ok c_subject s win (take (length win) (drop (length pre) oks))
        \<le> rateLimitBurst * rateLimitRate + (c_time (last win) - c_time (hd win))"
      using limiter.run_window [OF inv _ _ win, of pre post oks rl' s] srt0 ok run cs by simp
    then show ?thesis unfolding rate by linarith
  qed
  with run show ?thesis by blast
qed

theorem production_rate_bound_witness:
  "\<exists>oks rl'. run_steps call_step
      (replicate 12 \<lparr>c_time = 7, c_subject = ''alice'', c_order = rev\<rparr>)
      (newRateLimiter rateLimitRate rateLimitBurst) = Return (oks, rl')
    \<and> count_ok c_subject ''alice'' (replicate 12 \<lparr>c_time = 7, c_subject = ''alice'', c_order = rev\<rparr>) oks
      \<le> 10"
proof -
  let ?cs = "replicate 12 \<lparr>c_time = 7, c_subject = ''alice'', c_order = rev\<rparr>"
  have "sorted (map c_time ?cs)" by (simp add: sorted_replicate)
  moreover have "card (c_subject ` set ?cs) \<le> rateLimitMaxBuckets"
    by (simp add: rateLimitMaxBuckets_def)
  ultimately obtain oks rl' where run: "run_steps call_step ?cs (newRateLimiter rateLimitRate rateLimitBurst) = Return (oks, rl')"
    and bound: "\<And>pre win post s. ?cs = pre @ win @ post \<and> win \<noteq> [] \<Longrightarrow>
         count_ok c_subject s win (take (length win) (drop (length pre) oks))
           \<le> rateLimitBurst + (c_time (last win) - c_time (hd win)) div rateLimitRate"
    using production_rate_bound [of ?cs] range_order_rev by fastforce
  have "length oks = 12"
    using run_steps_length [OF run] by simp
  with bound [of "[]" ?cs "[]" "''alice''"] have "count_ok c_subject ''alice'' ?cs oks \<le> 10"
    by (simp add: rateLimitBurst_def)
  with run show ?thesis by blast
qed

text \<open>A subject that has been quiet for one refill interval is served, whatever it did before and
  whoever else called.\<close>

theorem quiet_subject_is_served:
  assumes "range_order ord" and "rl_ok t rl" and "t \<le> now" and "0 < now" and "1 \<le> burst rl"
    and "\<forall>b. map_of (buckets rl) s = Some b \<longrightarrow> rate rl \<le> now - last_use b"
  shows "\<exists>rl'. allow ord now s rl = Return (True, rl')"
proof -
  have r: "0 < rate rl" using rl_okD(3) [OF assms(2)] by simp
  have "0 < virtual_tokens now rl s"
  proof (cases "map_of (buckets rl) s")
    case None
    then show ?thesis using assms(5) by (simp add: virtual_tokens_def)
  next
    case (Some b)
    then have "1 \<le> (now - last_use b) div rate rl"
      using full_refill [of 1 "rate rl"] assms(6) r by simp
    with Some assms(5) rl_ok_lookup(2) [OF assms(2) Some] show ?thesis
      by (simp add: virtual_tokens_def)
  qed
  then show ?thesis
    using allow_eq [OF assms(1-4)] by (simp add: Let_def)
qed

theorem quiet_subject_is_served_witness:
  "\<exists>rl'. allow rev 1000000005 ''alice''
     \<lparr>buckets = [(''alice'', \<lparr>tokens = 0, last_use = 5\<rparr>)], rate = second, burst = 3, lastCleanup = 5\<rparr>
   = Return (True, rl')"
  by (rule quiet_subject_is_served [where t = 5])
    (simp_all add: range_order_rev rl_ok_def gomap_ok_def limiter_consts duration_defs)

text \<open>
  Calls of one subject that follow each other by less than one refill interval, the first one
  that close to time \<open>t\<close>.
\<close>

fun polls :: "duration \<Rightarrow> string \<Rightarrow> gotime \<Rightarrow> call list \<Rightarrow> bool" where
  "polls r s t [] \<longleftrightarrow> True"
| "polls r s t (c # cs) \<longleftrightarrow> c_subject c = s \<and> t \<le> c_time c \<and> c_time c - t < r \<and>
     range_order (c_order c) \<and> polls r s (c_time c) cs"

text \<open>C33: The refill forgets fractions of an interval, because every call, also a refused one,
  moves the bucket's timestamp: a subject that has run out and keeps calling more often than once
  per interval is refused for ever, not served at the sustained rate.\<close>

theorem polling_subject_starves:
  assumes "rl_ok t rl" and "map_of (buckets rl) s = Some \<lparr>tokens = 0, last_use = t\<rparr>"
    and "polls (rate rl) s t cs"
  shows "\<exists>rl'. run_steps call_step cs rl = Return (replicate (length cs) False, rl')"
  using assms
proof (induction cs arbitrary: t rl)
  case Nil
  then show ?case by simp
next
  case (Cons c cs)
  let ?now = "c_time c"
  have ord: "range_order (c_order c)" and now: "t \<le> ?now" "?now - t < rate rl"
    and s: "c_subject c = s"
    using Cons.prems(3) by auto
  have pos: "s \<noteq> ''''" "0 < ?now"
    using rl_ok_lookup [OF Cons.prems(1,2)] now by auto
  have v: "virtual_tokens ?now rl s = 0"
    using Cons.prems(2) now rl_okD(4) [OF Cons.prems(1)]
    by (simp add: virtual_tokens_def div_pos_pos_trivial min_def)
  obtain rl' where rl': "call_step c rl = Return (False, rl')"
    "map_of (buckets rl') s = Some \<lparr>tokens = 0, last_use = ?now\<rparr>"
    using allow_eq [OF ord Cons.prems(1) now(1) pos(2), of s] v s
    by (simp add: call_step_def Let_def update_conv')
  moreover have "rl_ok ?now rl'" "rate rl' = rate rl"
    using allow_ok [OF ord Cons.prems(1) now(1) pos(2) pos(1)] rl'(1) s
    by (metis call_step_def outcome.inject(1) prod.inject)+
  moreover obtain rl'' where "run_steps call_step cs rl' = Return (replicate (length cs) False, rl'')"
    using Cons.IH [of ?now rl'] Cons.prems(3) calculation by auto
  ultimately show ?case by simp
qed

theorem polling_subject_starves_witness:
  "\<exists>rl'. run_steps call_step
     [\<lparr>c_time = 400000007, c_subject = ''alice'', c_order = rev\<rparr>,
      \<lparr>c_time = 800000007, c_subject = ''alice'', c_order = rev\<rparr>,
      \<lparr>c_time = 1200000007, c_subject = ''alice'', c_order = rev\<rparr>]
     \<lparr>buckets = [(''alice'', \<lparr>tokens = 0, last_use = 7\<rparr>)], rate = 500000000, burst = 10, lastCleanup = 7\<rparr>
   = Return ([False, False, False], rl')"
  using polling_subject_starves [of 7
     "\<lparr>buckets = [(''alice'', \<lparr>tokens = 0, last_use = 7\<rparr>)], rate = 500000000, burst = 10, lastCleanup = 7\<rparr>"
     "''alice''"
     "[\<lparr>c_time = 400000007, c_subject = ''alice'', c_order = rev\<rparr>,
       \<lparr>c_time = 800000007, c_subject = ''alice'', c_order = rev\<rparr>,
       \<lparr>c_time = 1200000007, c_subject = ''alice'', c_order = rev\<rparr>]"]
  by (simp add: range_order_rev rl_ok_def gomap_ok_def limiter_consts duration_defs eval_nat_numeral)

text \<open>At the cap a new subject evicts a least recently used bucket, in whatever order the map is
  ranged over, and the map stays within the cap.\<close>

theorem eviction_is_lru:
  assumes "range_order ord" and "rl_ok t rl" and "buckets rl \<noteq> []"
  shows "\<exists>k b. (k, b) \<in> set (buckets rl)
    \<and> (\<forall>(k', b') \<in> set (buckets rl). last_use b \<le> last_use b')
    \<and> evictOldestLocked ord rl = rl\<lparr>buckets := AList.delete k (buckets rl)\<rparr>
    \<and> length (buckets (evictOldestLocked ord rl)) < length (buckets rl)"
proof -
  have "\<forall>(k, b) \<in> set (buckets rl). k \<noteq> '''' \<and> 0 < last_use b"
    using assms(2) by (auto simp: rl_ok_def)
  then obtain k b where "(k, b) \<in> set (buckets rl)"
    "\<forall>(k', b') \<in> set (buckets rl). last_use b \<le> last_use b'"
    "evictOldestLocked ord rl = rl\<lparr>buckets := AList.delete k (buckets rl)\<rparr>"
    using evict_deletes_lru [OF assms(1) rl_okD(1) [OF assms(2)] assms(3)] by metis
  then show ?thesis using evict_length [OF assms] by blast
qed

theorem eviction_is_lru_witness:
  "\<exists>k b. (k, b) \<in> set [(''a'', \<lparr>tokens = 1, last_use = 9\<rparr>), (''b'', \<lparr>tokens = 0, last_use = 5\<rparr>)]
    \<and> (\<forall>(k', b') \<in> set [(''a'', \<lparr>tokens = 1, last_use = 9\<rparr>), (''b'', \<lparr>tokens = 0, last_use = 5\<rparr>)].
         last_use b \<le> last_use b')"
  using eviction_is_lru [OF range_order_rev, of 9
      "\<lparr>buckets = [(''a'', \<lparr>tokens = 1, last_use = 9\<rparr>), (''b'', \<lparr>tokens = 0, last_use = 5\<rparr>)],
        rate = second, burst = 3, lastCleanup = 5\<rparr>"]
  by (simp add: rl_ok_def gomap_ok_def limiter_consts duration_defs) blast

end
