(* ===== verification/Metrics.thy ===== *)
theory Metrics
  imports GoPrelude GoJson Complex_Main
begin

text \<open>
  The metrics registry of internal/metrics/metrics.go: families of counters, gauges and histograms,
  their series, and the text exposition format.

  float64 is an argument of the model: a type with the operations the code uses (\<open>float_ops\<close>).
  Counts are 64-bit words. A metric handle (\<open>CounterVec\<close>, ...) points to a family; here it is the
  family's index in the registry, which only ever grows. The order in which the runtime ranges
  over a family's map is an argument of the rendering.
\<close>

section \<open>Families and series\<close>

record 'f float_ops =
  f_lit :: "rat \<Rightarrow> 'f"
  f_add :: "'f \<Rightarrow> 'f \<Rightarrow> 'f"
  f_le :: "'f \<Rightarrow> 'f \<Rightarrow> bool"
  f_format :: "'f \<Rightarrow> string"

datatype kind = KindCounter | KindGauge | KindHistogram

fun typeName :: "kind \<Rightarrow> string" where
  "typeName KindCounter = ''counter''"
| "typeName KindGauge = ''gauge''"
| "typeName KindHistogram = ''histogram''"

record 'f series =
  s_labels :: "string list"
  s_value :: 'f
  s_count :: "64 word"
  s_sum :: 'f
  s_buckets :: "64 word list"

record 'f family =
  f_name :: string
  f_help :: string
  f_kind :: kind
  labelNames :: "string list"
  bounds :: "'f list"
  f_series :: "(string, 'f series) gomap"

definition labelCount :: "'f family \<Rightarrow> string list \<Rightarrow> bool" where
  "labelCount f values \<longleftrightarrow> length values = length (labelNames f)"

definition label_panic :: "'f family \<Rightarrow> string list \<Rightarrow> string" where
  "label_panic f values = ''metrics: '' @ f_name f @ '' expects '' @ itoa_digits (length (labelNames f))
     @ '' label values, got '' @ itoa_digits (length values)"

definition series_key :: "string list \<Rightarrow> string" where
  "series_key values = join_str values [CHR 0xFF]"

definition new_series :: "'f float_ops \<Rightarrow> 'f family \<Rightarrow> string list \<Rightarrow> 'f series" where
  "new_series F f values =
     \<lparr>s_labels = values, s_value = f_lit F 0, s_count = 0, s_sum = f_lit F 0,
      s_buckets = (if f_kind f = KindHistogram then replicate (length (bounds f)) 0 else [])\<rparr>"

text \<open>\<open>seriesFor\<close> returns a pointer into the map; what is done through it is put back under the key.\<close>

definition seriesFor :: "'f float_ops \<Rightarrow> 'f family \<Rightarrow> string list \<Rightarrow> 'f series" where
  "seriesFor F f values =
     (case map_of (f_series f) (series_key values) of
        Some s \<Rightarrow> s
      | None \<Rightarrow> new_series F f values)"

definition put_series :: "string list \<Rightarrow> 'f series \<Rightarrow> 'f family \<Rightarrow> 'f family" where
  "put_series values s f = f\<lparr>f_series := AList.update (series_key values) s (f_series f)\<rparr>"

definition add :: "'f float_ops \<Rightarrow> 'f \<Rightarrow> string list \<Rightarrow> 'f family \<Rightarrow> 'f family outcome" where
  "add F delta values f =
     (if \<not> labelCount f values then Panic (label_panic f values)
      else let s = seriesFor F f values in
        Return (put_series values (s\<lparr>s_value := f_add F (s_value s) delta\<rparr>) f))"

definition set_value :: "'f float_ops \<Rightarrow> 'f \<Rightarrow> string list \<Rightarrow> 'f family \<Rightarrow> 'f family outcome" where
  "set_value F v values f =
     (if \<not> labelCount f values then Panic (label_panic f values)
      else let s = seriesFor F f values in Return (put_series values (s\<lparr>s_value := v\<rparr>) f))"

text \<open>\<open>sort.Search\<close>: binary search for the first index at which the predicate holds.\<close>

function search_loop :: "(nat \<Rightarrow> bool) \<Rightarrow> nat \<Rightarrow> nat \<Rightarrow> nat" where
  "search_loop P i j =
     (if i < j then
        (if \<not> P ((i + j) div 2) then search_loop P ((i + j) div 2 + 1) j
         else search_loop P i ((i + j) div 2))
      else i)"
  by pat_completeness auto
termination by (relation "measure (\<lambda>(P, i, j). j - i)") auto

declare search_loop.simps [simp del]

definition searchFloat64s :: "'f float_ops \<Rightarrow> 'f list \<Rightarrow> 'f \<Rightarrow> nat" where
  "searchFloat64s F bs v = search_loop (\<lambda>i. f_le F v (bs ! i)) 0 (length bs)"

definition observe_series :: "'f float_ops \<Rightarrow> 'f list \<Rightarrow> 'f \<Rightarrow> 'f series \<Rightarrow> 'f series" where
  "observe_series F bs v s =
     (let s = s\<lparr>s_count := s_count s + 1, s_sum := f_add F (s_sum s) v\<rparr>;
          i = searchFloat64s F bs v
      in if i < length (s_buckets s)
         then s\<lparr>s_buckets := (s_buckets s)[i := s_buckets s ! i + 1]\<rparr> else s)"

definition observe :: "'f float_ops \<Rightarrow> 'f \<Rightarrow> string list \<Rightarrow> 'f family \<Rightarrow> 'f family outcome" where
  "observe F v values f =
     (if \<not> labelCount f values then Panic (label_panic f values)
      else Return (put_series values (observe_series F (bounds f) v (seriesFor F f values)) f))"

section \<open>The registry\<close>

record 'f registry =
  families :: "'f family list"
  byName :: "string set"

definition NewRegistry :: "'f registry" where
  "NewRegistry = \<lparr>families = [], byName = {}\<rparr>"

definition reg_add :: "'f family \<Rightarrow> 'f registry \<Rightarrow> (nat \<times> 'f registry) outcome" where
  "reg_add f r =
     (if f_name f \<in> byName r then Panic (''metrics: duplicate metric name '' @ f_name f)
      else Return (length (families r),
        r\<lparr>byName := insert (f_name f) (byName r), families := families r @ [f]\<rparr>))"

definition CounterVec :: "string \<Rightarrow> string \<Rightarrow> string list \<Rightarrow> 'f registry \<Rightarrow> (nat \<times> 'f registry) outcome" where
  "CounterVec name help labels r =
     reg_add \<lparr>f_name = name, f_help = help, f_kind = KindCounter, labelNames = labels, bounds = [],
       f_series = []\<rparr> r"

definition Gauge :: "string \<Rightarrow> string \<Rightarrow> 'f registry \<Rightarrow> (nat \<times> 'f registry) outcome" where
  "Gauge name help r =
     reg_add \<lparr>f_name = name, f_help = help, f_kind = KindGauge, labelNames = [], bounds = [],
       f_series = []\<rparr> r"

text \<open>\<open>slices.Sort\<close> on floats, by insertion: the result of sorting does not depend on the algorithm.\<close>

fun insert_float :: "'f float_ops \<Rightarrow> 'f \<Rightarrow> 'f list \<Rightarrow> 'f list" where
  "insert_float F x [] = [x]"
| "insert_float F x (y # ys) = (if f_le F x y then x # y # ys else y # insert_float F x ys)"

definition sort_floats :: "'f float_ops \<Rightarrow> 'f list \<Rightarrow> 'f list" where
  "sort_floats F xs = foldr (insert_float F) xs []"

definition HistogramVec ::
  "'f float_ops \<Rightarrow> string \<Rightarrow> string \<Rightarrow> 'f list \<Rightarrow> string list \<Rightarrow> 'f registry \<Rightarrow> (nat \<times> 'f registry) outcome" where
  "HistogramVec F name help buckets labels r =
     (if buckets = [] then Panic (''metrics: histogram '' @ name @ '' needs at least one bucket'')
      else reg_add \<lparr>f_name = name, f_help = help, f_kind = KindHistogram, labelNames = labels,
        bounds = sort_floats F buckets, f_series = []\<rparr> r)"

text \<open>An operation through a handle.\<close>

definition on_family :: "nat \<Rightarrow> ('f family \<Rightarrow> 'f family outcome) \<Rightarrow> 'f registry \<Rightarrow> 'f registry outcome" where
  "on_family i op r =
     map_outcome (\<lambda>f. r\<lparr>families := (families r)[i := f]\<rparr>) (op (families r ! i))"

definition counter_Inc :: "'f float_ops \<Rightarrow> nat \<Rightarrow> string list \<Rightarrow> 'f registry \<Rightarrow> 'f registry outcome" where
  "counter_Inc F i values = on_family i (add F (f_lit F 1) values)"

definition counter_Add :: "'f float_ops \<Rightarrow> nat \<Rightarrow> 'f \<Rightarrow> string list \<Rightarrow> 'f registry \<Rightarrow> 'f registry outcome" where
  "counter_Add F i delta values = on_family i (add F delta values)"

definition gauge_Inc :: "'f float_ops \<Rightarrow> nat \<Rightarrow> 'f registry \<Rightarrow> 'f registry outcome" where
  "gauge_Inc F i = on_family i (add F (f_lit F 1) [])"

definition gauge_Dec :: "'f float_ops \<Rightarrow> nat \<Rightarrow> 'f registry \<Rightarrow> 'f registry outcome" where
  "gauge_Dec F i = on_family i (add F (f_lit F (- 1)) [])"

definition gauge_Set :: "'f float_ops \<Rightarrow> nat \<Rightarrow> 'f \<Rightarrow> 'f registry \<Rightarrow> 'f registry outcome" where
  "gauge_Set F i v = on_family i (set_value F v [])"

definition histogram_Observe :: "'f float_ops \<Rightarrow> nat \<Rightarrow> 'f \<Rightarrow> string list \<Rightarrow> 'f registry \<Rightarrow> 'f registry outcome" where
  "histogram_Observe F i v values = on_family i (observe F v values)"

section \<open>Rendering\<close>

definition nl :: string where "nl = [CHR 0x0A]"

fun label_escape :: "string \<Rightarrow> string" where
  "label_escape [] = []"
| "label_escape (c # cs) =
     (if c = CHR 0x5C then [CHR 0x5C, CHR 0x5C]
      else if c = CHR 0x22 then [CHR 0x5C, CHR 0x22]
      else if c = CHR 0x0A then [CHR 0x5C, CHR ''n'']
      else [c]) @ label_escape cs"

fun help_escape :: "string \<Rightarrow> string" where
  "help_escape [] = []"
| "help_escape (c # cs) =
     (if c = CHR 0x5C then [CHR 0x5C, CHR 0x5C]
      else if c = CHR 0x0A then [CHR 0x5C, CHR ''n'']
      else [c]) @ help_escape cs"

definition label_pair :: "string \<Rightarrow> string \<Rightarrow> string" where
  "label_pair n v = n @ [CHR ''='', CHR 0x22] @ label_escape v @ [CHR 0x22]"

definition writeSeriesLine :: "string \<Rightarrow> string list \<Rightarrow> string list \<Rightarrow> string \<Rightarrow> string \<Rightarrow> string" where
  "writeSeriesLine name names values le v =
     name @
     (if names \<noteq> [] \<or> le \<noteq> '''' then
        ''{'' @ join_str (map (\<lambda>(n, x). label_pair n x) (zip names values)) '',''
        @ (if le \<noteq> '''' then
             (if names \<noteq> [] then '','' else '''') @ ''le='' @ [CHR 0x22] @ le @ [CHR 0x22]
           else '''')
        @ ''}''
      else '''')
     @ '' '' @ v @ nl"

text \<open>The running sum over the buckets of a histogram.\<close>

fun cumulative :: "64 word \<Rightarrow> 64 word list \<Rightarrow> 64 word list" where
  "cumulative acc [] = []"
| "cumulative acc (b # bs) = (acc + b) # cumulative (acc + b) bs"

definition render_series :: "'f float_ops \<Rightarrow> 'f family \<Rightarrow> 'f series \<Rightarrow> string" where
  "render_series F f s =
     (if f_kind f \<noteq> KindHistogram
      then writeSeriesLine (f_name f) (labelNames f) (s_labels s) '''' (f_format F (s_value s))
      else
        concat (map (\<lambda>(bound, n). writeSeriesLine (f_name f @ ''_bucket'') (labelNames f) (s_labels s)
            (f_format F bound) (itoa_digits (unat n)))
          (zip (bounds f) (cumulative 0 (s_buckets s))))
        @ writeSeriesLine (f_name f @ ''_bucket'') (labelNames f) (s_labels s) ''+Inf'' (itoa_digits (unat (s_count s)))
        @ writeSeriesLine (f_name f @ ''_sum'') (labelNames f) (s_labels s) '''' (f_format F (s_sum s))
        @ writeSeriesLine (f_name f @ ''_count'') (labelNames f) (s_labels s) '''' (itoa_digits (unat (s_count s))))"

definition render_family :: "'f float_ops \<Rightarrow> (string, 'f series) range_fn \<Rightarrow> 'f family \<Rightarrow> string" where
  "render_family F ord f =
     ''# HELP '' @ f_name f @ '' '' @ help_escape (f_help f) @ nl
     @ ''# TYPE '' @ f_name f @ '' '' @ typeName (f_kind f) @ nl
     @ concat (map (\<lambda>k. render_series F f (the (map_of (f_series f) k)))
         (sort (map fst (ord (f_series f)))))"

definition writeRuntime :: "nat \<times> nat \<Rightarrow> string" where
  "writeRuntime rt =
     ''# HELP go_goroutines Number of live goroutines.'' @ nl @ ''# TYPE go_goroutines gauge'' @ nl
     @ ''go_goroutines '' @ itoa_digits (fst rt) @ nl
     @ ''# HELP go_memstats_alloc_bytes Bytes of allocated heap objects not yet freed.'' @ nl
     @ ''# TYPE go_memstats_alloc_bytes gauge'' @ nl
     @ ''go_memstats_alloc_bytes '' @ itoa_digits (snd rt) @ nl"

definition Render :: "'f float_ops \<Rightarrow> (string, 'f series) range_fn \<Rightarrow> nat \<times> nat \<Rightarrow> 'f registry \<Rightarrow> string" where
  "Render F ord rt r = concat (map (render_family F ord) (families r)) @ writeRuntime rt"

section \<open>Binary search\<close>

lemma search_loop_spec:
  assumes "i \<le> j" and "\<And>x. x < i \<Longrightarrow> \<not> P x" and "\<And>x. j \<le> x \<Longrightarrow> x < n \<Longrightarrow> P x" and "j \<le> n"
    and "\<And>x y. x \<le> y \<Longrightarrow> y < n \<Longrightarrow> P x \<Longrightarrow> P y"
  shows "search_loop P i j \<le> n \<and> (\<forall>x < n. P x \<longleftrightarrow> search_loop P i j \<le> x)"
  using assms
proof (induction P i j rule: search_loop.induct)
  case (1 P i j)
  note mono = "1.prems"(5)
  let ?h = "(i + j) div 2"
  show ?case
  proof (cases "i < j")
    case False
    then have "search_loop P i j = i" by (subst search_loop.simps) simp
    with False 1 show ?thesis by (metis le_antisym linorder_not_le)
  next
    case True
    then have h: "i \<le> ?h" "?h < j" by auto
    show ?thesis
    proof (cases "P ?h")
      case False
      have low: "\<not> P x" if "x < ?h + 1" for x
      proof
        assume p: "P x"
        have "x \<le> ?h" "?h < n" using that h(2) "1.prems"(4) by simp_all
        from mono [OF this p] False show False by simp
      qed
      have "search_loop P (?h + 1) j \<le> n \<and> (\<forall>x<n. P x \<longleftrightarrow> search_loop P (?h + 1) j \<le> x)"
      proof (rule 1(1) [OF True False])
        show "\<not> P x" if "x < ?h + 1" for x using that by (rule low)
        show "?h + 1 \<le> j" using h by simp
        show "P x" if "j \<le> x" "x < n" for x using that by (rule "1.prems"(3))
        show "P y" if "x \<le> y" "y < n" "P x" for x y using that by (rule mono)
      qed (use "1.prems"(4) in simp)
      then show ?thesis using True False by (subst (1 2) search_loop.simps) simp
    next
      case t: True
      have high: "P x" if "?h \<le> x" "x < n" for x
        using that t by (rule mono)
      have "search_loop P i ?h \<le> n \<and> (\<forall>x<n. P x \<longleftrightarrow> search_loop P i ?h \<le> x)"
      proof (rule 1(2) [OF True])
        show "P x" if "?h \<le> x" "x < n" for x using that by (rule high)
        show "\<not> \<not> P ?h" using t by simp
        show "\<not> P x" if "x < i" for x using that by (rule "1.prems"(2))
        show "P y" if "x \<le> y" "y < n" "P x" for x y using that by (rule mono)
      qed (use h "1.prems"(4) in simp_all)
      then show ?thesis using True t by (subst (1 2) search_loop.simps) simp
    qed
  qed
qed

section \<open>Well-formed families\<close>

definition series_ok :: "'f family \<Rightarrow> string \<Rightarrow> 'f series \<Rightarrow> bool" where
  "series_ok f k s \<longleftrightarrow> k = series_key (s_labels s) \<and> length (s_labels s) = length (labelNames f)
     \<and> length (s_buckets s) = (if f_kind f = KindHistogram then length (bounds f) else 0)"

definition family_ok :: "'f family \<Rightarrow> bool" where
  "family_ok f \<longleftrightarrow> gomap_ok (f_series f) \<and> (\<forall>(k, s) \<in> set (f_series f). series_ok f k s)"

text \<open>What no operation changes: a family's metadata.\<close>

definition same_meta :: "'f family \<Rightarrow> 'f family \<Rightarrow> bool" where
  "same_meta f f' \<longleftrightarrow> f_name f' = f_name f \<and> f_help f' = f_help f \<and> f_kind f' = f_kind f
     \<and> labelNames f' = labelNames f \<and> bounds f' = bounds f"

lemma same_meta_refl [simp]: "same_meta f f"
  by (simp add: same_meta_def)

lemma same_meta_put [simp]: "same_meta f (put_series values s f)"
  by (simp add: same_meta_def put_series_def)

lemma seriesFor_ok:
  assumes "family_ok f" and "labelCount f values"
  shows "series_ok f (series_key values) (seriesFor F f values)"
  using assms
  by (auto simp: family_ok_def seriesFor_def new_series_def series_ok_def labelCount_def
      split: option.splits dest!: map_of_SomeD)

lemma put_series_ok:
  assumes ok: "family_ok f" and s: "series_ok f (series_key values) s"
  shows "family_ok (put_series values s f)"
proof -
  have "series_ok f k x" if "(k, x) \<in> set (AList.update (series_key values) s (f_series f))" for k x
  proof -
    have "gomap_ok (AList.update (series_key values) s (f_series f))"
      using ok by (simp add: family_ok_def)
    then have "((map_of (f_series f))(series_key values \<mapsto> s)) k = Some x"
      using that by (simp add: gomap_lookup_iff [symmetric] update_conv')
    then show ?thesis
      using ok s by (auto simp: family_ok_def split: if_splits dest!: map_of_SomeD)
  qed
  then show ?thesis
    using ok by (auto simp: family_ok_def put_series_def series_ok_def)
qed

lemma observe_series_fields [simp]:
  "s_labels (observe_series F bs v s) = s_labels s"
  "s_count (observe_series F bs v s) = s_count s + 1"
  "length (s_buckets (observe_series F bs v s)) = length (s_buckets s)"
  "s_value (observe_series F bs v s) = s_value s"
  "s_sum (observe_series F bs v s) = f_add F (s_sum s) v"
  by (simp_all add: observe_series_def Let_def)

lemma family_ops_ok:
  assumes "family_ok f" and "labelCount f values"
  shows "\<exists>f'. add F d values f = Return f' \<and> family_ok f' \<and> same_meta f f'"
    "\<exists>f'. set_value F d values f = Return f' \<and> family_ok f' \<and> same_meta f f'"
    "\<exists>f'. observe F d values f = Return f' \<and> family_ok f' \<and> same_meta f f'"
  using seriesFor_ok [OF assms, of F] assms
  by (auto simp: add_def set_value_def observe_def Let_def series_ok_def intro!: put_series_ok)

section \<open>Histograms\<close>

text \<open>
  What a comparison of floats is for the values that occur (no NaN): reflexive, transitive and
  total; then \<open>slices.Sort\<close> sorts.
\<close>

definition float_order :: "'f float_ops \<Rightarrow> bool" where
  "float_order F \<longleftrightarrow> (\<forall>x. f_le F x x) \<and> (\<forall>x y z. f_le F x y \<and> f_le F y z \<longrightarrow> f_le F x z)
     \<and> (\<forall>x y. f_le F x y \<or> f_le F y x)"

lemma insert_float_set [simp]: "set (insert_float F x ys) = insert x (set ys)"
  by (induction ys) auto

lemma insert_float_length [simp]: "length (insert_float F x ys) = Suc (length ys)"
  by (induction ys) auto

lemma insert_float_sorted:
  "float_order F \<Longrightarrow> sorted_wrt (f_le F) ys \<Longrightarrow> sorted_wrt (f_le F) (insert_float F x ys)"
proof (induction ys)
  case (Cons y ys)
  have trans: "f_le F a b \<Longrightarrow> f_le F b c \<Longrightarrow> f_le F a c" and total: "\<not> f_le F a b \<Longrightarrow> f_le F b a" for a b c
    using Cons.prems(1) unfolding float_order_def by blast+
  show ?case
  proof (cases "f_le F x y")
    case True
    have "\<forall>z \<in> set ys. f_le F y z" using Cons.prems(2) by simp
    with trans [OF True] have "\<forall>z \<in> set ys. f_le F x z" by blast
    with True Cons.prems(2) show ?thesis by simp
  next
    case False
    have "sorted_wrt (f_le F) (insert_float F x ys)" using Cons by simp
    with total [OF False] False Cons.prems(2) show ?thesis by simp
  qed
qed simp

lemma sort_floats_sorted: "float_order F \<Longrightarrow> sorted_wrt (f_le F) (sort_floats F xs)"
  by (induction xs) (simp_all add: sort_floats_def insert_float_sorted)

lemma sort_floats_length [simp]: "length (sort_floats F xs) = length xs"
  by (induction xs) (simp_all add: sort_floats_def)

lemma searchFloat64s_spec:
  assumes F: "float_order F" and s: "sorted_wrt (f_le F) bs"
  shows "searchFloat64s F bs v \<le> length bs"
    "x < length bs \<Longrightarrow> searchFloat64s F bs v \<le> x \<longleftrightarrow> f_le F v (bs ! x)"
proof -
  have mono: "f_le F v (bs ! y)" if "x \<le> y" "y < length bs" "f_le F v (bs ! x)" for x y
  proof (cases "x = y")
    case False
    then have "f_le F (bs ! x) (bs ! y)" using s that by (simp add: sorted_wrt_iff_nth_less)
    then show ?thesis using F that(3) unfolding float_order_def by blast
  qed (use that in simp)
  have "search_loop (\<lambda>i. f_le F v (bs ! i)) 0 (length bs) \<le> length bs
      \<and> (\<forall>x < length bs. f_le F v (bs ! x) \<longleftrightarrow> search_loop (\<lambda>i. f_le F v (bs ! i)) 0 (length bs) \<le> x)"
    by (rule search_loop_spec) (use mono in auto)
  then show "searchFloat64s F bs v \<le> length bs"
    "x < length bs \<Longrightarrow> searchFloat64s F bs v \<le> x \<longleftrightarrow> f_le F v (bs ! x)"
    by (auto simp: searchFloat64s_def)
qed

lemma cumulative_length [simp]: "length (cumulative acc bs) = length bs"
  by (induction bs arbitrary: acc) auto

lemma cumulative_acc: "i < length bs \<Longrightarrow> cumulative (a + b) bs ! i = a + cumulative b bs ! i"
proof (induction bs arbitrary: b i)
  case (Cons x xs)
  show ?case
  proof (cases i)
    case (Suc j)
    then show ?thesis using Cons.IH [of j "b + x"] Cons.prems by (simp add: add.assoc)
  qed (simp add: add.assoc)
qed simp

lemma cumulative_bump:
  "j < length bs \<Longrightarrow> i < length bs \<Longrightarrow>
     cumulative acc (bs[j := bs ! j + 1]) ! i = cumulative acc bs ! i + (if j \<le> i then 1 else 0)"
proof (induction bs arbitrary: acc i j)
  case (Cons x xs)
  show ?case
  proof (cases j)
    case 0
    show ?thesis
    proof (cases i)
      case (Suc k)
      then have k: "k < length xs" using Cons.prems by simp
      have "cumulative (acc + (x + 1)) xs ! k = 1 + cumulative (acc + x) xs ! k"
        using cumulative_acc [OF k, of 1 "acc + x"] by (simp add: ac_simps)
      then show ?thesis using 0 Suc by simp
    qed (simp add: 0)
  next
    case (Suc k)
    then show ?thesis using Cons by (cases i) auto
  qed
qed simp

text \<open>One observation raises exactly the cumulative counts of the bounds that are not below it.\<close>

lemma observe_cumulative:
  assumes F: "float_order F" and s: "sorted_wrt (f_le F) bs"
    and len: "length (s_buckets sr) = length bs" and i: "i < length bs"
  shows "cumulative 0 (s_buckets (observe_series F bs v sr)) ! i
    = cumulative 0 (s_buckets sr) ! i + (if f_le F v (bs ! i) then 1 else 0)"
proof (cases "searchFloat64s F bs v < length bs")
  case True
  then show ?thesis
    using searchFloat64s_spec(2) [OF F s i, of v] len i
    by (simp add: observe_series_def Let_def cumulative_bump)
next
  case False
  then have "\<not> f_le F v (bs ! i)"
    using searchFloat64s_spec(2) [OF F s i, of v] i by auto
  with False show ?thesis using len by (simp add: observe_series_def Let_def)
qed

fun observe_all :: "'f float_ops \<Rightarrow> 'f list \<Rightarrow> string list \<Rightarrow> 'f family \<Rightarrow> 'f family outcome" where
  "observe_all F [] values f = Return f"
| "observe_all F (v # vs) values f = bind_outcome (observe F v values f) (observe_all F vs values)"

lemma seriesFor_put [simp]: "seriesFor F (put_series values s f) values = s"
  by (simp add: seriesFor_def put_series_def update_conv')

lemma new_series_meta: "same_meta f f' \<Longrightarrow> new_series F f' values = new_series F f values"
  by (simp add: new_series_def same_meta_def)

lemma seriesFor_put_other:
  "series_key values' \<noteq> series_key values \<Longrightarrow>
     seriesFor F (put_series values s f) values' = seriesFor F f values'"
proof -
  assume "series_key values' \<noteq> series_key values"
  then have "map_of (f_series (put_series values s f)) (series_key values') = map_of (f_series f) (series_key values')"
    by (simp add: put_series_def update_conv')
  moreover have "new_series F (put_series values s f) values' = new_series F f values'"
    by (rule new_series_meta) simp
  ultimately show ?thesis by (simp add: seriesFor_def split: option.split)
qed

lemma observe_all_counts:
  assumes F: "float_order F"
  shows "family_ok f \<Longrightarrow> labelCount f values \<Longrightarrow> sorted_wrt (f_le F) (bounds f) \<Longrightarrow>
      f_kind f = KindHistogram \<Longrightarrow>
    \<exists>f'. observe_all F vs values f = Return f' \<and> family_ok f' \<and> same_meta f f'
      \<and> s_count (seriesFor F f' values) = s_count (seriesFor F f values) + of_nat (length vs)
      \<and> (\<forall>i < length (bounds f). cumulative 0 (s_buckets (seriesFor F f' values)) ! i
          = cumulative 0 (s_buckets (seriesFor F f values)) ! i
            + of_nat (length (filter (\<lambda>v. f_le F v (bounds f ! i)) vs)))"
proof (induction vs arbitrary: f)
  case (Cons v vs)
  let ?s = "seriesFor F f values"
  let ?f1 = "put_series values (observe_series F (bounds f) v ?s) f"
  have len: "length (s_buckets ?s) = length (bounds f)"
    using seriesFor_ok [OF Cons.prems(1,2), of F] Cons.prems(4) by (simp add: series_ok_def)
  have f1: "observe F v values f = Return ?f1" using Cons.prems(2) by (simp add: observe_def)
  have ok1: "family_ok ?f1" using family_ops_ok(3) [OF Cons.prems(1,2), of F v] f1 by simp
  have meta: "bounds ?f1 = bounds f" "f_kind ?f1 = f_kind f" "labelCount ?f1 values"
    using Cons.prems(2) by (simp_all add: put_series_def labelCount_def)
  obtain f' where f': "observe_all F vs values ?f1 = Return f'" "family_ok f'" "same_meta ?f1 f'"
    "s_count (seriesFor F f' values) = s_count ?s + 1 + of_nat (length vs)"
    "\<forall>i < length (bounds f). cumulative 0 (s_buckets (seriesFor F f' values)) ! i
          = cumulative 0 (s_buckets (observe_series F (bounds f) v ?s)) ! i
            + of_nat (length (filter (\<lambda>v. f_le F v (bounds f ! i)) vs))"
    using Cons.IH [OF ok1 meta(3)] Cons.prems(3,4) meta by auto
  have "same_meta f f'" using f'(3) same_meta_put [of f] unfolding same_meta_def by metis
  then show ?case
    using f' f1 observe_cumulative [OF F Cons.prems(3) len] by (auto simp: add.assoc)
qed simp

lemma cumulative_zeros: "i < n \<Longrightarrow> cumulative 0 (replicate n 0) ! i = 0"
  by (induction n arbitrary: i) (auto simp: nth_Cons split: nat.splits)

section \<open>Properties\<close>

text \<open>C35: A histogram counts right: after any sequence of observations of one label combination, the
  cumulative count rendered for each upper bound is the number of observations not above it (modulo
  2^64), and the total is their number; no observation panics.\<close>

theorem histogram_counts:
  assumes F: "float_order F" and k: "f_kind f = KindHistogram" and s: "bounds f = sort_floats F bs"
    and e: "f_series f = []" and l: "length values = length (labelNames f)"
  shows "\<exists>f'. observe_all F vs values f = Return f'
    \<and> s_count (seriesFor F f' values) = of_nat (length vs)
    \<and> (\<forall>i < length (bounds f). cumulative 0 (s_buckets (seriesFor F f' values)) ! i
          = of_nat (length (filter (\<lambda>v. f_le F v (bounds f ! i)) vs)))"
proof -
  have ok: "family_ok f" "labelCount f values" using e l by (simp_all add: family_ok_def labelCount_def)
  have "seriesFor F f values = new_series F f values" using e by (simp add: seriesFor_def)
  then show ?thesis
    using observe_all_counts [OF F ok _ k, of vs] sort_floats_sorted [OF F, of bs] s k
    by (auto simp: new_series_def cumulative_zeros)
qed

section \<open>The text format\<close>

text \<open>A scraper's reading of a quoted label value: up to the first quote that is not escaped.\<close>

fun read_label :: "string \<Rightarrow> (string \<times> string) option" where
  "read_label [] = None"
| "read_label (c # cs) =
     (if c = CHR 0x22 then Some ([], cs)
      else if c = CHR 0x5C then
        (case cs of [] \<Rightarrow> None
         | d # ds \<Rightarrow> map_option (\<lambda>(v, rest). ((if d = CHR ''n'' then CHR 0x0A else d) # v, rest)) (read_label ds))
      else map_option (\<lambda>(v, rest). (c # v, rest)) (read_label cs))"

text \<open>C36: Label values cannot break the exposition format: whatever bytes a label value has, what is
  written reads back as that value, up to the closing quote and no further, and holds no newline.\<close>

theorem label_escape_roundtrip:
  "read_label (label_escape v @ CHR 0x22 # rest) = Some (v, rest) \<and> CHR 0x0A \<notin> set (label_escape v)"
  by (induction v) auto

lemma sort_range: "range_order ord \<Longrightarrow> sort (map fst (ord m)) = sort (map fst m)"
  by (rule properties_for_sort) (simp_all add: range_order_def)

lemma render_family_order: "range_order ord \<Longrightarrow> render_family F ord f = render_family F (\<lambda>m. m) f"
  by (simp add: render_family_def sort_range)

text \<open>C37: The output is deterministic: it does not depend on the order in which the runtime ranges over
  the series of a family.\<close>

theorem render_deterministic:
  assumes "range_order ord" and "range_order ord'"
  shows "Render F ord rt r = Render F ord' rt r"
  using assms render_family_order [of ord F] render_family_order [of ord' F]
  by (simp add: Render_def cong: map_cong)

lemma split_at_sep:
  "s @ x # r = u @ x # r' \<Longrightarrow> x \<notin> set s \<Longrightarrow> x \<notin> set u \<Longrightarrow> s = u \<and> r = r'"
proof (induction s arbitrary: u)
  case Nil
  then show ?case by (cases u) auto
next
  case (Cons a s)
  then show ?case by (cases u) auto
qed

lemma join_sep_eq:
  "length xs = length ys \<Longrightarrow> \<forall>x \<in> set xs \<union> set ys. sep \<notin> set x \<Longrightarrow>
     join_str xs [sep] = join_str ys [sep] \<Longrightarrow> xs = ys"
proof (induction xs "[sep]" arbitrary: ys rule: join_str.induct)
  case (3 s t ss)
  then obtain u v vs where ys: "ys = u # v # vs" by (metis length_Suc_conv)
  have "s @ sep # join_str (t # ss) [sep] = u @ sep # join_str (v # vs) [sep]"
    using 3 ys by simp
  moreover have "sep \<notin> set s" "sep \<notin> set u" using 3 ys by auto
  ultimately have "s = u \<and> join_str (t # ss) [sep] = join_str (v # vs) [sep]"
    by (rule split_at_sep)
  moreover from this have "t # ss = v # vs"
    by (intro "3.hyps") (use 3 ys in auto)
  ultimately show ?case using ys by simp
next
  case (2 s)
  then obtain u where "ys = [u]" by (metis length_0_conv length_Suc_conv)
  with 2 show ?case by simp
qed simp

text \<open>Label combinations do not mix: for label values without the byte 0xFF (any valid UTF-8), an
  operation on one combination leaves the series of every other combination as it was.\<close>

theorem series_separate:
  assumes l: "length values = length (labelNames f)" "length values' = length (labelNames f)"
    and utf: "\<forall>x \<in> set values \<union> set values'. CHR 0xFF \<notin> set x" and ne: "values' \<noteq> values"
  shows "\<exists>f1 f2. add F d values f = Return f1 \<and> observe F d values f = Return f2
    \<and> seriesFor F f1 values' = seriesFor F f values' \<and> seriesFor F f2 values' = seriesFor F f values'"
proof -
  have "series_key values' \<noteq> series_key values"
    using join_sep_eq [of values' "values" "CHR 0xFF"] l utf ne by (auto simp: series_key_def)
  then show ?thesis
    using l by (simp add: add_def observe_def labelCount_def Let_def seriesFor_put_other)
qed

section \<open>Concrete registries\<close>

text \<open>For the witnesses the float type is instantiated by the rationals.\<close>

definition rat_ops :: "rat float_ops" where
  "rat_ops = \<lparr>f_lit = (\<lambda>x. x), f_add = (+), f_le = (\<le>), f_format = (\<lambda>x. if x = 1 then ''1'' else ''?'')\<rparr>"

lemma rat_order: "float_order rat_ops"
  by (auto simp: float_order_def rat_ops_def)

definition sample_histogram :: "rat family" where
  "sample_histogram = \<lparr>f_name = ''h'', f_help = '''', f_kind = KindHistogram, labelNames = [''method''],
     bounds = sort_floats rat_ops [5, 1], f_series = []\<rparr>"

theorem histogram_counts_witness:
  "\<exists>f'. observe_all rat_ops [1, 3, 9, 2] [''GET''] sample_histogram = Return f'
    \<and> cumulative 0 (s_buckets (seriesFor rat_ops f' [''GET''])) ! 1 = 3"
  using histogram_counts [OF rat_order, of sample_histogram "[5, 1]" "[''GET'']" "[1, 3, 9, 2]"]
  by (auto simp: sample_histogram_def sort_floats_def rat_ops_def)

definition sample_registry :: "rat registry" where
  "sample_registry = \<lparr>families = [\<lparr>f_name = ''c'', f_help = '''', f_kind = KindCounter, labelNames = [''m''],
     bounds = [], f_series =
       [(''PUT'', \<lparr>s_labels = [''PUT''], s_value = 1, s_count = 0, s_sum = 0, s_buckets = []\<rparr>),
        (''GET'', \<lparr>s_labels = [''GET''], s_value = 1, s_count = 0, s_sum = 0, s_buckets = []\<rparr>)]\<rparr>],
     byName = {''c''}\<rparr>"

theorem render_deterministic_witness:
  "Render rat_ops rev (3, 4) sample_registry = Render rat_ops (\<lambda>m. m) (3, 4) sample_registry"
  by (rule render_deterministic [OF range_order_rev range_order_id])

theorem series_separate_witness:
  "\<exists>f1 f2. add rat_ops 1 [''GET''] sample_histogram = Return f1
    \<and> observe rat_ops 1 [''GET''] sample_histogram = Return f2
    \<and> seriesFor rat_ops f1 [''PUT''] = seriesFor rat_ops sample_histogram [''PUT'']
    \<and> seriesFor rat_ops f2 [''PUT''] = seriesFor rat_ops sample_histogram [''PUT'']"
  by (rule series_separate) (simp_all add: sample_histogram_def)

end
