(* ===== verification/Store.thy ===== *)
theory Store
  imports GoPrelude
begin

text \<open>
  internal/store/store.go: opening the database, the migrations, and the Runtime Configuration.

  database/sql with the SQLite driver is not part of the repository. It is the argument \<open>D\<close>, a
  record of the calls the code makes, on a state of an unknown type: a call may fail, and a failure
  is part of the state's behaviour. \<open>driver_ok\<close> says what the proofs rely on, the documented
  meaning of the six SQL texts, of transactions and of \<open>Rows\<close>.
\<close>

section \<open>The driver\<close>

record rows =
  rows_scan :: "(string + string list) list"
  rows_err :: "string option"
  rows_close :: "string option"

datatype rollback = RbOk | RbTxDone | RbErr string

record 'd driver =
  d_open :: "string \<Rightarrow> string + 'd"
  d_close :: "'d \<Rightarrow> string option \<times> 'd"
  d_set_max_open :: "nat \<Rightarrow> 'd \<Rightarrow> 'd"
  d_ping :: "'d \<Rightarrow> string option"
  d_exec :: "string \<Rightarrow> string list \<Rightarrow> 'd \<Rightarrow> string option \<times> 'd"
  d_query :: "string \<Rightarrow> 'd \<Rightarrow> (string + rows) \<times> 'd"
  d_begin :: "'d \<Rightarrow> string option \<times> 'd"
  d_tx_exec :: "string \<Rightarrow> string list \<Rightarrow> 'd \<Rightarrow> string option \<times> 'd"
  d_commit :: "'d \<Rightarrow> string option \<times> 'd"
  d_rollback :: "'d \<Rightarrow> rollback \<times> 'd"

text \<open>An error is the context it was wrapped with and the driver's text.\<close>

datatype store_error = Wrapped string string | UnknownMigration string | Joined store_error store_error

definition sql_quoted :: "string \<Rightarrow> string" where
  "sql_quoted s = CHR 0x27 # s @ [CHR 0x27]"

definition lines :: "string list \<Rightarrow> string" where
  "lines ls = join_str ls [CHR 0x0A]"

text \<open>The text of an error: the wrapping context, or the quoted version.\<close>

fun store_error_text :: "store_error \<Rightarrow> string" where
  "store_error_text (Wrapped ctx e) = ctx @ '': '' @ e"
| "store_error_text (UnknownMigration v) =
     ''database is newer than this binary: unknown migration '' @ CHR 0x22 # v @ [CHR 0x22]"
| "store_error_text (Joined a b) = store_error_text a @ CHR 0x0A # store_error_text b"

definition create_sql :: string where
  "create_sql = lines
     [''CREATE TABLE IF NOT EXISTS schema_migrations ('',
      [CHR 0x09, CHR 0x09] @ ''version TEXT PRIMARY KEY,'',
      [CHR 0x09, CHR 0x09] @ ''applied_at TEXT NOT NULL DEFAULT (strftime('' @ sql_quoted ''%Y-%m-%dT%H:%M:%fZ''
        @ '','' @ sql_quoted ''now'' @ ''))'',
      [CHR 0x09] @ '')'']"

definition versions_sql :: string where
  "versions_sql = ''SELECT version FROM schema_migrations''"

definition insert_version_sql :: string where
  "insert_version_sql = ''INSERT INTO schema_migrations (version) VALUES (?)''"

definition list_sql :: string where
  "list_sql = ''SELECT key, value FROM config ORDER BY key''"

definition upsert_sql :: string where
  "upsert_sql = ''INSERT INTO config (key, value) VALUES (?, ?) ''
     @ ''ON CONFLICT(key) DO UPDATE SET value = excluded.value''"

definition wal_sql :: string where
  "wal_sql = ''PRAGMA journal_mode=WAL''"

section \<open>Runtime Configuration\<close>

record ConfigEntry =
  Key :: string
  Value :: string

definition is_key_char :: "char \<Rightarrow> bool" where
  "is_key_char c \<longleftrightarrow> is_lower c \<or> is_upper c \<or> is_digit c \<or> c = CHR ''-'' \<or> c = CHR ''_''"

definition ValidConfigKey :: "string \<Rightarrow> bool" where
  "ValidConfigKey key \<longleftrightarrow> key \<noteq> '''' \<and> list_all is_key_char key"

text \<open>The loop over the rows, then \<open>rows.Err\<close>, then the deferred \<open>Close\<close>, whose error counts only if there is no other.\<close>

fun scan_rows :: "(string list \<Rightarrow> 'a) \<Rightarrow> (string + string list) list \<Rightarrow> 'a list \<Rightarrow> string + 'a list" where
  "scan_rows f [] acc = Inr acc"
| "scan_rows f (Inl e # rs) acc = Inl e"
| "scan_rows f (Inr cols # rs) acc = scan_rows f rs (acc @ [f cols])"

definition read_rows :: "(string list \<Rightarrow> 'a) \<Rightarrow> rows \<Rightarrow> string + 'a list" where
  "read_rows f rws =
     (case scan_rows f (rows_scan rws) [] of
        Inl e \<Rightarrow> Inl e
      | Inr xs \<Rightarrow> (case rows_err rws of Some e \<Rightarrow> Inl e | None \<Rightarrow> Inr xs))"

definition with_close :: "rows \<Rightarrow> string \<Rightarrow> store_error + 'a \<Rightarrow> store_error + 'a" where
  "with_close rws ctx res =
     (case res of
        Inl e \<Rightarrow> Inl e
      | Inr x \<Rightarrow> (case rows_close rws of Some e \<Rightarrow> Inl (Wrapped ctx e) | None \<Rightarrow> Inr x))"

definition ListConfig :: "'d driver \<Rightarrow> 'd \<Rightarrow> (store_error + ConfigEntry list) \<times> 'd" where
  "ListConfig D d =
     (case d_query D list_sql d of
        (Inl e, d) \<Rightarrow> (Inl (Wrapped ''listing config'' e), d)
      | (Inr rws, d) \<Rightarrow>
          (with_close rws ''listing config''
             (case read_rows (\<lambda>cols. \<lparr>Key = cols ! 0, Value = cols ! 1\<rparr>) rws of
                Inl e \<Rightarrow> Inl (Wrapped ''listing config'' e)
              | Inr es \<Rightarrow> Inr es), d))"

definition SetConfig :: "'d driver \<Rightarrow> string \<Rightarrow> string \<Rightarrow> 'd \<Rightarrow> store_error option \<times> 'd" where
  "SetConfig D key val d =
     (case d_exec D upsert_sql [key, val] d of
        (Some e, d) \<Rightarrow> (Some (Wrapped ''setting config'' e), d)
      | (None, d) \<Rightarrow> (None, d))"

definition Ping :: "'d driver \<Rightarrow> 'd \<Rightarrow> string option" where
  "Ping D d = d_ping D d"

section \<open>Migrations\<close>

text \<open>\<open>migrationsFS\<close>: the embedded files, by name.\<close>

definition migrationsFS :: "(string \<times> string) list" where
  "migrationsFS = [(''migrations/0001_config.up.sql'', lines
     [''-- Runtime Configuration: application settings changeable while the app runs.'',
      ''CREATE TABLE config ('',
      ''    key   TEXT PRIMARY KEY,'',
      ''    value TEXT NOT NULL'',
      '');'',
      '''',
      ''INSERT INTO config (key, value) VALUES'',
      ''    ('' @ sql_quoted ''site_name'' @ '', '' @ sql_quoted ''Web App Template'' @ ''),'',
      ''    ('' @ sql_quoted ''motd'' @ '', '' @ sql_quoted ''Welcome.'' @ '');'',
      ''''])]"

text \<open>\<open>name[strings.LastIndex(name, "/")+1:]\<close>, then the suffix.\<close>

definition base_of :: "string \<Rightarrow> string" where
  "base_of name = rev (takeWhile (\<lambda>c. c \<noteq> CHR ''/'') (rev name))"

definition versionOf :: "string \<Rightarrow> string" where
  "versionOf name = trim_suffix (base_of name) ''.up.sql''"

definition applyMigration :: "'d driver \<Rightarrow> string \<Rightarrow> string \<Rightarrow> 'd \<Rightarrow> store_error option \<times> 'd" where
  "applyMigration D version sql d =
     (let ctx = ''migration '' @ version in
      case d_begin D d of
        (Some e, d) \<Rightarrow> (Some (Wrapped ctx e), d)
      | (None, d) \<Rightarrow>
          (let (err, d) =
             (case d_tx_exec D sql [] d of
                (Some e, d) \<Rightarrow> (Some (Wrapped ctx e), d)
              | (None, d) \<Rightarrow>
                  (case d_tx_exec D insert_version_sql [version] d of
                     (Some e, d) \<Rightarrow> (Some (Wrapped ctx e), d)
                   | (None, d) \<Rightarrow>
                       (case d_commit D d of
                          (Some e, d) \<Rightarrow> (Some (Wrapped ctx e), d)
                        | (None, d) \<Rightarrow> (None, d))));
             (rerr, d) = d_rollback D d
           in ((case (rerr, err) of
                  (RbErr e, None) \<Rightarrow> Some (Wrapped (ctx @ '': rollback'') e)
                | _ \<Rightarrow> err), d)))"

fun apply_loop :: "'d driver \<Rightarrow> string set \<Rightarrow> (string \<times> string) list \<Rightarrow> 'd \<Rightarrow> store_error option \<times> 'd" where
  "apply_loop D applied [] d = (None, d)"
| "apply_loop D applied ((name, sql) # fs) d =
     (if versionOf name \<in> applied then apply_loop D applied fs d
      else case applyMigration D (versionOf name) sql d of
        (Some e, d) \<Rightarrow> (Some e, d)
      | (None, d) \<Rightarrow> apply_loop D applied fs d)"

fun unknown_version :: "string set \<Rightarrow> string list \<Rightarrow> string option" where
  "unknown_version known [] = None"
| "unknown_version known (v # vs) = (if v \<notin> known then Some v else unknown_version known vs)"

text \<open>
  \<open>migrate\<close>, for an arbitrary embedded file system: sorted by name, which also is the order of
  \<open>sort.Strings\<close> on the globbed names.
\<close>

definition migrate :: "'d driver \<Rightarrow> (string \<times> string) list \<Rightarrow> 'd \<Rightarrow> store_error option \<times> 'd" where
  "migrate D fs d =
     (case d_exec D create_sql [] d of
        (Some e, d) \<Rightarrow> (Some (Wrapped ''creating schema_migrations'' e), d)
      | (None, d) \<Rightarrow>
          (let names = sort_key fst fs;
               known = set (map (\<lambda>(n, _). versionOf n) names)
           in case d_query D versions_sql d of
                (Inl e, d) \<Rightarrow> (Some (Wrapped ''reading schema_migrations'' e), d)
              | (Inr rws, d) \<Rightarrow>
                  (let (err, d) =
                     (case read_rows (\<lambda>cols. cols ! 0) rws of
                        Inl e \<Rightarrow> (Some (Wrapped ''reading schema_migrations'' e), d)
                      | Inr applied \<Rightarrow>
                          (case unknown_version known applied of
                             Some v \<Rightarrow> (Some (UnknownMigration v), d)
                           | None \<Rightarrow> apply_loop D (set applied) names d))
                   in (case (err, rows_close rws) of
                         (None, Some e) \<Rightarrow> Some (Wrapped ''reading schema_migrations'' e)
                       | _ \<Rightarrow> err, d))))"

definition Open :: "'d driver \<Rightarrow> string \<Rightarrow> store_error + 'd" where
  "Open D path =
     (case d_open D path of
        Inl e \<Rightarrow> Inl (Wrapped ''opening database'' e)
      | Inr d \<Rightarrow>
          (let d = d_set_max_open D 1 d;
               (err, d) =
                 (case d_exec D wal_sql [] d of
                    (Some e, d) \<Rightarrow> (Some (Wrapped ''enabling WAL'' e), d)
                  | (None, d) \<Rightarrow>
                      (case d_ping D d of
                         Some e \<Rightarrow> (Some (Wrapped ''pinging database'' e), d)
                       | None \<Rightarrow> migrate D migrationsFS d))
           in case err of
                None \<Rightarrow> Inr d
              | Some e \<Rightarrow>
                  (case fst (d_close D d) of
                     None \<Rightarrow> Inl e
                   | Some ce \<Rightarrow> Inl (Joined e (Wrapped ''closing database'' ce)))))"

section \<open>What the driver promises\<close>

text \<open>
  A database as the code sees it: the rows of \<open>schema_migrations\<close> once the table exists, and the
  rest of the schema, of which the model knows only the rows of \<open>config\<close>. A driver state has the
  committed database and, in a transaction, the database the transaction sees. \<open>plain\<close> are the texts a
  migration may have: statements that neither control transactions nor touch \<open>schema_migrations\<close>.
\<close>

record 'r db =
  versions :: "string list option"
  tables :: 'r

record ('d, 'r) db_view =
  com :: "'d \<Rightarrow> 'r db"
  tx :: "'d \<Rightarrow> 'r db option"
  plain :: "string \<Rightarrow> bool"
  eff :: "string \<Rightarrow> 'r \<Rightarrow> 'r option"
  config_of :: "'r \<Rightarrow> (string \<rightharpoonup> string)"

text \<open>Rows are the expected ones, unless one of them or their end is an error.\<close>

definition rows_match :: "rows \<Rightarrow> string list list \<Rightarrow> bool" where
  "rows_match rws vals \<longleftrightarrow>
     (rows_scan rws = map Inr vals \<or> (\<exists>e. Inl e \<in> set (rows_scan rws)) \<or> rows_err rws \<noteq> None)"

definition idle :: "('d, 'r) db_view \<Rightarrow> 'd \<Rightarrow> 'r db \<Rightarrow> bool" where
  "idle V d b \<longleftrightarrow> com V d = b \<and> tx V d = None"

definition in_tx :: "('d, 'r) db_view \<Rightarrow> 'd \<Rightarrow> 'r db \<Rightarrow> 'r db \<Rightarrow> bool" where
  "in_tx V d b t \<longleftrightarrow> com V d = b \<and> tx V d = Some t"

text \<open>Entries in the order of their keys.\<close>

definition sorted_rows :: "(string \<rightharpoonup> string) \<Rightarrow> string list list" where
  "sorted_rows m = map (\<lambda>k. [k, the (m k)]) (sorted_list_of_set (dom m))"

definition driver_ok :: "'d driver \<Rightarrow> ('d, 'r) db_view \<Rightarrow> bool" where
  "driver_ok D V \<longleftrightarrow>
     \<comment> \<open>outside a transaction: a failed statement changes nothing\<close>
     (\<forall>d b err d'. idle V d b \<and> d_exec D create_sql [] d = (err, d') \<longrightarrow>
        idle V d' (if err = None then b\<lparr>versions := Some (case versions b of None \<Rightarrow> [] | Some vs \<Rightarrow> vs)\<rparr> else b)) \<and>
     (\<forall>d b k v err d'. idle V d b \<and> d_exec D upsert_sql [k, v] d = (err, d') \<longrightarrow>
        (if err = None then \<exists>b'. idle V d' b' \<and> versions b' = versions b
             \<and> config_of V (tables b') = (config_of V (tables b))(k \<mapsto> v)
         else idle V d' b)) \<and>
     (\<forall>d b res d'. idle V d b \<and> d_query D versions_sql d = (res, d') \<longrightarrow> idle V d' b \<and>
        (\<forall>rws vs. res = Inr rws \<and> versions b = Some vs \<longrightarrow> rows_match rws (map (\<lambda>v. [v]) vs))) \<and>
     (\<forall>d b res d'. idle V d b \<and> d_query D list_sql d = (res, d') \<longrightarrow> idle V d' b \<and>
        (\<forall>rws. res = Inr rws \<longrightarrow> rows_match rws (sorted_rows (config_of V (tables b))))) \<and>
     \<comment> \<open>transactions: isolated until the commit, gone after the rollback\<close>
     (\<forall>d b err d'. idle V d b \<and> d_begin D d = (err, d') \<longrightarrow>
        (if err = None then in_tx V d' b b else idle V d' b)) \<and>
     (\<forall>d b t sql err d'. in_tx V d b t \<and> plain V sql \<and> d_tx_exec D sql [] d = (err, d') \<longrightarrow>
        (if err = None then \<exists>r. eff V sql (tables t) = Some r \<and> in_tx V d' b (t\<lparr>tables := r\<rparr>)
         else \<exists>t'. in_tx V d' b t')) \<and>
     (\<forall>d b t v err d'. in_tx V d b t \<and> d_tx_exec D insert_version_sql [v] d = (err, d') \<longrightarrow>
        (if err = None then \<exists>vs. versions t = Some vs \<and> v \<notin> set vs \<and> in_tx V d' b (t\<lparr>versions := Some (vs @ [v])\<rparr>)
         else \<exists>t'. in_tx V d' b t')) \<and>
     (\<forall>d b t err d'. in_tx V d b t \<and> d_commit D d = (err, d') \<longrightarrow>
        idle V d' (if err = None then t else b)) \<and>
     (\<forall>d b rb d'. idle V d b \<and> d_rollback D d = (rb, d') \<longrightarrow> rb = RbTxDone \<and> idle V d' b) \<and>
     (\<forall>d b t rb d'. in_tx V d b t \<and> d_rollback D d = (rb, d') \<longrightarrow> idle V d' b) \<and>
     (\<forall>r. finite (dom (config_of V r)))"

lemma driver_okD:
  assumes "driver_ok D V"
  shows
    "idle V d b \<Longrightarrow> d_exec D create_sql [] d = (err, d') \<Longrightarrow>
       idle V d' (if err = None then b\<lparr>versions := Some (case versions b of None \<Rightarrow> [] | Some vs \<Rightarrow> vs)\<rparr> else b)"
    "idle V d b \<Longrightarrow> d_exec D upsert_sql [k, v] d = (err, d') \<Longrightarrow>
       (if err = None then \<exists>b'. idle V d' b' \<and> versions b' = versions b
             \<and> config_of V (tables b') = (config_of V (tables b))(k \<mapsto> v)
         else idle V d' b)"
    "idle V d b \<Longrightarrow> d_query D versions_sql d = (res, d') \<Longrightarrow> idle V d' b \<and>
        (\<forall>rws vs. res = Inr rws \<and> versions b = Some vs \<longrightarrow> rows_match rws (map (\<lambda>v. [v]) vs))"
    "idle V d b \<Longrightarrow> d_query D list_sql d = (res, d') \<Longrightarrow> idle V d' b \<and>
        (\<forall>rws. res = Inr rws \<longrightarrow> rows_match rws (sorted_rows (config_of V (tables b))))"
    "idle V d b \<Longrightarrow> d_begin D d = (err, d') \<Longrightarrow> (if err = None then in_tx V d' b b else idle V d' b)"
    "in_tx V d b t \<Longrightarrow> plain V sql \<Longrightarrow> d_tx_exec D sql [] d = (err, d') \<Longrightarrow>
        (if err = None then \<exists>r. eff V sql (tables t) = Some r \<and> in_tx V d' b (t\<lparr>tables := r\<rparr>)
         else \<exists>t'. in_tx V d' b t')"
    "in_tx V d b t \<Longrightarrow> d_tx_exec D insert_version_sql [v] d = (err, d') \<Longrightarrow>
        (if err = None then \<exists>vs. versions t = Some vs \<and> v \<notin> set vs \<and> in_tx V d' b (t\<lparr>versions := Some (vs @ [v])\<rparr>)
         else \<exists>t'. in_tx V d' b t')"
    "in_tx V d b t \<Longrightarrow> d_commit D d = (err, d') \<Longrightarrow> idle V d' (if err = None then t else b)"
    "idle V d b \<Longrightarrow> d_rollback D d = (rb, d') \<Longrightarrow> rb = RbTxDone \<and> idle V d' b"
    "in_tx V d b t \<Longrightarrow> d_rollback D d = (rb, d') \<Longrightarrow> idle V d' b"
proof -
  note c = assms [unfolded driver_ok_def]
  show "idle V d b \<Longrightarrow> d_exec D create_sql [] d = (err, d') \<Longrightarrow>
       idle V d' (if err = None then b\<lparr>versions := Some (case versions b of None \<Rightarrow> [] | Some vs \<Rightarrow> vs)\<rparr> else b)"
    using c [THEN conjunct1] by blast
  show "idle V d b \<Longrightarrow> d_exec D upsert_sql [k, v] d = (err, d') \<Longrightarrow>
       (if err = None then \<exists>b'. idle V d' b' \<and> versions b' = versions b
             \<and> config_of V (tables b') = (config_of V (tables b))(k \<mapsto> v)
         else idle V d' b)"
    using c [THEN conjunct2, THEN conjunct1] by blast
  show "idle V d b \<Longrightarrow> d_query D versions_sql d = (res, d') \<Longrightarrow> idle V d' b \<and>
        (\<forall>rws vs. res = Inr rws \<and> versions b = Some vs \<longrightarrow> rows_match rws (map (\<lambda>v. [v]) vs))"
    using c [THEN conjunct2, THEN conjunct2, THEN conjunct1] by blast
  show "idle V d b \<Longrightarrow> d_query D list_sql d = (res, d') \<Longrightarrow> idle V d' b \<and>
        (\<forall>rws. res = Inr rws \<longrightarrow> rows_match rws (sorted_rows (config_of V (tables b))))"
    using c [THEN conjunct2, THEN conjunct2, THEN conjunct2, THEN conjunct1] by blast
  show "idle V d b \<Longrightarrow> d_begin D d = (err, d') \<Longrightarrow> (if err = None then in_tx V d' b b else idle V d' b)"
    using c [THEN conjunct2, THEN conjunct2, THEN conjunct2, THEN conjunct2, THEN conjunct1] by blast
  show "in_tx V d b t \<Longrightarrow> plain V sql \<Longrightarrow> d_tx_exec D sql [] d = (err, d') \<Longrightarrow>
        (if err = None then \<exists>r. eff V sql (tables t) = Some r \<and> in_tx V d' b (t\<lparr>tables := r\<rparr>)
         else \<exists>t'. in_tx V d' b t')"
    using c [THEN conjunct2, THEN conjunct2, THEN conjunct2, THEN conjunct2, THEN conjunct2, THEN conjunct1] by blast
  show "in_tx V d b t \<Longrightarrow> d_tx_exec D insert_version_sql [v] d = (err, d') \<Longrightarrow>
        (if err = None then \<exists>vs. versions t = Some vs \<and> v \<notin> set vs \<and> in_tx V d' b (t\<lparr>versions := Some (vs @ [v])\<rparr>)
         else \<exists>t'. in_tx V d' b t')"
    using c [THEN conjunct2, THEN conjunct2, THEN conjunct2, THEN conjunct2, THEN conjunct2, THEN conjunct2, THEN conjunct1] by blast
  show "in_tx V d b t \<Longrightarrow> d_commit D d = (err, d') \<Longrightarrow> idle V d' (if err = None then t else b)"
    using c [THEN conjunct2, THEN conjunct2, THEN conjunct2, THEN conjunct2, THEN conjunct2, THEN conjunct2, THEN conjunct2, THEN conjunct1] by blast
  show "idle V d b \<Longrightarrow> d_rollback D d = (rb, d') \<Longrightarrow> rb = RbTxDone \<and> idle V d' b"
    using c [THEN conjunct2, THEN conjunct2, THEN conjunct2, THEN conjunct2, THEN conjunct2, THEN conjunct2, THEN conjunct2, THEN conjunct2, THEN conjunct1] by blast
  show "in_tx V d b t \<Longrightarrow> d_rollback D d = (rb, d') \<Longrightarrow> idle V d' b"
    using c [THEN conjunct2, THEN conjunct2, THEN conjunct2, THEN conjunct2, THEN conjunct2, THEN conjunct2, THEN conjunct2, THEN conjunct2, THEN conjunct2, THEN conjunct1] by blast
qed

lemma driver_finite: "driver_ok D V \<Longrightarrow> finite (dom (config_of V r))"
  by (simp add: driver_ok_def)

section \<open>Reading rows\<close>

lemma scan_rows_Inr: "scan_rows f (map Inr vals) acc = Inr (acc @ map f vals)"
  by (induction vals arbitrary: acc) simp_all

lemma scan_rows_Inl: "Inl e \<in> set rs \<Longrightarrow> \<exists>e'. scan_rows f rs acc = Inl e'"
  by (induction f rs acc rule: scan_rows.induct) auto

text \<open>A query whose rows can all be read to their end.\<close>

definition rows_readable :: "'d driver \<Rightarrow> string \<Rightarrow> 'd \<Rightarrow> bool" where
  "rows_readable D sql d \<longleftrightarrow> (case fst (d_query D sql d) of
     Inl _ \<Rightarrow> False
   | Inr rws \<Rightarrow> (\<forall>x \<in> set (rows_scan rws). \<exists>cols. x = Inr cols) \<and> rows_err rws = None \<and> rows_close rws = None)"

lemma scan_rows_total: "(\<exists>xs. scan_rows f rs acc = Inr xs) \<longleftrightarrow> (\<forall>x \<in> set rs. \<exists>cols. x = Inr cols)"
  by (induction f rs acc rule: scan_rows.induct) auto

lemma ListConfig_rows_readable: "(\<exists>es. fst (ListConfig D d) = Inr es) \<longleftrightarrow> rows_readable D list_sql d"
proof (cases "d_query D list_sql d")
  case (Pair q d')
  show ?thesis
  proof (cases q)
    case (Inr rws)
    show ?thesis
      using scan_rows_total [of "\<lambda>cols. \<lparr>Key = cols ! 0, Value = cols ! 1\<rparr>" "rows_scan rws" "[]"] Pair Inr
      by (cases "scan_rows (\<lambda>cols. \<lparr>Key = cols ! 0, Value = cols ! 1\<rparr>) (rows_scan rws) []"; cases "rows_err rws";
          cases "rows_close rws"; simp add: ListConfig_def rows_readable_def read_rows_def with_close_def)
  qed (simp add: ListConfig_def rows_readable_def Pair)
qed

lemma read_rows_match: "rows_match rws vals \<Longrightarrow> read_rows f rws = Inr xs \<Longrightarrow> xs = map f vals"
  by (auto simp: rows_match_def read_rows_def scan_rows_Inr dest!: scan_rows_Inl [of _ _ f "[]"]
      split: option.splits sum.splits)

text \<open>\<open>ListConfig\<close> and \<open>SetConfig\<close> in terms of the view.\<close>

definition entries_of :: "(string \<rightharpoonup> string) \<Rightarrow> ConfigEntry list" where
  "entries_of m = map (\<lambda>k. \<lparr>Key = k, Value = the (m k)\<rparr>) (sorted_list_of_set (dom m))"

lemma ListConfig_view:
  assumes D: "driver_ok D V" and d: "idle V d b" and l: "ListConfig D d = (res, d')"
  shows "idle V d' b" "res = Inr es \<Longrightarrow> es = entries_of (config_of V (tables b))"
proof -
  obtain q d1 where q: "d_query D list_sql d = (q, d1)" by (cases "d_query D list_sql d")
  note view = driver_okD(4) [OF D d q]
  show "idle V d' b" using view l q by (auto simp: ListConfig_def split: sum.splits)
  assume "res = Inr es"
  with l q obtain rws where "q = Inr rws" "read_rows (\<lambda>cols. \<lparr>Key = cols ! 0, Value = cols ! 1\<rparr>) rws = Inr es"
    by (auto simp: ListConfig_def with_close_def split: sum.splits option.splits)
  with view read_rows_match show "es = entries_of (config_of V (tables b))"
    by (fastforce simp: entries_of_def sorted_rows_def)
qed

lemma SetConfig_view:
  assumes D: "driver_ok D V" and d: "idle V d b" and s: "SetConfig D k v d = (err, d')"
  shows "err = None \<Longrightarrow> \<exists>b'. idle V d' b' \<and> versions b' = versions b
      \<and> config_of V (tables b') = (config_of V (tables b))(k \<mapsto> v)"
    "err \<noteq> None \<Longrightarrow> idle V d' b"
proof -
  obtain e d1 where e: "d_exec D upsert_sql [k, v] d = (e, d1)" by (cases "d_exec D upsert_sql [k, v] d")
  note view = driver_okD(2) [OF D d e]
  show "err = None \<Longrightarrow> \<exists>b'. idle V d' b' \<and> versions b' = versions b
      \<and> config_of V (tables b') = (config_of V (tables b))(k \<mapsto> v)"
    "err \<noteq> None \<Longrightarrow> idle V d' b"
    using view s e by (auto simp: SetConfig_def split: option.splits)
qed

section \<open>Migrations are atomic\<close>

lemma applyMigration_view:
  assumes D: "driver_ok D V" and d: "idle V d b" and sql: "plain V sql"
    and a: "applyMigration D v sql d = (err, d')"
  shows "err = None \<Longrightarrow> \<exists>vs r. versions b = Some vs \<and> v \<notin> set vs \<and> eff V sql (tables b) = Some r
      \<and> idle V d' (b\<lparr>tables := r, versions := Some (vs @ [v])\<rparr>)"
    "err \<noteq> None \<Longrightarrow> idle V d' b"
proof -
  have "if err = None then \<exists>vs r. versions b = Some vs \<and> v \<notin> set vs \<and> eff V sql (tables b) = Some r
      \<and> idle V d' (b\<lparr>tables := r, versions := Some (vs @ [v])\<rparr>) else idle V d' b" (is "?goal")
  proof (cases "d_begin D d")
    case (Pair e1 d1)
    note b1 = driver_okD(5) [OF D d Pair]
    obtain rb0 where rollback: "\<And>t x. in_tx V x b t \<Longrightarrow> idle V (snd (d_rollback D x)) b"
      using driver_okD(10) [OF D] by (metis prod.collapse)
    show ?thesis
    proof (cases e1)
      case (Some e)
      then show ?thesis using b1 a Pair by (auto simp: applyMigration_def)
    next
      case None
      with b1 have t1: "in_tx V d1 b b" by simp
      obtain e2 d2 where 2: "d_tx_exec D sql [] d1 = (e2, d2)" by fastforce
      note b2 = driver_okD(6) [OF D t1 sql 2]
      show ?thesis
      proof (cases e2)
        case (Some e)
        with b2 obtain t' where "in_tx V d2 b t'" by auto
        from rollback [OF this] show ?thesis
          using a Pair None 2 Some by (auto simp: applyMigration_def Let_def split: prod.splits rollback.splits)
      next
        case n2: None
        with b2 obtain r where r: "eff V sql (tables b) = Some r" and t2: "in_tx V d2 b (b\<lparr>tables := r\<rparr>)"
          by auto
        obtain e3 d3 where 3: "d_tx_exec D insert_version_sql [v] d2 = (e3, d3)" by fastforce
        note b3 = driver_okD(7) [OF D t2 3]
        show ?thesis
        proof (cases e3)
          case (Some e)
          with b3 obtain t' where "in_tx V d3 b t'" by auto
          from rollback [OF this] show ?thesis
            using a Pair None 2 n2 3 Some
            by (auto simp: applyMigration_def Let_def split: prod.splits rollback.splits)
        next
          case n3: None
          with b3 obtain vs where vs: "versions b = Some vs" "v \<notin> set vs"
            and t3: "in_tx V d3 b (b\<lparr>tables := r, versions := Some (vs @ [v])\<rparr>)"
            by auto
          obtain e4 d4 where 4: "d_commit D d3 = (e4, d4)" by fastforce
          note b4 = driver_okD(8) [OF D t3 4]
          obtain rb d5 where 5: "d_rollback D d4 = (rb, d5)" by fastforce
          have "rb = RbTxDone \<and> idle V d5 (if e4 = None then b\<lparr>tables := r, versions := Some (vs @ [v])\<rparr> else b)"
            using driver_okD(9) [OF D b4 5] by simp
          then show ?thesis
            using a Pair None 2 n2 3 n3 4 5 vs r by (auto simp: applyMigration_def Let_def split: option.splits)
        qed
      qed
    qed
  qed
  then show "err = None \<Longrightarrow> \<exists>vs r. versions b = Some vs \<and> v \<notin> set vs \<and> eff V sql (tables b) = Some r
      \<and> idle V d' (b\<lparr>tables := r, versions := Some (vs @ [v])\<rparr>)"
    "err \<noteq> None \<Longrightarrow> idle V d' b" by simp_all
qed

text \<open>The specification: applying files in order, each recorded under its version.\<close>

fun migrated :: "('d, 'r) db_view \<Rightarrow> (string \<times> string) list \<Rightarrow> 'r db \<Rightarrow> 'r db option" where
  "migrated V [] b = Some b"
| "migrated V ((name, sql) # fs) b =
     (case (versions b, eff V sql (tables b)) of
        (Some vs, Some r) \<Rightarrow>
          if versionOf name \<in> set vs then None
          else migrated V fs (b\<lparr>tables := r, versions := Some (vs @ [versionOf name])\<rparr>)
      | _ \<Rightarrow> None)"

definition pending :: "string set \<Rightarrow> (string \<times> string) list \<Rightarrow> (string \<times> string) list" where
  "pending applied fs = filter (\<lambda>(name, _). versionOf name \<notin> applied) fs"

lemma pending_simps [simp]:
  "pending A [] = []"
  "pending A ((name, sql) # fs) = (if versionOf name \<in> A then pending A fs else (name, sql) # pending A fs)"
  by (simp_all add: pending_def)

lemma apply_loop_view:
  assumes D: "driver_ok D V"
  shows "idle V d b \<Longrightarrow> \<forall>(_, sql) \<in> set fs. plain V sql \<Longrightarrow>
    apply_loop D A fs d = (err, d') \<Longrightarrow>
    \<exists>n b'. n \<le> length (pending A fs) \<and> migrated V (take n (pending A fs)) b = Some b' \<and> idle V d' b'
      \<and> (err = None \<longrightarrow> n = length (pending A fs))"
proof (induction fs arbitrary: d b)
  case Nil
  then show ?case by auto
next
  case (Cons f fs)
  obtain name sql where f: "f = (name, sql)" by (cases f)
  note prems = Cons.prems [unfolded f]
  show ?case
  proof (cases "versionOf name \<in> A")
    case True
    with Cons.IH [OF prems(1)] prems show ?thesis by (simp add: f)
  next
    case False
    obtain e d1 where a: "applyMigration D (versionOf name) sql d = (e, d1)" by fastforce
    have ne: "plain V sql" using prems(2) by auto
    note view = applyMigration_view [OF D prems(1) ne a]
    show ?thesis
    proof (cases e)
      case (Some x)
      then have "idle V d' b" "err = Some x" using view(2) a False prems(3) by auto
      then show ?thesis using False by (intro exI [of _ 0] exI [of _ b]) (simp add: f)
    next
      case None
      then obtain vs r where s: "versions b = Some vs" "versionOf name \<notin> set vs"
        "eff V sql (tables b) = Some r" "idle V d1 (b\<lparr>tables := r, versions := Some (vs @ [versionOf name])\<rparr>)"
        using view(1) by auto
      have "apply_loop D A fs d1 = (err, d')" using prems(3) a None False by simp
      then obtain n b' where n: "n \<le> length (pending A fs)"
        "migrated V (take n (pending A fs)) (b\<lparr>tables := r, versions := Some (vs @ [versionOf name])\<rparr>) = Some b'"
        "idle V d' b'" "err = None \<longrightarrow> n = length (pending A fs)"
        using Cons.IH [OF s(4)] prems(2) by auto
      then show ?thesis using False s by (intro exI [of _ "Suc n"] exI [of _ b']) (auto simp: f)
    qed
  qed
qed

lemma unknown_version_None: "unknown_version known vs = None \<longleftrightarrow> set vs \<subseteq> known"
  by (induction vs) auto

text \<open>The version table as \<open>migrate\<close> finds it after its first statement.\<close>

definition recorded :: "'r db \<Rightarrow> string list" where
  "recorded b = (case versions b of None \<Rightarrow> [] | Some vs \<Rightarrow> vs)"

definition with_table :: "'r db \<Rightarrow> 'r db" where
  "with_table b = b\<lparr>versions := Some (recorded b)\<rparr>"

definition known_versions :: "(string \<times> string) list \<Rightarrow> string set" where
  "known_versions fs = set (map (\<lambda>(n, _). versionOf n) fs)"

lemma migrate_view:
  assumes D: "driver_ok D V" and d: "idle V d b" and fs: "\<forall>(_, sql) \<in> set fs. plain V sql"
    and m: "migrate D fs d = (err, d')"
  defines "todo \<equiv> pending (set (recorded b)) (sort_key fst fs)"
  shows "\<exists>b'. idle V d' b' \<and>
    (if err = None then migrated V todo (with_table b) = Some b' \<and> set (recorded b) \<subseteq> known_versions fs
     else b' = b \<or> (\<exists>n \<le> length todo. migrated V (take n todo) (with_table b) = Some b' \<and>
        (0 < n \<longrightarrow> set (recorded b) \<subseteq> known_versions fs)))"
proof -
  obtain e1 d1 where 1: "d_exec D create_sql [] d = (e1, d1)" by fastforce
  note b1 = driver_okD(1) [OF D d 1]
  show ?thesis
  proof (cases e1)
    case (Some e)
    then show ?thesis using b1 m 1 by (auto simp: migrate_def)
  next
    case None
    then have i1: "idle V d1 (with_table b)" using b1 by (simp add: with_table_def recorded_def)
    obtain q d2 where 2: "d_query D versions_sql d1 = (q, d2)" by fastforce
    have i2: "idle V d2 (with_table b)"
      and match: "\<And>rws. q = Inr rws \<Longrightarrow> rows_match rws (map (\<lambda>v. [v]) (recorded b))"
      using driver_okD(3) [OF D i1 2] by (auto simp: with_table_def)
    have stop: ?thesis if "idle V d' (with_table b)" "err \<noteq> None"
      using that by (intro exI [of _ "with_table b"]) (auto intro!: exI [of _ 0])
    show ?thesis
    proof (cases q)
      case (Inl e)
      with m 1 None 2 i2 stop show ?thesis by (auto simp: migrate_def Let_def)
    next
      case (Inr rws)
      show ?thesis
      proof (cases "read_rows (\<lambda>cols. cols ! 0) rws")
        case e: (Inl e)
        with m 1 None 2 Inr i2 stop show ?thesis by (auto simp: migrate_def Let_def)
      next
        case r: (Inr applied)
        have app: "applied = recorded b"
          using read_rows_match [OF match [OF Inr] r] by (simp add: comp_def)
        have k: "set (map (\<lambda>(n, _). versionOf n) (sort_key fst fs)) = known_versions fs"
          by (simp add: known_versions_def)
        show ?thesis
        proof (cases "unknown_version (known_versions fs) applied")
          case u: (Some v)
          with m 1 None 2 Inr r k i2 stop show ?thesis by (auto simp: migrate_def Let_def)
        next
          case u: None
          obtain e3 d3 where 3: "apply_loop D (set applied) (sort_key fst fs) d2 = (e3, d3)" by fastforce
          have fs': "\<forall>(_, sql) \<in> set (sort_key fst fs). plain V sql" using fs by simp
          obtain n b' where n: "n \<le> length todo" "migrated V (take n todo) (with_table b) = Some b'"
            "idle V d3 b'" "e3 = None \<longrightarrow> n = length todo"
            using apply_loop_view [OF D i2 fs' 3] app by (auto simp: todo_def)
          have "d' = d3" "err = None \<longrightarrow> e3 = None"
            using m 1 None 2 Inr r k u 3 by (auto simp: migrate_def Let_def split: option.splits)
          moreover have "set (recorded b) \<subseteq> known_versions fs"
            using u app by (simp add: unknown_version_None)
          ultimately show ?thesis using n by (intro exI [of _ b']) auto
        qed
      qed
    qed
  qed
qed

lemma migrated_versions:
  "migrated V fs b = Some b' \<Longrightarrow> recorded b' = recorded b @ map (\<lambda>(n, _). versionOf n) fs
    \<and> (fs \<noteq> [] \<or> versions b \<noteq> None \<longrightarrow> versions b' \<noteq> None)"
  by (induction V fs b rule: migrated.induct)
    (auto simp: recorded_def split: option.splits if_splits)

section \<open>The configuration store as an interface\<close>

text \<open>What the pages and the API rely on.\<close>

locale config_store =
  fixes listing :: "'s \<Rightarrow> ('e + ConfigEntry list) \<times> 's"
    and setting :: "string \<Rightarrow> string \<Rightarrow> 's \<Rightarrow> 'e option \<times> 's"
    and invar :: "'s \<Rightarrow> bool" and view :: "'s \<Rightarrow> (string \<rightharpoonup> string)"
  assumes list_keeps: "invar s \<Longrightarrow> listing s = (r, s') \<Longrightarrow> invar s' \<and> view s' = view s"
    and list_entries: "invar s \<Longrightarrow> listing s = (Inr es, s') \<Longrightarrow> es = entries_of (view s)"
    and set_done: "invar s \<Longrightarrow> setting k v s = (None, s') \<Longrightarrow> invar s' \<and> view s' = (view s)(k \<mapsto> v)"
    and set_failed: "invar s \<Longrightarrow> setting k v s = (Some e, s') \<Longrightarrow> invar s' \<and> view s' = view s"
    and view_finite: "invar s \<Longrightarrow> finite (dom (view s))"
begin

lemma listed_iff:
  assumes "invar s" and "listing s = (Inr es, s')"
  shows "\<lparr>Key = k, Value = v\<rparr> \<in> set es \<longleftrightarrow> view s k = Some v"
  using list_entries [OF assms] view_finite [OF assms(1)]
  by (auto simp: entries_of_def)

lemma listed_sorted:
  assumes "invar s" and "listing s = (Inr es, s')"
  shows "sorted (map Key es)" "distinct (map Key es)"
  using list_entries [OF assms] by (simp_all add: entries_of_def comp_def)

lemma set_view:
  "invar s \<Longrightarrow> setting k v s = (r, s') \<Longrightarrow>
     invar s' \<and> view s' = (if r = None then (view s)(k \<mapsto> v) else view s)"
  using set_done [of s k v s'] set_failed [of s k v "the r" s'] by (cases r) auto

end

interpretation db: config_store "ListConfig D" "SetConfig D" "\<lambda>d. driver_ok D V \<and> tx V d = None"
  "\<lambda>d. config_of V (tables (com V d))"
proof
  fix s r s'
  assume "driver_ok D V \<and> tx V s = None" and l: "ListConfig D s = (r, s')"
  then have i: "idle V s (com V s)" "driver_ok D V" by (simp_all add: idle_def)
  from ListConfig_view(1) [OF i(2,1) l] i(2)
  show "(driver_ok D V \<and> tx V s' = None) \<and> config_of V (tables (com V s')) = config_of V (tables (com V s))"
    by (simp add: idle_def)
next
  fix s es s'
  assume "driver_ok D V \<and> tx V s = None" and l: "ListConfig D s = (Inr es, s')"
  then have "idle V s (com V s)" "driver_ok D V" by (simp_all add: idle_def)
  from ListConfig_view(2) [OF this(2,1) l] show "es = entries_of (config_of V (tables (com V s)))" by simp
next
  fix s k v s'
  assume "driver_ok D V \<and> tx V s = None" and l: "SetConfig D k v s = (None, s')"
  then have "idle V s (com V s)" "driver_ok D V" by (simp_all add: idle_def)
  from SetConfig_view(1) [OF this(2,1) l] this
  show "(driver_ok D V \<and> tx V s' = None) \<and> config_of V (tables (com V s')) = (config_of V (tables (com V s)))(k \<mapsto> v)"
    by (auto simp: idle_def)
next
  fix s k v e s'
  assume "driver_ok D V \<and> tx V s = None" and l: "SetConfig D k v s = (Some e, s')"
  then have "idle V s (com V s)" "driver_ok D V" by (simp_all add: idle_def)
  from SetConfig_view(2) [OF this(2,1) l] this
  show "(driver_ok D V \<and> tx V s' = None) \<and> config_of V (tables (com V s')) = config_of V (tables (com V s))"
    by (auto simp: idle_def)
qed (blast intro: driver_finite)

section \<open>Properties\<close>

text \<open>What was written is read back: after a \<open>SetConfig\<close> that succeeds, a listing that succeeds holds
  the new value under the key and every other entry as before, in the order of the keys; one that
  fails leaves every entry as it was.\<close>

theorem config_read_your_write:
  assumes D: "driver_ok D V" and d: "tx V d = None"
    and set: "SetConfig D k v d = (err, d1)" and list: "ListConfig D d1 = (Inr es, d2)"
  shows "sorted (map Key es) \<and> distinct (map Key es)
    \<and> (\<forall>k' v'. \<lparr>Key = k', Value = v'\<rparr> \<in> set es \<longleftrightarrow>
        (if err = None then (config_of V (tables (com V d)))(k \<mapsto> v)
         else config_of V (tables (com V d))) k' = Some v')"
proof -
  have i: "driver_ok D V \<and> tx V d = None" using D d by simp
  note s = db.set_view [OF i set]
  then have i1: "driver_ok D V \<and> tx V d1 = None" by simp
  show ?thesis
    using db.listed_iff [OF i1 list] db.listed_sorted [OF i1 list] s by (auto split: if_splits)
qed

text \<open>C15: Migrations: with an idle database and any set of embedded files, \<open>migrate\<close> leaves the database
  idle and in one of the states between two migrations: some first part of the pending files, in
  the order of their names, applied completely and recorded, nothing else changed. When it reports
  success all pending files are applied and every recorded version is known; a database with a
  version the binary does not know is refused with no migration applied.\<close>

theorem migrate_atomic:
  assumes D: "driver_ok D V" and d: "idle V d b" and fs: "\<forall>(_, sql) \<in> set fs. plain V sql"
    and m: "migrate D fs d = (err, d')"
  shows "\<exists>b'. idle V d' b' \<and>
    (if err = None
     then migrated V (pending (set (recorded b)) (sort_key fst fs)) (with_table b) = Some b'
        \<and> recorded b' = recorded b @ map (\<lambda>(n, _). versionOf n) (pending (set (recorded b)) (sort_key fst fs))
        \<and> set (recorded b) \<subseteq> known_versions fs
     else b' = b \<or> (\<exists>n. migrated V (take n (pending (set (recorded b)) (sort_key fst fs))) (with_table b) = Some b'
        \<and> (0 < n \<longrightarrow> set (recorded b) \<subseteq> known_versions fs)))"
proof -
  have r: "recorded (with_table b) = recorded b" by (simp add: with_table_def recorded_def)
  obtain b' where b': "idle V d' b'" "if err = None
     then migrated V (pending (set (recorded b)) (sort_key fst fs)) (with_table b) = Some b'
        \<and> set (recorded b) \<subseteq> known_versions fs
     else b' = b \<or> (\<exists>n. migrated V (take n (pending (set (recorded b)) (sort_key fst fs))) (with_table b) = Some b'
        \<and> (0 < n \<longrightarrow> set (recorded b) \<subseteq> known_versions fs))"
    using migrate_view [OF assms] by (cases err) auto
  show ?thesis
  proof (cases err)
    case None
    with b' migrated_versions r show ?thesis by fastforce
  next
    case (Some e)
    with b' show ?thesis by auto
  qed
qed

lemma pending_done:
  "pending (A \<union> set (map (\<lambda>(n, _). versionOf n) (pending A fs))) fs = []"
  by (auto simp: pending_def filter_empty_conv)

text \<open>A second start changes nothing: after a successful \<open>migrate\<close>, running it again with the same
  files leaves the database exactly as it is, whether or not it succeeds.\<close>

theorem migrate_idempotent:
  assumes D: "driver_ok D V" and d: "idle V d b" and fs: "\<forall>(_, sql) \<in> set fs. plain V sql"
    and first: "migrate D fs d = (None, d1)" and second: "migrate D fs d1 = (err, d2)"
  shows "idle V d2 (com V d1)"
proof -
  let ?todo = "pending (set (recorded b)) (sort_key fst fs)"
  obtain b1 where b1: "idle V d1 b1" "migrated V ?todo (with_table b) = Some b1"
    using migrate_view [OF D d fs first] by auto
  have v: "versions (with_table b) \<noteq> None" "recorded (with_table b) = recorded b"
    by (simp_all add: with_table_def recorded_def)
  with migrated_versions [OF b1(2)] have r: "recorded b1 = recorded b @ map (\<lambda>(n, _). versionOf n) ?todo"
    and "versions b1 \<noteq> None" by auto
  then have t: "with_table b1 = b1" by (auto simp: with_table_def recorded_def)
  have "pending (set (recorded b1)) (sort_key fst fs) = []"
    using pending_done [of "set (recorded b)" "sort_key fst fs"] r by simp
  with migrate_view [OF D b1(1) fs second] t have "idle V d2 b1" by (auto split: if_splits)
  with b1(1) show ?thesis by (simp add: idle_def)
qed

section \<open>A concrete driver\<close>

text \<open>
  An instance of the parameter for the witnesses: a database in memory whose calls fail as a list of
  booleans says, with snapshot transactions. The promise \<open>driver_ok\<close> holds of it.
\<close>

record mem =
  m_db :: "(string \<rightharpoonup> string) option db"
  m_tx :: "(string \<rightharpoonup> string) option db option"
  m_faults :: "bool list"

definition mem_tick :: "mem \<Rightarrow> mem" where
  "mem_tick m = m\<lparr>m_faults := tl (m_faults m)\<rparr>"

definition mem_fails :: "mem \<Rightarrow> bool" where
  "mem_fails m \<longleftrightarrow> (case m_faults m of [] \<Rightarrow> False | f # _ \<Rightarrow> f)"

definition mem_effect :: "string \<Rightarrow> (string \<rightharpoonup> string) option \<Rightarrow> (string \<rightharpoonup> string) option option" where
  "mem_effect sql r = (case r of
     None \<Rightarrow> Some (Some [''site_name'' \<mapsto> ''Web App Template'', ''motd'' \<mapsto> ''Welcome.''])
   | Some m \<Rightarrow> None)"

definition finite_map :: "(string \<rightharpoonup> string) option \<Rightarrow> (string \<rightharpoonup> string)" where
  "finite_map r = (case r of Some m \<Rightarrow> if finite (dom m) then m else (\<lambda>_. None) | None \<Rightarrow> (\<lambda>_. None))"

definition mem_exec :: "string \<Rightarrow> string list \<Rightarrow> mem \<Rightarrow> string option \<times> mem" where
  "mem_exec sql args m =
     (if mem_fails m then (Some ''disk I/O error'', mem_tick m)
      else if sql = create_sql then
        (None, (mem_tick m)\<lparr>m_db := (m_db m)\<lparr>versions := Some (case versions (m_db m) of None \<Rightarrow> [] | Some vs \<Rightarrow> vs)\<rparr>\<rparr>)
      else if sql = upsert_sql then
        (case tables (m_db m) of
           None \<Rightarrow> (Some ''no such table: config'', mem_tick m)
         | Some t \<Rightarrow> (None, (mem_tick m)\<lparr>m_db := (m_db m)\<lparr>tables := Some ((finite_map (Some t))(args ! 0 \<mapsto> args ! 1))\<rparr>\<rparr>))
      else (None, mem_tick m))"

definition mem_query :: "string \<Rightarrow> mem \<Rightarrow> (string + rows) \<times> mem" where
  "mem_query sql m =
     (if mem_fails m then (Inl ''disk I/O error'', mem_tick m)
      else (Inr \<lparr>rows_scan = map Inr (if sql = versions_sql then map (\<lambda>v. [v]) (recorded (m_db m))
                else sorted_rows (finite_map (tables (m_db m)))), rows_err = None, rows_close = None\<rparr>, mem_tick m))"

definition mem_tx_exec :: "string \<Rightarrow> string list \<Rightarrow> mem \<Rightarrow> string option \<times> mem" where
  "mem_tx_exec sql args m =
     (case m_tx m of
        None \<Rightarrow> (Some ''no transaction'', m)
      | Some t \<Rightarrow>
          if mem_fails m then (Some ''disk I/O error'', mem_tick m)
          else if sql = insert_version_sql then
            (case versions t of
               None \<Rightarrow> (Some ''no such table'', mem_tick m)
             | Some vs \<Rightarrow> if args ! 0 \<in> set vs then (Some ''UNIQUE constraint failed'', mem_tick m)
                 else (None, (mem_tick m)\<lparr>m_tx := Some (t\<lparr>versions := Some (vs @ [args ! 0])\<rparr>)\<rparr>))
          else (case mem_effect sql (tables t) of
               None \<Rightarrow> (Some ''table config already exists'', mem_tick m)
             | Some r \<Rightarrow> (None, (mem_tick m)\<lparr>m_tx := Some (t\<lparr>tables := r\<rparr>)\<rparr>)))"

definition mem_driver :: "mem driver" where
  "mem_driver = \<lparr>
     d_open = (\<lambda>path. Inr \<lparr>m_db = \<lparr>versions = None, tables = None\<rparr>, m_tx = None, m_faults = []\<rparr>),
     d_close = (\<lambda>m. (None, m)), d_set_max_open = (\<lambda>n m. m), d_ping = (\<lambda>m. None),
     d_exec = mem_exec, d_query = mem_query,
     d_begin = (\<lambda>m. if mem_fails m then (Some ''disk I/O error'', mem_tick m)
                    else (None, (mem_tick m)\<lparr>m_tx := Some (m_db m)\<rparr>)),
     d_tx_exec = mem_tx_exec,
     d_commit = (\<lambda>m. case m_tx m of
        None \<Rightarrow> (Some ''no transaction'', m)
      | Some t \<Rightarrow> if mem_fails m then (Some ''disk I/O error'', (mem_tick m)\<lparr>m_tx := None\<rparr>)
          else (None, (mem_tick m)\<lparr>m_db := t, m_tx := None\<rparr>)),
     d_rollback = (\<lambda>m. case m_tx m of None \<Rightarrow> (RbTxDone, m) | Some _ \<Rightarrow> (RbOk, m\<lparr>m_tx := None\<rparr>))\<rparr>"

definition mem_view :: "(mem, (string \<rightharpoonup> string) option) db_view" where
  "mem_view = \<lparr>com = m_db, tx = m_tx, plain = (\<lambda>sql. sql \<noteq> insert_version_sql), eff = mem_effect, config_of = finite_map\<rparr>"

lemma mem_tick_fields [simp]: "m_db (mem_tick m) = m_db m" "m_tx (mem_tick m) = m_tx m"
  by (simp_all add: mem_tick_def)

lemma finite_map_finite [simp]: "finite (dom (finite_map r))"
  by (simp add: finite_map_def split: option.splits)

lemma finite_map_upd: "finite_map (Some ((finite_map r)(k \<mapsto> v))) = (finite_map r)(k \<mapsto> v)"
  by (simp add: finite_map_def split: option.splits)

lemma sql_distinct [simp]: "upsert_sql \<noteq> create_sql" "list_sql \<noteq> versions_sql"
  by (simp_all add: upsert_sql_def create_sql_def list_sql_def versions_sql_def lines_def)

lemmas mem_defs = mem_driver_def mem_view_def idle_def in_tx_def

lemma mem_driver_ok: "driver_ok mem_driver mem_view"
  unfolding driver_ok_def
proof (intro conjI allI impI)
  fix d b err d'
  assume "idle mem_view d b \<and> d_exec mem_driver create_sql [] d = (err, d')"
  then show "idle mem_view d' (if err = None
      then b\<lparr>versions := Some (case versions b of None \<Rightarrow> [] | Some vs \<Rightarrow> vs)\<rparr> else b)"
    by (auto simp: mem_defs mem_exec_def split: if_splits)
next
  fix d b k v err d'
  assume "idle mem_view d b \<and> d_exec mem_driver upsert_sql [k, v] d = (err, d')"
  then show "if err = None then \<exists>b'. idle mem_view d' b' \<and> versions b' = versions b
      \<and> config_of mem_view (tables b') = (config_of mem_view (tables b))(k \<mapsto> v) else idle mem_view d' b"
    by (auto simp: mem_defs mem_exec_def finite_map_upd split: if_splits option.splits)
next
  fix d b res d'
  assume "idle mem_view d b \<and> d_query mem_driver versions_sql d = (res, d')"
  then show "idle mem_view d' b" "\<And>rws vs. res = Inr rws \<and> versions b = Some vs \<Longrightarrow>
      rows_match rws (map (\<lambda>v. [v]) vs)"
    by (auto simp: mem_defs mem_query_def rows_match_def recorded_def split: if_splits)
next
  fix d b res d'
  assume "idle mem_view d b \<and> d_query mem_driver list_sql d = (res, d')"
  then show "idle mem_view d' b" "\<And>rws. res = Inr rws \<Longrightarrow>
      rows_match rws (sorted_rows (config_of mem_view (tables b)))"
    by (auto simp: mem_defs mem_query_def rows_match_def split: if_splits)
next
  fix d b t sql err d'
  assume "in_tx mem_view d b t \<and> plain mem_view sql \<and> d_tx_exec mem_driver sql [] d = (err, d')"
  then show "if err = None then \<exists>r. eff mem_view sql (tables t) = Some r \<and> in_tx mem_view d' b (t\<lparr>tables := r\<rparr>)
      else \<exists>t'. in_tx mem_view d' b t'"
    by (auto simp: mem_defs mem_tx_exec_def split: if_splits option.splits)
next
  fix d b t v err d'
  assume "in_tx mem_view d b t \<and> d_tx_exec mem_driver insert_version_sql [v] d = (err, d')"
  then show "if err = None then \<exists>vs. versions t = Some vs \<and> v \<notin> set vs
      \<and> in_tx mem_view d' b (t\<lparr>versions := Some (vs @ [v])\<rparr>) else \<exists>t'. in_tx mem_view d' b t'"
    by (auto simp: mem_defs mem_tx_exec_def split: if_splits option.splits)
qed (auto simp: mem_defs split: if_splits)

definition fresh_mem :: "bool list \<Rightarrow> mem" where
  "fresh_mem faults = \<lparr>m_db = \<lparr>versions = None, tables = None\<rparr>, m_tx = None, m_faults = faults\<rparr>"

definition config_mem :: "bool list \<Rightarrow> mem" where
  "config_mem faults = \<lparr>m_db = \<lparr>versions = Some [''0001_config''],
     tables = Some [''site_name'' \<mapsto> ''Web App Template'', ''motd'' \<mapsto> ''Welcome.'']\<rparr>,
     m_tx = None, m_faults = faults\<rparr>"

lemma fresh_idle: "idle mem_view (fresh_mem fl) \<lparr>versions = None, tables = None\<rparr>"
  by (simp add: idle_def mem_view_def fresh_mem_def)

lemma migration_version: "versionOf ''migrations/0001_config.up.sql'' = ''0001_config''"
  by (simp add: versionOf_def base_of_def trim_suffix_def has_suffix_def)

lemma migration_sql: "\<forall>(_, sql) \<in> set migrationsFS. sql \<noteq> insert_version_sql"
  by (simp add: migrationsFS_def insert_version_sql_def lines_def)

lemma migration_plain: "\<forall>(_, sql) \<in> set migrationsFS. plain mem_view sql"
  using migration_sql by (simp add: mem_view_def)

lemma pending_fresh: "pending (set (recorded \<lparr>versions = None, tables = None\<rparr>)) (sort_key fst migrationsFS) = migrationsFS"
  by (simp add: recorded_def migrationsFS_def)

lemma sql_distinct_tx [simp]: "create_sql \<noteq> insert_version_sql" "versions_sql \<noteq> create_sql"
  by (simp_all add: insert_version_sql_def create_sql_def versions_sql_def lines_def)

lemmas mem_eval = migrate_def mem_driver_def fresh_mem_def mem_exec_def mem_query_def mem_tx_exec_def
  mem_fails_def mem_tick_def migration_version read_rows_def applyMigration_def mem_effect_def
  recorded_def Let_def

text \<open>A start whose commit fails: what the program does, step by step.\<close>

lemma migrate_commit_fails:
  "migrate mem_driver migrationsFS (fresh_mem [False, False, False, False, False, True])
     = (Some (Wrapped ''migration 0001_config'' ''disk I/O error''),
        \<lparr>m_db = \<lparr>versions = Some [], tables = None\<rparr>, m_tx = None, m_faults = []\<rparr>)"
proof -
  obtain sql where fs: "migrationsFS = [(''migrations/0001_config.up.sql'', sql)]" and ne: "sql \<noteq> insert_version_sql"
    using migration_sql by (auto simp: migrationsFS_def)
  show ?thesis
    using ne unfolding fs
    by (simp add: mem_eval)
qed

theorem config_read_your_write_witness:
  "\<exists>d1 es d2. SetConfig mem_driver ''motd'' ''Hi'' (config_mem []) = (None, d1)
    \<and> ListConfig mem_driver d1 = (Inr es, d2)
    \<and> \<lparr>Key = ''motd'', Value = ''Hi''\<rparr> \<in> set es \<and> \<lparr>Key = ''site_name'', Value = ''Web App Template''\<rparr> \<in> set es"
proof -
  obtain d1 where set: "SetConfig mem_driver ''motd'' ''Hi'' (config_mem []) = (None, d1)" "m_faults d1 = []"
    by (simp add: SetConfig_def mem_driver_def mem_exec_def config_mem_def mem_fails_def mem_tick_def)
  obtain es d2 where list: "ListConfig mem_driver d1 = (Inr es, d2)"
    using set(2) by (simp add: ListConfig_def mem_driver_def mem_query_def mem_fails_def read_rows_def
        scan_rows_Inr with_close_def)
  have view: "config_of mem_view (tables (com mem_view (config_mem []))) =
      [''site_name'' \<mapsto> ''Web App Template'', ''motd'' \<mapsto> ''Welcome.'']" "tx mem_view (config_mem []) = None"
    by (simp_all add: mem_view_def config_mem_def finite_map_def)
  from config_read_your_write [OF mem_driver_ok view(2) set(1) list] view(1) set list show ?thesis by auto
qed

theorem migrate_atomic_witness:
  "\<exists>b'. idle mem_view \<lparr>m_db = \<lparr>versions = Some [], tables = None\<rparr>, m_tx = None, m_faults = []\<rparr> b'
    \<and> (b' = \<lparr>versions = None, tables = None\<rparr> \<or>
       (\<exists>n. migrated mem_view (take n migrationsFS) (with_table \<lparr>versions = None, tables = None\<rparr>) = Some b'))"
  using migrate_atomic [OF mem_driver_ok fresh_idle migration_plain migrate_commit_fails]
  unfolding pending_fresh by auto

theorem migrate_idempotent_witness:
  "\<exists>d1 err d2. migrate mem_driver migrationsFS (fresh_mem []) = (None, d1)
    \<and> migrate mem_driver migrationsFS d1 = (err, d2) \<and> idle mem_view d2 (com mem_view d1)"
proof -
  obtain sql where fs: "migrationsFS = [(''migrations/0001_config.up.sql'', sql)]" and ne: "sql \<noteq> insert_version_sql"
    using migration_sql by (auto simp: migrationsFS_def)
  obtain d1 where 1: "migrate mem_driver migrationsFS (fresh_mem []) = (None, d1)"
    using ne unfolding fs
    by (simp add: mem_eval)
  obtain err d2 where 2: "migrate mem_driver migrationsFS d1 = (err, d2)" by fastforce
  from migrate_idempotent [OF mem_driver_ok fresh_idle migration_plain 1 2] 1 2 show ?thesis by blast
qed

end
