(* ===== verification/World.thy ===== *)
theory World
  imports AuthMiddleware RateLimiter Metrics Store
begin

text \<open>
  The state of the server that handlers work on: the response being written and, shared by all
  requests, the rate limiter, the provider's key cache, the database and the metrics registry; and
  what one request meets of the world outside: clocks, random bytes, the HTTP exchanges of the
  provider, map orders.
\<close>

record ('d, 'f) world = web +
  limiter :: rateLimiter
  key_cache :: jwksClient
  database :: 'd
  metrics :: "'f registry"

record 'f env =
  env_rand :: "string option"
  env_auth :: auth_env
  env_rl_now :: gotime
  env_rl_order :: "(string, bucket) range_fn"
  env_duration_ms :: nat
  env_seconds :: 'f
  env_series_order :: "(string, 'f series) range_fn"
  env_runtime :: "nat \<times> nat"

type_synonym ('d, 'f) world_handler = "('d, 'f) world handler"

text \<open>The provider works on the key cache of the world.\<close>

definition authenticate_world ::
  "jwt_lib \<Rightarrow> jwtProvider \<Rightarrow> auth_env \<Rightarrow> request \<Rightarrow> ('d, 'f) world
     \<Rightarrow> ((auth_error + principal) \<times> ('d, 'f) world) outcome" where
  "authenticate_world L p E r w =
     map_outcome (\<lambda>(a, c). (a, w\<lparr>key_cache := c\<rparr>)) (Authenticate L p E r (key_cache w))"

text \<open>Helpers that write a response leave the shared state alone.\<close>

lemma world_response [simp]:
  "limiter (set_header k v w) = limiter w" "key_cache (set_header k v w) = key_cache w"
  "database (set_header k v w) = database w" "metrics (set_header k v w) = metrics w"
  "limiter (commit c w) = limiter w" "key_cache (commit c w) = key_cache w"
  "database (commit c w) = database w" "metrics (commit c w) = metrics w"
  by (simp_all add: set_header_def commit_def split: option.split)

lemma world_write [simp]:
  "limiter (WriteHeader c w) = limiter w" "key_cache (WriteHeader c w) = key_cache w"
  "database (WriteHeader c w) = database w" "metrics (WriteHeader c w) = metrics w"
  "limiter (write_chunk ch w) = limiter w" "key_cache (write_chunk ch w) = key_cache w"
  "database (write_chunk ch w) = database w" "metrics (write_chunk ch w) = metrics w"
  "limiter (log_to lv m a w) = limiter w" "key_cache (log_to lv m a w) = key_cache w"
  "database (log_to lv m a w) = database w" "metrics (log_to lv m a w) = metrics w"
  by (simp_all add: WriteHeader_def write_chunk_def log_to_def)

lemma world_problem [simp]:
  "limiter (WriteProblem st t d w) = limiter w" "key_cache (WriteProblem st t d w) = key_cache w"
  "database (WriteProblem st t d w) = database w" "metrics (WriteProblem st t d w) = metrics w"
  by (simp_all add: WriteProblem_def)

interpretation web: web_provider "authenticate_world L p" "\<lambda>E. rely (ae_key E)"
  "\<lambda>w. client_ok (key_cache w) \<and> registered p"
proof
  fix E :: auth_env and r and s :: "('d, 'f) world"
  assume a: "rely (ae_key E)" "client_ok (key_cache s) \<and> registered p"
  obtain x c where c: "Authenticate L p E r (key_cache s) = Return (x, c)" "client_ok c"
    using jwt.auth_returns [of E "key_cache s" p L r] a by auto
  then show "\<exists>x s'. authenticate_world L p E r s = Return (x, s') \<and> client_ok (key_cache s') \<and> registered p"
    using a by (simp add: authenticate_world_def)
next
  fix E :: auth_env and r and s :: "('d, 'f) world" and q s'
  assume a: "rely (ae_key E)" "client_ok (key_cache s) \<and> registered p"
    "authenticate_world L p E r s = Return (Inr q, s')"
  then show "Subject q \<noteq> ''''"
    using jwt.auth_subject [of E "key_cache s" p L r q] by (auto simp: authenticate_world_def map_outcome_Return)
next
  fix E :: auth_env and r and s :: "('d, 'f) world" and a s'
  assume "authenticate_world L p E r s = Return (a, s')"
  then show "wrote s' = wrote s \<and> chunks s' = chunks s \<and> hdr s' = hdr s \<and> recorders s' = recorders s \<and> logs s' = logs s"
    by (auto simp: authenticate_world_def map_outcome_Return)
qed

end
