(* ===== verification/ApiMiddleware.thy ===== *)
theory ApiMiddleware
  imports World
begin

text \<open>
  The middlewares of internal/api: request ids, access log, security headers, body limit and CSRF
  (middleware.go), the rate limit of admin mutations (ratelimit.go) and the HTTP metrics
  (metrics.go). Then: which of them are guards, and what each promises.
\<close>

section \<open>Request id, access log, headers\<close>

definition hex_digit :: "nat \<Rightarrow> char" where
  "hex_digit n = (if n < 10 then char_of (48 + n) else char_of (87 + n))"

definition hex_encode :: "string \<Rightarrow> string" where
  "hex_encode s = concat (map (\<lambda>c. [hex_digit (byte_of c div 16), hex_digit (byte_of c mod 16)]) s)"

definition requestID :: "'f env \<Rightarrow> ('d, 'f) world middleware" where
  "requestID E nxt r w =
     (case env_rand E of
        None \<Rightarrow> Done r (WriteProblem 500 (StatusText 500) '''' w)
      | Some buf \<Rightarrow>
          let rid = hex_encode buf in
          serve_with_ctx nxt (WithRequestID (Ctx r) rid) r (set_header ''X-Request-Id'' rid w))"

text \<open>A \<open>statusRecorder\<close> around the writer: its status field, 200 at first, is the head of \<open>recorders\<close>.\<close>

definition push_recorder :: "'a web_scheme \<Rightarrow> 'a web_scheme" where
  "push_recorder w = w\<lparr>recorders := 200 # recorders w\<rparr>"

definition recorded_status :: "'a web_scheme \<Rightarrow> nat" where
  "recorded_status w = hd (recorders w)"

definition pop_recorder :: "'a web_scheme \<Rightarrow> 'a web_scheme" where
  "pop_recorder w = w\<lparr>recorders := tl (recorders w)\<rparr>"

definition access_attrs :: "'f env \<Rightarrow> request \<Rightarrow> nat \<Rightarrow> (string \<times> string) list" where
  "access_attrs E r status =
     [(''method'', Method r), (''path'', Path r), (''status'', itoa_digits status),
      (''duration_ms'', itoa_digits (env_duration_ms E)), (''request_id'', RequestIDFromContext (Ctx r))]
     @ (case PrincipalFromContext (Ctx r) of None \<Rightarrow> [] | Some p \<Rightarrow> [(''subject'', Subject p)])"

definition logging :: "'f env \<Rightarrow> ('d, 'f) world middleware" where
  "logging E nxt r w =
     then_run (nxt r (push_recorder w)) (\<lambda>r w.
       let attrs = access_attrs E r (recorded_status w) in
       Done r (log_to (if Path r = ''/healthz'' \<or> Path r = ''/readyz'' then Debug else Info)
         ''request'' attrs (pop_recorder w)))"

definition csp :: string where
  "csp = ''default-src '' @ sql_quoted ''self'' @ ''; script-src '' @ sql_quoted ''self''
     @ ''; style-src '' @ sql_quoted ''self'' @ ''; frame-ancestors '' @ sql_quoted ''none''"

definition permissions_policy :: string where
  "permissions_policy = ''accelerometer=(), camera=(), geolocation=(), gyroscope=(), magnetometer=(), ''
     @ ''microphone=(), payment=(), usb=()''"

definition security_header_list :: "bool \<Rightarrow> string \<Rightarrow> (string \<times> string) list" where
  "security_header_list disableHSTS path =
     [(''Content-Security-Policy'', csp), (''X-Frame-Options'', ''DENY''),
      (''X-Content-Type-Options'', ''nosniff''), (''Referrer-Policy'', ''no-referrer'')]
     @ (if \<not> disableHSTS then [(''Strict-Transport-Security'', ''max-age=63072000; includeSubDomains'')] else [])
     @ [(''Permissions-Policy'', permissions_policy)]
     @ (if has_prefix path ''/api/'' then [(''Cache-Control'', ''no-store'')] else [])"

fun set_headers :: "(string \<times> string) list \<Rightarrow> 'a web_scheme \<Rightarrow> 'a web_scheme" where
  "set_headers [] w = w"
| "set_headers ((k, v) # kvs) w = set_headers kvs (set_header k v w)"

definition securityHeaders :: "bool \<Rightarrow> ('d, 'f) world middleware" where
  "securityHeaders disableHSTS nxt r w = nxt r (set_headers (security_header_list disableHSTS (Path r)) w)"

section \<open>Body limit and CSRF\<close>

definition maxRequestBodyBytes :: nat where "maxRequestBodyBytes = 1048576"

definition is_read_method :: "string \<Rightarrow> bool" where
  "is_read_method m \<longleftrightarrow> m = ''GET'' \<or> m = ''HEAD''"

definition MaxBytesReader :: "nat \<Rightarrow> body \<Rightarrow> body" where
  "MaxBytesReader n b = b\<lparr>body_limit := Some (case body_limit b of None \<Rightarrow> n | Some m \<Rightarrow> min m n)\<rparr>"

definition maxBody :: "('d, 'f) world middleware" where
  "maxBody nxt r w =
     (if is_read_method (Method r) then nxt r w
      else nxt (r\<lparr>Body := MaxBytesReader maxRequestBodyBytes (Body r)\<rparr>) w)"

definition csrf :: "('d, 'f) world middleware" where
  "csrf nxt r w =
     (if is_read_method (Method r) then nxt r w
      else if header_get (Header r) ''X-Requested-With'' \<noteq> ''fetch'' \<and> header_get (Header r) ''HX-Request'' \<noteq> ''true''
      then Done r (WriteProblem 403 (StatusText 403) '''' w)
      else if header_get (Header r) ''Sec-Fetch-Site'' \<in> {'''', ''same-origin'', ''same-site'', ''none''}
      then nxt r w
      else Done r (WriteProblem 403 (StatusText 403) '''' w))"

section \<open>Rate limit of admin mutations\<close>

definition adminMiddleware :: "'f env \<Rightarrow> ('d, 'f) world middleware" where
  "adminMiddleware E nxt r w =
     (case PrincipalFromContext (Ctx r) of
        None \<Rightarrow> Done r (WriteProblem 500 (StatusText 500) '''' w)
      | Some p \<Rightarrow>
          (case allow (env_rl_order E) (env_rl_now E) (Subject p) (limiter w) of
             Panic e \<Rightarrow> Panicked e r w
           | Return (ok, rl) \<Rightarrow>
               let w = w\<lparr>limiter := rl\<rparr> in
               if \<not> ok then Done r (WriteProblem 429 (StatusText 429) '''' w) else nxt r w))"

section \<open>HTTP metrics\<close>

record httpMetricsSet =
  hm_requests :: nat
  hm_duration :: nat
  hm_active :: nat

definition durationBuckets :: "rat list" where
  "durationBuckets = [5 / 1000, 10 / 1000, 25 / 1000, 50 / 1000, 100 / 1000, 250 / 1000, 500 / 1000, 1, 2500 / 1000, 5]"

definition newHTTPMetrics :: "'f float_ops \<Rightarrow> (httpMetricsSet \<times> 'f registry) outcome" where
  "newHTTPMetrics F =
     bind_outcome (CounterVec ''http_requests_total'' ''Total HTTP requests on the authenticated chain.''
         [''method'', ''route'', ''status''] NewRegistry) (\<lambda>(i, reg).
     bind_outcome (HistogramVec F ''http_request_duration_seconds''
         ''HTTP request latency in seconds on the authenticated chain.'' (map (f_lit F) durationBuckets)
         [''method'', ''route''] reg) (\<lambda>(j, reg).
     map_outcome (\<lambda>(k, reg). (\<lparr>hm_requests = i, hm_duration = j, hm_active = k\<rparr>, reg))
       (Gauge ''http_active_requests'' ''In-flight HTTP requests on the authenticated chain.'' reg)))"

definition on_metrics ::
  "('f registry \<Rightarrow> 'f registry outcome) \<Rightarrow> ('d, 'f) world \<Rightarrow> ('d, 'f) world outcome" where
  "on_metrics op w = map_outcome (\<lambda>reg. w\<lparr>metrics := reg\<rparr>) (op (metrics w))"

definition record_request ::
  "'f float_ops \<Rightarrow> httpMetricsSet \<Rightarrow> 'f env \<Rightarrow> request \<Rightarrow> ('d, 'f) world \<Rightarrow> ('d, 'f) world outcome" where
  "record_request F m E r w =
     (let route = (if Pattern r = '''' then ''-'' else Pattern r) in
      bind_outcome (on_metrics (counter_Inc F (hm_requests m) [Method r, route, itoa_digits (recorded_status w)]) w)
        (on_metrics (histogram_Observe F (hm_duration m) (env_seconds E) [Method r, route])))"

definition metricsMiddleware ::
  "'f float_ops \<Rightarrow> httpMetricsSet \<Rightarrow> 'f env \<Rightarrow> ('d, 'f) world middleware" where
  "metricsMiddleware F m E nxt r w =
     (case on_metrics (gauge_Inc F (hm_active m)) w of
        Panic e \<Rightarrow> Panicked e r w
      | Return w \<Rightarrow>
          deferred (on_metrics (gauge_Dec F (hm_active m)))
            (then_run (nxt r (push_recorder w)) (\<lambda>r w.
               outcome_run r w (map_outcome pop_recorder (record_request F m E r w)))))"

text \<open>\<open>Registry.Handler\<close>.\<close>

definition registryHandler :: "'f float_ops \<Rightarrow> 'f env \<Rightarrow> ('d, 'f) world handler" where
  "registryHandler F E r w =
     Done r (write_chunk (TextBody (Render F (env_series_order E) (env_runtime E) (metrics w)))
       (set_header ''Content-Type'' ''text/plain; version=0.0.4; charset=utf-8'' w))"

end
