(* ===== verification/Handlers.thy ===== *)
theory Handlers
  imports ApiMiddleware
begin

text \<open>
  The handlers: internal/api/handlers.go (probes, the JSON API), internal/version/version.go and
  internal/ui/ui.go (the pages, over the interface \<open>PageModel\<close>).

  Of the standard library, four functions are arguments (\<open>codecs\<close>): the streaming JSON decoder, the
  media type parser, the query parser and the execution of the page templates.
\<close>

section \<open>Decoding request bodies\<close>

datatype json_read = JsonValue json | JsonSyntax | JsonIncomplete

record pageData =
  SiteName :: string
  page_Principal :: principal
  Entries :: "ConfigEntry list"
  IsAdmin :: bool

record codecs =
  json_stream :: "bool \<Rightarrow> string \<Rightarrow> json_read"
  media_type :: "string \<Rightarrow> string \<times> bool"
  parse_query :: "string \<Rightarrow> (string \<rightharpoonup> string list) \<times> bool"
  template :: "string \<Rightarrow> pageData \<Rightarrow> string \<times> string option"

text \<open>
  A reader over a limited body delivers the bytes up to the limit, and an error instead of the end
  when the body is longer. The decoder stops at the end of the first value, so a longer body is
  noticed only when no value ends within the limit.
\<close>

definition readable :: "body \<Rightarrow> string" where
  "readable b = (case body_limit b of None \<Rightarrow> body_bytes b | Some n \<Rightarrow> take n (body_bytes b))"

definition decode_body :: "codecs \<Rightarrow> body \<Rightarrow> read_error + json" where
  "decode_body C b =
     (case json_stream C (\<not> too_large b) (readable b) of
        JsonValue j \<Rightarrow> Inr j
      | JsonSyntax \<Rightarrow> Inl OtherReadError
      | JsonIncomplete \<Rightarrow> Inl (if too_large b then MaxBytesError else OtherReadError))"

text \<open>\<open>Decode(&body)\<close> into \<open>setConfigBody\<close>.\<close>

definition decode_setConfigBody :: "codecs \<Rightarrow> body \<Rightarrow> read_error + string" where
  "decode_setConfigBody C b =
     (case decode_body C b of
        Inl e \<Rightarrow> Inl e
      | Inr (JObject kvs) \<Rightarrow> (case string_field ''value'' kvs '''' of None \<Rightarrow> Inl OtherReadError | Some v \<Rightarrow> Inr v)
      | Inr JNull \<Rightarrow> Inr ''''
      | Inr _ \<Rightarrow> Inl OtherReadError)"

text \<open>
  \<open>ParseForm\<close> and \<open>PostFormValue\<close>: the fields of an urlencoded body, an error when the media type, the
  body (also one over its limit) or the query of the URL is faulty.
\<close>

definition parse_post_form :: "codecs \<Rightarrow> request \<Rightarrow> (string \<rightharpoonup> string list) \<times> bool" where
  "parse_post_form C r =
     (let ct = header_get (Header r) ''Content-Type'';
          (mt, bad) = media_type C (if ct = '''' then ''application/octet-stream'' else ct)
      in if mt = ''application/x-www-form-urlencoded'' then
           (if too_large (Body r) then ((\<lambda>_. None), True)
            else let (vs, e) = parse_query C (body_bytes (Body r)) in (vs, bad \<or> e))
         else ((\<lambda>_. None), bad))"

definition ParseForm :: "codecs \<Rightarrow> request \<Rightarrow> unit + (string \<rightharpoonup> string list)" where
  "ParseForm C r =
     (let (vs, bad) = (if Method r \<in> {''POST'', ''PUT'', ''PATCH''} then parse_post_form C r else ((\<lambda>_. None), False));
          bad_query = snd (parse_query C (RawQuery r))
      in if bad \<or> bad_query then Inl () else Inr vs)"

definition form_value :: "(string \<rightharpoonup> string list) \<Rightarrow> string \<Rightarrow> string" where
  "form_value vs k = (case vs k of Some (v # _) \<Rightarrow> v | _ \<Rightarrow> '''')"

section \<open>Version\<close>

record build =
  Version :: string
  Commit :: string
  BuildTime :: string

definition default_build :: build where
  "default_build = \<lparr>Version = ''dev'', Commit = ''unknown'', BuildTime = ''''\<rparr>"

definition version_Info :: "build \<Rightarrow> (string \<times> string) list" where
  "version_Info b = [(''version'', Version b), (''commit'', Commit b), (''build_time'', BuildTime b)]"

text \<open>A map of strings is encoded with its keys in order.\<close>

definition map_json :: "(string \<times> string) list \<Rightarrow> json" where
  "map_json kvs = JObject (map (\<lambda>(k, v). (k, JString v)) (sort_key fst kvs))"

section \<open>The JSON API\<close>

definition writeJSON :: "nat \<Rightarrow> json \<Rightarrow> 'a web_scheme \<Rightarrow> 'a web_scheme" where
  "writeJSON status v w =
     write_chunk (JsonBody v) (WriteHeader status (set_header ''Content-Type'' ''application/json'' w))"

definition entry_json :: "ConfigEntry \<Rightarrow> json" where
  "entry_json e = JObject [(''key'', JString (Key e)), (''value'', JString (Value e))]"

definition problem :: "nat \<Rightarrow> string \<Rightarrow> 'a web_scheme \<Rightarrow> 'a web_scheme" where
  "problem status detail w = WriteProblem status (StatusText status) detail w"

definition log_error :: "string \<Rightarrow> string \<Rightarrow> request \<Rightarrow> 'a web_scheme \<Rightarrow> 'a web_scheme" where
  "log_error msg e r w = log_to Error msg [(''error'', e), (''request_id'', RequestIDFromContext (Ctx r))] w"

definition healthz :: "('d, 'f) world handler" where
  "healthz r w = Done r (writeJSON 200 (map_json [(''status'', ''ok'')]) w)"

definition readyz :: "'d driver \<Rightarrow> ('d, 'f) world handler" where
  "readyz D r w =
     (case Ping D (database w) of
        Some e \<Rightarrow> Done r (problem 503 '''' (log_error ''readiness check failed'' e r w))
      | None \<Rightarrow> Done r (writeJSON 200 (map_json [(''status'', ''ok'')]) w))"

definition me :: "('d, 'f) world handler" where
  "me r w =
     (case PrincipalFromContext (Ctx r) of
        None \<Rightarrow> Done r (problem 401 '''' w)
      | Some p \<Rightarrow> Done r (writeJSON 200 (principal_json p) w))"

definition versionHandler :: "build \<Rightarrow> ('d, 'f) world handler" where
  "versionHandler b r w = Done r (writeJSON 200 (map_json (version_Info b)) w)"

definition on_database :: "('d \<Rightarrow> 'r \<times> 'd) \<Rightarrow> ('d, 'f) world \<Rightarrow> 'r \<times> ('d, 'f) world" where
  "on_database op w = (let (x, d) = op (database w) in (x, w\<lparr>database := d\<rparr>))"

definition listConfig :: "'d driver \<Rightarrow> ('d, 'f) world handler" where
  "listConfig D r w =
     (case on_database (ListConfig D) w of
        (Inl e, w) \<Rightarrow> Done r (problem 500 '''' (log_error ''listing config'' (store_error_text e) r w))
      | (Inr es, w) \<Rightarrow> Done r (writeJSON 200 (JArray (map entry_json es)) w))"

definition read_error_text :: "read_error \<Rightarrow> string" where
  "read_error_text e = (case e of MaxBytesError \<Rightarrow> ''http: request body too large'' | OtherReadError \<Rightarrow> ''invalid JSON'')"

definition log_changed :: "string \<Rightarrow> request \<Rightarrow> 'a web_scheme \<Rightarrow> 'a web_scheme" where
  "log_changed key r w =
     log_to Info ''config changed''
       [(''subject'', case PrincipalFromContext (Ctx r) of None \<Rightarrow> '''' | Some p \<Rightarrow> Subject p),
        (''key'', key), (''request_id'', RequestIDFromContext (Ctx r))] w"

definition putConfig :: "'d driver \<Rightarrow> codecs \<Rightarrow> ('d, 'f) world handler" where
  "putConfig D C r w =
     (let key = PathValue r ''key'' in
      if \<not> ValidConfigKey key then Done r (problem 400 ''invalid key'' w)
      else
        let (mediaType, bad) = media_type C (header_get (Header r) ''Content-Type'') in
        if bad \<or> mediaType \<noteq> ''application/json'' then Done r (problem 415 '''' w)
        else case decode_setConfigBody C (Body r) of
          Inl e \<Rightarrow>
            let (status, detail) =
              (if IsRequestEntityTooLarge e then (413, ''request body too large'') else (400, ''invalid request body''))
            in Done r (problem status detail (log_error ''setting config'' (read_error_text e) r w))
        | Inr val \<Rightarrow>
            (case on_database (SetConfig D key val) w of
               (Some e, w) \<Rightarrow> Done r (problem 500 '''' (log_error ''setting config'' (store_error_text e) r w))
             | (None, w) \<Rightarrow>
                 Done r (writeJSON 200 (entry_json \<lparr>Key = key, Value = val\<rparr>) (log_changed key r w))))"

section \<open>The pages\<close>

text \<open>The interface \<open>PageModel\<close>, and its production implementation over the store.\<close>

record 'd PageModel =
  LoadPageData :: "principal \<Rightarrow> 'd \<Rightarrow> (store_error + pageData) \<times> 'd"
  pm_SetConfig :: "string \<Rightarrow> string \<Rightarrow> 'd \<Rightarrow> store_error option \<times> 'd"

fun site_name :: "ConfigEntry list \<Rightarrow> string \<Rightarrow> string" where
  "site_name [] name = name"
| "site_name (e # es) name = site_name es (if Key e = ''site_name'' then Value e else name)"

definition storePageModel :: "'d driver \<Rightarrow> 'd PageModel" where
  "storePageModel D =
     \<lparr>LoadPageData = (\<lambda>p d.
        case ListConfig D d of
          (Inl e, d) \<Rightarrow> (Inl e, d)
        | (Inr es, d) \<Rightarrow> (Inr \<lparr>SiteName = site_name es ''Web App'', page_Principal = p, Entries = es,
               IsAdmin = HasRole p ''admin''\<rparr>, d)),
      pm_SetConfig = SetConfig D\<rparr>"

definition ui_data :: "'d PageModel \<Rightarrow> request \<Rightarrow> ('d, 'f) world \<Rightarrow> (string + pageData) \<times> ('d, 'f) world" where
  "ui_data M r w =
     (case PrincipalFromContext (Ctx r) of
        None \<Rightarrow> (Inl ''missing principal in request context'', w)
      | Some p \<Rightarrow>
          (case on_database (LoadPageData M p) w of
             (Inl e, w) \<Rightarrow> (Inl (store_error_text e), w)
           | (Inr d, w) \<Rightarrow> (Inr d, w)))"

definition isFragment :: "request \<Rightarrow> bool" where
  "isFragment r \<longleftrightarrow> header_get (Header r) ''HX-Request'' = ''true''"

definition ui_render :: "codecs \<Rightarrow> 'd PageModel \<Rightarrow> string \<Rightarrow> ('d, 'f) world handler" where
  "ui_render C M fullPage r w =
     (case ui_data M r w of
        (Inl e, w) \<Rightarrow> Done r (problem 500 '''' (log_error ''loading page data'' e r w))
      | (Inr d, w) \<Rightarrow>
          (let name = (if \<not> isFragment r then fullPage else ''config-section'');
               (html, err) = template C name d;
               w = write_chunk (TextBody html) (set_header ''Content-Type'' ''text/html; charset=utf-8'' w)
           in Done r (case err of None \<Rightarrow> w | Some e \<Rightarrow> log_error ''rendering template'' e r w)))"

definition ui_home :: "codecs \<Rightarrow> 'd PageModel \<Rightarrow> ('d, 'f) world handler" where
  "ui_home C M = ui_render C M ''home''"

definition ui_putConfig :: "codecs \<Rightarrow> 'd PageModel \<Rightarrow> ('d, 'f) world handler" where
  "ui_putConfig C M r w =
     (case ParseForm C r of
        Inl _ \<Rightarrow> Done r (problem 400 ''invalid form body'' w)
      | Inr vs \<Rightarrow>
          (let key = PathValue r ''key'' in
           if \<not> ValidConfigKey key then Done r (problem 400 ''invalid key'' w)
           else
             (case on_database (pm_SetConfig M key (form_value vs ''value'')) w of
                (Some e, w) \<Rightarrow> Done r (problem 500 '''' (log_error ''setting config'' (store_error_text e) r w))
              | (None, w) \<Rightarrow> ui_render C M ''home'' r (log_changed key r w))))"

end
