(* ===== verification/ServeMux.thy ===== *)
theory ServeMux
  imports GoHttp
begin

text \<open>
  The request multiplexer of net/http (Go 1.22 patterns) as far as the program's patterns use it:
  methods, literal segments, single wildcards and trailing slashes; literal before wildcard before
  the rest; a method before none, GET for HEAD; cleaned paths and trailing slashes redirect; 404
  and 405. The status of a redirect depends on the Go release (301 or 307) and is an argument, and
  so is the printing of a URL.
\<close>

section \<open>Patterns\<close>

text \<open>A segment: a literal, a wildcard, or the rest of the path (with no name for a trailing slash).\<close>

datatype seg = Lit string | Wild string | Rest string

fun split_slash :: "string \<Rightarrow> string list" where
  "split_slash [] = [[]]"
| "split_slash (c # cs) =
     (if c = CHR ''/'' then [] # split_slash cs
      else case split_slash cs of [] \<Rightarrow> [[c]] | s # ss \<Rightarrow> (c # s) # ss)"

definition parse_seg :: "string \<Rightarrow> seg" where
  "parse_seg s =
     (if s = '''' then Rest ''''
      else if has_prefix s ''{'' then Wild (drop 1 (butlast s)) else Lit s)"

record 's pattern =
  pat_str :: string
  pat_method :: string
  pat_segs :: "seg list"
  pat_handler :: "'s handler"

text \<open>\<open>METHOD /path\<close> or \<open>/path\<close>.\<close>

definition mk_pattern :: "string \<Rightarrow> 's handler \<Rightarrow> 's pattern" where
  "mk_pattern s h =
     (let m = takeWhile (\<lambda>c. c \<noteq> CHR '' '') s;
          (mthd, path) = (if m = s then ('''', s) else (m, drop (Suc (length m)) s))
      in \<lparr>pat_str = s, pat_method = mthd, pat_segs = map parse_seg (split_slash (drop 1 path)), pat_handler = h\<rparr>)"

type_synonym 's mux = "'s pattern list"

section \<open>Matching\<close>

definition hex_value :: "char \<Rightarrow> nat option" where
  "hex_value c =
     (if is_digit c then Some (byte_of c - 48)
      else if CHR ''a'' \<le> c \<and> c \<le> CHR ''f'' then Some (byte_of c - 87)
      else if CHR ''A'' \<le> c \<and> c \<le> CHR ''F'' then Some (byte_of c - 55)
      else None)"

fun percent_decode :: "string \<Rightarrow> string option" where
  "percent_decode [] = Some []"
| "percent_decode (c # cs) =
     (if c = CHR ''%'' then
        (case cs of
           a # b # rest \<Rightarrow>
             (case (hex_value a, hex_value b) of
                (Some x, Some y) \<Rightarrow> map_option (\<lambda>r. char_of (16 * x + y) # r) (percent_decode rest)
              | _ \<Rightarrow> None)
         | _ \<Rightarrow> None)
      else map_option (\<lambda>r. c # r) (percent_decode cs))"

definition path_unescape :: "string \<Rightarrow> string" where
  "path_unescape s = (case percent_decode s of Some t \<Rightarrow> t | None \<Rightarrow> s)"

definition firstSegment :: "string \<Rightarrow> string \<times> string" where
  "firstSegment path =
     (if path = ''/'' then (''/'', '''')
      else (path_unescape (takeWhile (\<lambda>c. c \<noteq> CHR ''/'') (drop 1 path)),
            dropWhile (\<lambda>c. c \<noteq> CHR ''/'') (drop 1 path)))"

text \<open>
  A node of the routing tree: the patterns below it, each with the segments still to match.
\<close>

type_synonym 's node = "(seg list \<times> 's pattern) list"

fun below :: "seg \<Rightarrow> 's node \<Rightarrow> 's node" where
  "below g [] = []"
| "below g ((segs, p) # n) =
     (case segs of [] \<Rightarrow> below g n
      | h # t \<Rightarrow> (case (g, h) of
           (Wild _, Wild _) \<Rightarrow> (t, p) # below g n
         | _ \<Rightarrow> if g = h then (t, p) # below g n else below g n))"

fun leaf :: "'s node \<Rightarrow> 's pattern option" where
  "leaf [] = None"
| "leaf ((segs, p) # n) = (if segs = [] then Some p else leaf n)"

fun multi :: "'s node \<Rightarrow> (string \<times> 's pattern) option" where
  "multi [] = None"
| "multi ((segs, p) # n) = (case segs of [Rest name] \<Rightarrow> Some (name, p) | _ \<Rightarrow> multi n)"

lemma firstSegment_shorter: "path \<noteq> '''' \<Longrightarrow> length (snd (firstSegment path)) < length path"
  by (cases path) (auto simp: firstSegment_def le_imp_less_Suc length_dropWhile_le)

function match_path :: "'s node \<Rightarrow> string \<Rightarrow> string list \<Rightarrow> ('s pattern \<times> string list) option" where
  "match_path n path ms =
     (if n = [] then None
      else if path = '''' then map_option (\<lambda>p. (p, ms)) (leaf n)
      else
        case match_path (below (Lit (fst (firstSegment path))) n) (snd (firstSegment path)) ms of
          Some x \<Rightarrow> Some x
        | None \<Rightarrow>
            (case (if fst (firstSegment path) \<noteq> ''/''
                   then match_path (below (Wild '''') n) (snd (firstSegment path)) (ms @ [fst (firstSegment path)])
                   else None) of
               Some x \<Rightarrow> Some x
             | None \<Rightarrow>
                 map_option (\<lambda>(name, p). (p, if name \<noteq> '''' then ms @ [path_unescape (drop 1 path)] else ms))
                   (multi n)))"
  by pat_completeness auto

termination
  by (relation "measure (\<lambda>(n, path, ms). length path)") (auto simp: firstSegment_shorter)

declare match_path.simps [simp del]

definition root_node :: "'s mux \<Rightarrow> string \<Rightarrow> 's node" where
  "root_node mx m = map (\<lambda>p. (pat_segs p, p)) (filter (\<lambda>p. pat_method p = m) mx)"

definition match_method :: "'s mux \<Rightarrow> string \<Rightarrow> string \<Rightarrow> ('s pattern \<times> string list) option" where
  "match_method mx m path =
     (case match_path (root_node mx m) path [] of
        Some x \<Rightarrow> Some x
      | None \<Rightarrow>
          (case (if m = ''HEAD'' then match_path (root_node mx ''GET'') path [] else None) of
             Some x \<Rightarrow> Some x
           | None \<Rightarrow> match_path (root_node mx '''') path []))"

definition is_multi :: "'s pattern \<Rightarrow> bool" where
  "is_multi p \<longleftrightarrow> (case last (pat_segs p) of Rest _ \<Rightarrow> True | _ \<Rightarrow> False)"

definition exactMatch :: "('s pattern \<times> string list) option \<Rightarrow> string \<Rightarrow> bool" where
  "exactMatch n path =
     (case n of
        None \<Rightarrow> False
      | Some (p, _) \<Rightarrow>
          if \<not> is_multi p then True
          else if path \<noteq> '''' \<and> last path \<noteq> CHR ''/'' then False
          else length (pat_segs p) = length (filter (\<lambda>c. c = CHR ''/'') path))"

text \<open>\<open>cleanPath\<close> on a rooted path: \<open>path.Clean\<close>, with a trailing slash put back.\<close>

fun clean_segs :: "string list \<Rightarrow> string list \<Rightarrow> string list" where
  "clean_segs [] acc = rev acc"
| "clean_segs (s # ss) acc =
     (if s = '''' \<or> s = ''.'' then clean_segs ss acc
      else if s = ''..'' then clean_segs ss (drop 1 acc)
      else clean_segs ss (s # acc))"

definition cleanPath :: "string \<Rightarrow> string" where
  "cleanPath p =
     (if p = '''' then ''/''
      else
        let p = (if hd p \<noteq> CHR ''/'' then ''/'' @ p else p);
            np = ''/'' @ join_str (clean_segs (split_slash p) []) ''/''
        in if last p = CHR ''/'' \<and> np \<noteq> ''/'' then np @ ''/'' else np)"

text \<open>The handler for a request, with what \<open>ServeHTTP\<close> stores in it.\<close>

datatype 's found =
    Redirect string string
  | Found "'s handler" string "(string \<times> string) list"
  | MethodNotAllowed "string list"
  | PathNotFound

fun wild_names :: "seg list \<Rightarrow> string list" where
  "wild_names [] = []"
| "wild_names (Wild n # gs) = n # wild_names gs"
| "wild_names (Rest n # gs) = (if n = '''' then [] else [n]) @ wild_names gs"
| "wild_names (Lit _ # gs) = wild_names gs"

definition trailing_redirect :: "'s mux \<Rightarrow> string \<Rightarrow> string \<Rightarrow> 's pattern option" where
  "trailing_redirect mx m path =
     (if \<not> exactMatch (match_method mx m path) path \<and> \<not> has_suffix path ''/'' then
        (let n = match_method mx m (path @ ''/'') in
         if exactMatch n (path @ ''/'') then map_option fst n else None)
      else None)"

definition matchingMethods :: "'s mux \<Rightarrow> string \<Rightarrow> string list" where
  "matchingMethods mx path =
     (let paths = path # (if has_suffix path ''/'' then [] else [path @ ''/'']);
          ms = filter (\<lambda>m. m \<noteq> '''' \<and> (\<exists>q \<in> set paths. match_path (root_node mx m) q [] \<noteq> None)) (map pat_method mx);
          ms = (if ''GET'' \<in> set ms then ''HEAD'' # ms else ms)
      in sort (remdups ms))"

definition found_of :: "'s mux \<Rightarrow> string \<Rightarrow> ('s pattern \<times> string list) option \<Rightarrow> 's found" where
  "found_of mx path n =
     (case n of
        Some (p, ms) \<Rightarrow> Found (pat_handler p) (pat_str p) (zip (wild_names (pat_segs p)) ms)
      | None \<Rightarrow>
          (case matchingMethods mx path of [] \<Rightarrow> PathNotFound | allowed \<Rightarrow> MethodNotAllowed allowed))"

definition findHandler :: "'s mux \<Rightarrow> request \<Rightarrow> 's found" where
  "findHandler mx r =
     (if Method r = ''CONNECT'' then
        (case trailing_redirect mx (Method r) (RawPath r) of
           Some p \<Rightarrow> Redirect (cleanPath (Path r) @ ''/'') (cleanPath (Path r) @ ''/'')
         | None \<Rightarrow> found_of mx (RawPath r) (match_method mx (Method r) (RawPath r)))
      else
        let path = cleanPath (RawPath r) in
        (case trailing_redirect mx (Method r) path of
           Some p \<Rightarrow> Redirect (cleanPath (Path r) @ ''/'') (pat_str p)
         | None \<Rightarrow>
             let n = match_method mx (Method r) path in
             if path \<noteq> RawPath r then Redirect path (case n of None \<Rightarrow> '''' | Some (p, _) \<Rightarrow> pat_str p)
             else found_of mx path n))"

section \<open>Serving\<close>

text \<open>\<open>http.Error\<close> and \<open>http.Redirect\<close>.\<close>

definition http_error :: "string \<Rightarrow> nat \<Rightarrow> 'a web_scheme \<Rightarrow> 'a web_scheme" where
  "http_error txt code w =
     write_chunk (TextBody (txt @ [CHR 0x0A]))
       (WriteHeader code (set_header ''X-Content-Type-Options'' ''nosniff''
         (set_header ''Content-Type'' ''text/plain; charset=utf-8''
           (w\<lparr>hdr := (hdr w)(canonical_key ''Content-Length'' := None)\<rparr>))))"

record mux_env =
  redirect_status :: nat
  url_string :: "string \<Rightarrow> string \<Rightarrow> string"

definition http_redirect :: "mux_env \<Rightarrow> string \<Rightarrow> request \<Rightarrow> 'a web_scheme \<Rightarrow> 'a web_scheme" where
  "http_redirect U path r w =
     (let url = url_string U path (RawQuery r);
          html = hdr w (canonical_key ''Content-Type'') = None \<and> Method r \<in> {''GET'', ''HEAD''};
          w = set_header ''Location'' url w;
          w = (if html then set_header ''Content-Type'' ''text/html; charset=utf-8'' w else w);
          w = WriteHeader (redirect_status U) w
      in if html \<and> Method r = ''GET'' then write_chunk (TextBody url) w else w)"

definition mux_serve :: "mux_env \<Rightarrow> 'a web_scheme mux \<Rightarrow> 'a web_scheme handler" where
  "mux_serve U mx r w =
     (if RawPath r = ''*'' then
        Done r (WriteHeader 400 (set_header ''Connection'' ''close'' w))
      else case findHandler mx r of
        Found h pat vals \<Rightarrow> h (r\<lparr>Pattern := pat, PathValues := vals\<rparr>) w
      | Redirect path pat \<Rightarrow> Done (r\<lparr>Pattern := pat, PathValues := []\<rparr>) (http_redirect U path r w)
      | MethodNotAllowed ms \<Rightarrow>
          Done (r\<lparr>Pattern := '''', PathValues := []\<rparr>)
            (http_error (StatusText 405) 405 (set_header ''Allow'' (join_str ms '', '') w))
      | PathNotFound \<Rightarrow> Done (r\<lparr>Pattern := '''', PathValues := []\<rparr>) (http_error ''404 page not found'' 404 w))"

section \<open>Lemmas\<close>

lemma match_rest: "n \<noteq> [] \<Longrightarrow> path \<noteq> '''' \<Longrightarrow> multi n \<noteq> None \<Longrightarrow> match_path n path ms \<noteq> None"
  by (subst match_path.simps) (auto split: option.splits)

text \<open>What a found pattern is: one of the table.\<close>

lemma below_in: "(t, p) \<in> set (below g n) \<Longrightarrow> \<exists>segs. (segs, p) \<in> set n"
proof (induction n)
  case (Cons x n)
  then show ?case by (cases x) (auto split: list.splits seg.splits if_splits)
qed simp

lemma leaf_in: "leaf n = Some p \<Longrightarrow> ([], p) \<in> set n"
  by (induction n rule: leaf.induct) (auto split: if_splits)

lemma multi_in: "multi n = Some (name, p) \<Longrightarrow> ([Rest name], p) \<in> set n"
  by (induction n rule: multi.induct) (auto split: list.splits seg.splits)

lemma match_path_in: "match_path n path ms = Some (p, vs) \<Longrightarrow> \<exists>segs. (segs, p) \<in> set n"
proof (induction n path ms rule: match_path.induct)
  case (1 n path ms)
  show ?case
  proof (cases "n = [] \<or> path = ''''")
    case True
    with "1.prems" show ?thesis by (subst (asm) match_path.simps) (auto split: if_splits dest: leaf_in)
  next
    case False
    let ?seg = "fst (firstSegment path)" and ?rest = "snd (firstSegment path)"
    consider (lit) "match_path (below (Lit ?seg) n) ?rest ms = Some (p, vs)"
      | (wild) "match_path (below (Lit ?seg) n) ?rest ms = None" "?seg \<noteq> ''/''"
          "match_path (below (Wild '''') n) ?rest (ms @ [?seg]) = Some (p, vs)"
      | (rest) name where "multi n = Some (name, p)"
      using "1.prems" False by (subst (asm) match_path.simps) (auto split: option.splits if_splits)
    then show ?thesis
    proof cases
      case lit
      from "1.IH"(1) [OF _ _ lit] False below_in show ?thesis by metis
    next
      case wild
      from "1.IH"(2) [OF _ _ wild(1,2,3)] False below_in show ?thesis by metis
    next
      case rest
      then show ?thesis using multi_in by fastforce
    qed
  qed
qed

lemma match_method_in: "match_method mx m path = Some (p, vs) \<Longrightarrow>
    p \<in> set mx \<and> (pat_method p = m \<or> pat_method p = '''' \<or> (m = ''HEAD'' \<and> pat_method p = ''GET''))"
  by (auto simp: match_method_def root_node_def split: option.splits if_splits dest!: match_path_in)

text \<open>What a mux answers by itself: a bad request, a redirect, 405 or 404.\<close>

definition own_answer :: "mux_env \<Rightarrow> request \<Rightarrow> 'a web_scheme \<Rightarrow> 'a web_scheme \<Rightarrow> bool" where
  "own_answer U r w w' \<longleftrightarrow>
     w' = WriteHeader 400 (set_header ''Connection'' ''close'' w) \<or>
     (\<exists>path. w' = http_redirect U path r w) \<or>
     (\<exists>ms. w' = http_error (StatusText 405) 405 (set_header ''Allow'' ms w)) \<or>
     w' = http_error ''404 page not found'' 404 w"

lemma found_of_Found:
  assumes "found_of mx path n = Found h pat vals"
  obtains p ms where "n = Some (p, ms)" "h = pat_handler p" "pat = pat_str p"
  using assms by (auto simp: found_of_def split: option.splits list.splits)

lemma findHandler_Found:
  assumes "findHandler mx r = Found h pat vals"
  obtains p ms path where "match_method mx (Method r) path = Some (p, ms)" "h = pat_handler p" "pat = pat_str p"
    "path = RawPath r"
  using assms unfolding findHandler_def Let_def
  by (auto split: if_splits option.splits prod.splits elim!: found_of_Found)

lemma mux_serve_cases:
  obtains (found) p ms vals where "p \<in> set mx"
      "pat_method p = Method r \<or> pat_method p = '''' \<or> (Method r = ''HEAD'' \<and> pat_method p = ''GET'')"
      "match_method mx (Method r) (RawPath r) = Some (p, ms)"
      "mux_serve U mx r w = pat_handler p (r\<lparr>Pattern := pat_str p, PathValues := vals\<rparr>) w"
  | (own) r' w' where "mux_serve U mx r w = Done r' w'" "own_answer U r w w'"
      "r' = r \<or> (\<exists>pat. r' = r\<lparr>Pattern := pat, PathValues := []\<rparr>)"
proof (cases "RawPath r = ''*''")
  case True
  then show thesis by (intro own) (auto simp: mux_serve_def own_answer_def)
next
  case False
  show thesis
  proof (cases "findHandler mx r")
    case (Found h pat vals)
    then obtain p ms where p: "match_method mx (Method r) (RawPath r) = Some (p, ms)" "h = pat_handler p" "pat = pat_str p"
      by (elim findHandler_Found) simp
    show thesis
      by (rule found [of p ms vals]) (use match_method_in [OF p(1)] p False Found in \<open>auto simp: mux_serve_def\<close>)
  next
    case (Redirect path pat)
    then show thesis using False by (intro own) (auto simp: mux_serve_def own_answer_def)
  next
    case (MethodNotAllowed ms)
    then show thesis using False by (intro own) (auto simp: mux_serve_def own_answer_def)
  next
    case PathNotFound
    then show thesis using False by (intro own) (auto simp: mux_serve_def own_answer_def)
  qed
qed

lemma http_redirect_fields:
  "wrote w = None \<Longrightarrow> \<exists>h. wrote (http_redirect U path r w) = Some (redirect_status U, h)"
  "web.more (http_redirect U path r w) = web.more w"
  by (auto simp: http_redirect_def Let_def split: if_split)

lemma http_error_fields:
  "wrote w = None \<Longrightarrow> \<exists>h. wrote (http_error t c w) = Some (c, h)"
  "web.more (http_error t c w) = web.more w"
  by (auto simp: http_error_def)

lemma own_answer_fields:
  assumes "own_answer U r w w'" and "wrote w = None"
  shows "status_of w' \<in> {400, 404, 405, redirect_status U}" "web.more w' = web.more w"
proof -
  from assms consider (bad) "w' = WriteHeader 400 (set_header ''Connection'' ''close'' w)"
    | (red) path where "w' = http_redirect U path r w"
    | (allow) ms where "w' = http_error (StatusText 405) 405 (set_header ''Allow'' ms w)"
    | (miss) "w' = http_error ''404 page not found'' 404 w"
    unfolding own_answer_def by blast
  note c = this
  show "status_of w' \<in> {400, 404, 405, redirect_status U}"
    using c
  proof cases
    case (red path)
    then show ?thesis using http_redirect_fields(1) [OF assms(2), of U path r] by (auto simp: status_of_def)
  next
    case (allow ms)
    have "wrote (set_header ''Allow'' ms w) = None" using assms(2) by simp
    from http_error_fields(1) [OF this, of "StatusText 405" 405] show ?thesis
      unfolding allow by (auto simp: status_of_def)
  next
    case miss
    from http_error_fields(1) [OF assms(2), of "''404 page not found''" 404] show ?thesis
      unfolding miss by (auto simp: status_of_def)
  qed (use assms(2) in \<open>simp add: status_of_def\<close>)
  show "web.more w' = web.more w"
    using c by cases (simp_all add: http_redirect_fields http_error_fields)
qed

end
