(* ===== verification/JwksConcurrent.thy ===== *)
theory JwksConcurrent
  imports JwksClient
begin

text \<open>
  The JWKS cache under concurrent authentications: any number of goroutines inside \<open>key\<close>, each
  step one critical section of internal/auth/jwt.go (the mutex makes it atomic), the end of a
  network fetch, a wake-up, or the passing of time. The scheduler, the provider and the callers'
  contexts are free. Only one assumption limits them: \<open>B\<close> bounds the time from a goroutine's
  reading of the clock to the end of the fetch it may claim.
\<close>

section \<open>The system\<close>

datatype goroutine =
    Started string
  | Timed gotime string
  | Waiting nat string
  | Fetching gotime string
  | Fetched "fetch_error option" gotime string
  | Closed "fetch_error option" string
  | Answered "key_error + pubkey"
  | Crashed

text \<open>
  \<open>stuck\<close>: the mutex is held by a goroutine that panicked (the section that closes the channel has
  no deferred unlock). \<open>claims\<close> records the times under which fetches were claimed, newest first.
\<close>

record jwks_sys =
  client :: jwksClient
  gs :: "nat \<rightharpoonup> goroutine"
  clk :: gotime
  stuck :: bool
  claims :: "gotime list"

definition init_sys :: "string \<Rightarrow> http_client \<Rightarrow> gotime \<Rightarrow> jwks_sys" where
  "init_sys url hc t = \<lparr>client = newJWKSClient url hc, gs = (\<lambda>_. None), clk = t, stuck = False, claims = []\<rparr>"

fun after_enter :: "entry \<Rightarrow> gotime \<Rightarrow> string \<Rightarrow> goroutine" where
  "after_enter (Hit key) now kid = Answered (Inr key)"
| "after_enter Unknown now kid = Answered (Inl UnknownKeyID)"
| "after_enter (WaitOn ch) now kid = Waiting ch kid"
| "after_enter StartFetch now kid = Fetching now kid"

text \<open>The clock reading a goroutine acts on, while it may hold or still claim the fetch slot.\<close>

fun since :: "goroutine \<Rightarrow> gotime option" where
  "since (Timed now kid) = Some now"
| "since (Fetching now kid) = Some now"
| "since (Fetched err now kid) = Some now"
| "since _ = None"

definition put :: "nat \<Rightarrow> goroutine \<Rightarrow> jwks_sys \<Rightarrow> jwks_sys" where
  "put i g s = s\<lparr>gs := (gs s)(i \<mapsto> g)\<rparr>"

inductive jwks_step :: "(string \<Rightarrow> json option) \<Rightarrow> duration \<Rightarrow> jwks_sys \<Rightarrow> jwks_sys \<Rightarrow> bool"
  for dec :: "string \<Rightarrow> json option" and B :: duration where
  call: "gs s i = None \<Longrightarrow> jwks_step dec B s (put i (Started kid) s)"
| read_clock: "gs s i = Some (Started kid) \<Longrightarrow> jwks_step dec B s (put i (Timed (clk s) kid) s)"
| enter: "gs s i = Some (Timed now kid) \<Longrightarrow> \<not> stuck s \<Longrightarrow>
    key_enter now kid (client s) = (r, c) \<Longrightarrow>
    jwks_step dec B s (put i (after_enter r now kid)
      (s\<lparr>client := c, claims := (if r = StartFetch then now # claims s else claims s)\<rparr>))"
| wake: "gs s i = Some (Waiting ch kid) \<Longrightarrow> \<not> stuck s \<Longrightarrow> ch \<in> closedChans (client s) \<Longrightarrow>
    jwks_step dec B s (put i (Answered (answer None kid (client s))) s)"
| cancel: "gs s i = Some (Waiting ch kid) \<Longrightarrow>
    jwks_step dec B s (put i (Answered (Inl CtxDone)) s)"
| fetched: "gs s i = Some (Fetching now kid) \<Longrightarrow> fetch dec resp = (err, new) \<Longrightarrow>
    new = None \<or> \<not> stuck s \<Longrightarrow>
    jwks_step dec B s (put i (Fetched err now kid) (s\<lparr>client := apply_fetch new (clk s) (client s)\<rparr>))"
| close_ok: "gs s i = Some (Fetched err now kid) \<Longrightarrow> \<not> stuck s \<Longrightarrow>
    close_fetching (client s) = Return c \<Longrightarrow>
    jwks_step dec B s (put i (Closed err kid) (s\<lparr>client := c\<rparr>))"
| close_panic: "gs s i = Some (Fetched err now kid) \<Longrightarrow> \<not> stuck s \<Longrightarrow>
    close_fetching (client s) = Panic e \<Longrightarrow>
    jwks_step dec B s (put i Crashed (s\<lparr>stuck := True\<rparr>))"
| finish: "gs s i = Some (Closed err kid) \<Longrightarrow> \<not> stuck s \<Longrightarrow>
    jwks_step dec B s (put i (Answered (answer err kid (client s))) s)"
| tick: "0 \<le> d \<Longrightarrow> \<forall>i g now. gs s i = Some g \<and> since g = Some now \<longrightarrow> clk s + d < now + B \<Longrightarrow>
    jwks_step dec B s (s\<lparr>clk := clk s + d\<rparr>)"

inductive jwks_reach :: "(string \<Rightarrow> json option) \<Rightarrow> duration \<Rightarrow> jwks_sys \<Rightarrow> bool"
  for dec :: "string \<Rightarrow> json option" and B :: duration where
  init: "jwks_reach dec B (init_sys url hc t)"
| step: "jwks_reach dec B s \<Longrightarrow> jwks_step dec B s s' \<Longrightarrow> jwks_reach dec B s'"

inductive_cases jwks_stepE: "jwks_step dec B s s'"

fun in_fetch :: "goroutine \<Rightarrow> bool" where
  "in_fetch (Fetching now kid) \<longleftrightarrow> True"
| "in_fetch (Fetched err now kid) \<longleftrightarrow> True"
| "in_fetch _ \<longleftrightarrow> False"

definition fetcher :: "jwks_sys \<Rightarrow> nat \<Rightarrow> bool" where
  "fetcher s i \<longleftrightarrow> (\<exists>g. gs s i = Some g \<and> in_fetch g)"

section \<open>Refetches are spaced\<close>

text \<open>
  Whatever the scheduler, the clock readings and the length of fetches: two claims differ by at
  least the refresh interval.
\<close>

definition spaced :: "jwks_sys \<Rightarrow> bool" where
  "spaced s \<longleftrightarrow> sorted_wrt (\<lambda>new old. old + jwksMinRefreshInterval \<le> new) (claims s) \<and>
     (claims s \<noteq> [] \<longrightarrow> lastFetchAttempt (client s) = hd (claims s))"

lemma interval_pos: "in_int64 jwksMinRefreshInterval" "0 < jwksMinRefreshInterval"
  by (simp_all add: jwksMinRefreshInterval_def duration_defs int64_defs)

lemma put_simps [simp]:
  "client (put i g s) = client s" "clk (put i g s) = clk s" "stuck (put i g s) = stuck s"
  "claims (put i g s) = claims s" "gs (put i g s) = (gs s)(i \<mapsto> g)"
  by (simp_all add: put_def)

lemma close_fetching_Return:
  "close_fetching c = Return c' \<longleftrightarrow>
     (\<exists>ch. fetching c = Some ch \<and> ch \<notin> closedChans c
        \<and> c' = c\<lparr>closedChans := insert ch (closedChans c), fetching := None\<rparr>)"
  by (auto simp: close_fetching_def split: option.splits)

lemma enter_StartFetch:
  "key_enter now kid c = (StartFetch, c') \<Longrightarrow>
     c' = claim_fetch now c \<and> lastFetchAttempt c + jwksMinRefreshInterval \<le> now"
  using time_sub_ge_iff [of jwksMinRefreshInterval now "lastFetchAttempt c"] interval_pos
  by (cases rule: key_enter_cases [where c = c and kid = kid and now = now])
    (auto simp: throttled_lookup_def min_int64_def split: option.splits)

lemma enter_other: "key_enter now kid c = (r, c') \<Longrightarrow> r \<noteq> StartFetch \<Longrightarrow> c' = c"
  by (cases rule: key_enter_cases [where c = c and kid = kid and now = now]) auto

lemma spaced_sorted_tail:
  "sorted_wrt (\<lambda>new old. old + jwksMinRefreshInterval \<le> new) (t # ts) \<Longrightarrow> t + jwksMinRefreshInterval \<le> now \<Longrightarrow>
   sorted_wrt (\<lambda>new old. old + jwksMinRefreshInterval \<le> new) (now # t # ts)"
  using interval_pos by fastforce

lemma step_spaced: "jwks_step dec B s s' \<Longrightarrow> spaced s \<Longrightarrow> spaced s'"
proof (induction rule: jwks_step.induct)
  case (enter s i now kid r c)
  show ?case
  proof (cases "r = StartFetch")
    case True
    with enter enter_StartFetch have c: "c = claim_fetch now (client s)"
      "lastFetchAttempt (client s) + jwksMinRefreshInterval \<le> now" by auto
    show ?thesis
    proof (cases "claims s")
      case Nil
      with True c show ?thesis by (simp add: spaced_def claim_fetch_def)
    next
      case (Cons t ts)
      with enter.prems c(2) have
        "sorted_wrt (\<lambda>new old. old + jwksMinRefreshInterval \<le> new) (now # t # ts)"
        by (intro spaced_sorted_tail) (simp_all add: spaced_def)
      with True c Cons show ?thesis by (simp add: spaced_def claim_fetch_def)
    qed
  next
    case False
    with enter_other [OF enter.hyps(3)] enter.prems show ?thesis by (simp add: spaced_def)
  qed
qed (auto simp: spaced_def close_fetching_Return)

lemma reach_spaced: "jwks_reach dec B s \<Longrightarrow> spaced s"
proof (induction rule: jwks_reach.induct)
  case (init url hc t)
  show ?case by (simp add: spaced_def init_sys_def)
qed (rule step_spaced)

section \<open>At most one fetch at a time\<close>

definition sys_ok :: "duration \<Rightarrow> jwks_sys \<Rightarrow> bool" where
  "sys_ok B s \<longleftrightarrow> client_ok (client s) \<and> \<not> stuck s \<and>
     (\<forall>i. gs s i \<noteq> Some Crashed) \<and>
     (\<forall>i j. fetcher s i \<and> fetcher s j \<longrightarrow> i = j) \<and>
     (\<forall>i g now. gs s i = Some g \<and> in_fetch g \<and> since g = Some now \<longrightarrow>
        fetching (client s) \<noteq> None \<and> lastFetchAttempt (client s) = now) \<and>
     (fetching (client s) \<noteq> None \<longrightarrow> (\<exists>i. fetcher s i)) \<and>
     (\<forall>i ch kid. gs s i = Some (Waiting ch kid) \<longrightarrow>
        ch \<in> closedChans (client s) \<or> fetching (client s) = Some ch) \<and>
     (\<forall>i g now. gs s i = Some g \<and> since g = Some now \<longrightarrow> now \<le> clk s \<and> clk s < now + B) \<and>
     (\<forall>i key. gs s i = Some (Answered (Inr key)) \<longrightarrow> key_ok key)"

lemma in_fetch_since: "in_fetch g \<Longrightarrow> \<exists>now. since g = Some now"
  by (cases g) auto

lemma answer_key_ok: "client_ok c \<Longrightarrow> answer err kid c = Inr key \<Longrightarrow> key_ok key"
  by (auto simp: client_ok_def keys_ok_def answer_Inr)

lemma fetcher_put:
  "fetcher (put i g s) j \<longleftrightarrow> (if j = i then in_fetch g else fetcher s j)"
  by (simp add: fetcher_def)

lemma fetcher_update [simp]:
  "fetcher (s\<lparr>client := c\<rparr>) j = fetcher s j" "fetcher (s\<lparr>claims := cs\<rparr>) j = fetcher s j"
  "fetcher (s\<lparr>stuck := b\<rparr>) j = fetcher s j" "fetcher (s\<lparr>clk := t\<rparr>) j = fetcher s j"
  by (simp_all add: fetcher_def)

text \<open>What the invariant says of the goroutine that moves.\<close>

lemma sys_okD:
  assumes "sys_ok B s"
  shows "client_ok (client s)" "\<not> stuck s"
    "fetcher s i \<Longrightarrow> fetcher s j \<Longrightarrow> i = j"
    "gs s i = Some g \<Longrightarrow> in_fetch g \<Longrightarrow> since g = Some now \<Longrightarrow>
      fetching (client s) \<noteq> None \<and> lastFetchAttempt (client s) = now"
    "fetching (client s) \<noteq> None \<Longrightarrow> \<exists>i. fetcher s i"
    "gs s i = Some (Waiting ch kid) \<Longrightarrow> ch \<in> closedChans (client s) \<or> fetching (client s) = Some ch"
    "gs s i = Some g \<Longrightarrow> since g = Some now \<Longrightarrow> now \<le> clk s \<and> clk s < now + B"
    "gs s i = Some (Answered (Inr key)) \<Longrightarrow> key_ok key" "gs s i \<noteq> Some Crashed"
  using assms unfolding sys_ok_def by blast+

text \<open>A goroutine that claims the slot finds it free: the bound on fetches is the interval.\<close>

lemma claim_finds_slot_free:
  assumes ok: "sys_ok B s" and B: "B \<le> jwksMinRefreshInterval"
    and g: "gs s i = Some (Timed now kid)" and e: "key_enter now kid (client s) = (StartFetch, c)"
  shows "\<not> fetcher s j"
proof
  assume "fetcher s j"
  then obtain g' now' where g': "gs s j = Some g'" "in_fetch g'" "since g' = Some now'"
    using in_fetch_since by (fastforce simp: fetcher_def)
  have "lastFetchAttempt (client s) = now'" "clk s < now' + B"
    using sys_okD(4,7) [OF ok g'(1)] g' by auto
  moreover have "now \<le> clk s"
    using sys_okD(7) [OF ok g] by simp
  ultimately show False
    using enter_StartFetch [OF e] B by simp
qed

text \<open>
  Steps that leave the client and the fetch alone: the mover goes from one goroutine state outside
  the fetch to another.
\<close>

lemma sys_ok_put:
  assumes ok: "sys_ok B s" and i: "\<not> fetcher s i" and g: "\<not> in_fetch g" "g \<noteq> Crashed"
    and w: "\<And>ch kid. g = Waiting ch kid \<Longrightarrow> fetching (client s) = Some ch"
    and t: "\<And>now. since g = Some now \<Longrightarrow> now \<le> clk s \<and> clk s < now + B"
    and k: "\<And>key. g = Answered (Inr key) \<Longrightarrow> key_ok key"
  shows "sys_ok B (put i g s)"
proof -
  have "fetcher (put i g s) j \<longleftrightarrow> fetcher s j" for j
    using i g by (simp add: fetcher_put)
  then show ?thesis
    using assms unfolding sys_ok_def by (auto simp: fetcher_def)
qed

lemma step_sys_ok_enter:
  assumes ok: "sys_ok B s" and B: "B \<le> jwksMinRefreshInterval"
    and g: "gs s i = Some (Timed now kid)" and e: "key_enter now kid (client s) = (r, c)"
  shows "sys_ok B (put i (after_enter r now kid)
      (s\<lparr>client := c, claims := (if r = StartFetch then now # claims s else claims s)\<rparr>))"
proof (cases "r = StartFetch")
  case True
  with e have c: "c = claim_fetch now (client s)" and free: "\<And>j. \<not> fetcher s j"
    using enter_StartFetch claim_finds_slot_free [OF ok B g] by auto
  then have none: "fetching (client s) = None"
    using sys_okD(5) [OF ok] by blast
  have f: "in_fetch g' \<Longrightarrow> gs s j \<noteq> Some g'" for j g'
    using free by (auto simp: fetcher_def)
  have cok: "client_ok c" using c sys_okD(1) [OF ok] by (simp add: claim_fetch_ok)
  have "now \<le> clk s \<and> clk s < now + B" using sys_okD(7) [OF ok g] by simp
  with ok cok True free f none show ?thesis
    unfolding sys_ok_def c by (auto simp: fetcher_put claim_fetch_def)
next
  case False
  then have c: "c = client s" using e enter_other by auto
  have "\<not> fetcher s i" using g by (simp add: fetcher_def)
  moreover have "r = Hit key \<Longrightarrow> key_ok key" for key
    using e sys_okD(1) [OF ok]
    by (cases rule: key_enter_cases [where c = "client s" and kid = kid and now = now])
      (auto simp: client_ok_def keys_ok_def throttled_lookup_Hit)
  moreover have "r = WaitOn ch \<Longrightarrow> fetching (client s) = Some ch" for ch
    using e by (cases rule: key_enter_cases [where c = "client s" and kid = kid and now = now])
      (auto simp: throttled_lookup_def split: option.splits)
  ultimately have "sys_ok B (put i (after_enter r now kid) s)"
    using False by (intro sys_ok_put [OF ok]) (cases r; auto)+
  then show ?thesis using False c by (simp add: put_def)
qed

lemma step_sys_ok_fetched:
  assumes ok: "sys_ok B s" and g: "gs s i = Some (Fetching now kid)" and f: "fetch dec resp = (err, new)"
  shows "sys_ok B (put i (Fetched err now kid) (s\<lparr>client := apply_fetch new (clk s) (client s)\<rparr>))"
proof -
  have "client_ok (apply_fetch new (clk s) (client s))"
    using apply_fetch_ok [OF sys_okD(1) [OF ok] f] .
  moreover have "fetcher s i" using g by (simp add: fetcher_def)
  moreover have "fetching (client s) \<noteq> None \<and> lastFetchAttempt (client s) = now"
    "now \<le> clk s \<and> clk s < now + B"
    using sys_okD(4,7) [OF ok g] by auto
  ultimately show ?thesis
    using ok unfolding sys_ok_def by (auto simp: fetcher_put)
qed

lemma step_sys_ok_close:
  assumes ok: "sys_ok B s" and g: "gs s i = Some (Fetched err now kid)"
    and c: "close_fetching (client s) = Return c"
  shows "sys_ok B (put i (Closed err kid) (s\<lparr>client := c\<rparr>))"
proof -
  obtain ch where ch: "fetching (client s) = Some ch" "ch \<notin> closedChans (client s)"
    and c': "c = (client s)\<lparr>closedChans := insert ch (closedChans (client s)), fetching := None\<rparr>"
    using c by (auto simp: close_fetching_Return)
  have "fetcher s i" using g by (simp add: fetcher_def)
  then have only: "fetcher s j \<Longrightarrow> j = i" for j using sys_okD(3) [OF ok] by blast
  then have none: "j \<noteq> i \<Longrightarrow> gs s j = Some g' \<Longrightarrow> \<not> in_fetch g'" for j g'
    by (auto simp: fetcher_def)
  have "client_ok c"
    using sys_okD(1) [OF ok] ch by (auto simp: client_ok_def c')
  moreover have "gs s j = Some (Waiting ch' kid') \<Longrightarrow> ch' = ch \<or> ch' \<in> closedChans (client s)" for j ch' kid'
    using sys_okD(6) [OF ok] ch by fastforce
  ultimately show ?thesis
    using ok ch only none unfolding sys_ok_def c' by (auto simp: fetcher_put)
qed

lemma step_sys_ok:
  "jwks_step dec B s s' \<Longrightarrow> B \<le> jwksMinRefreshInterval \<Longrightarrow> 0 < B \<Longrightarrow> sys_ok B s \<Longrightarrow> sys_ok B s'"
proof (induction rule: jwks_step.induct)
  case (enter s i now kid r c)
  then show ?case by (intro step_sys_ok_enter)
next
  case (fetched s i now kid resp err new)
  then show ?case by (intro step_sys_ok_fetched)
next
  case (close_ok s i err now kid c)
  then show ?case by (intro step_sys_ok_close)
next
  case (close_panic s i err now kid e)
  then have "fetching (client s) \<noteq> None" using sys_okD(4) [OF close_panic.prems(3)] by fastforce
  then have False
    using close_panic sys_okD(1) [OF close_panic.prems(3)]
    by (auto simp: close_fetching_def client_ok_def split: if_splits)
  then show ?case ..
next
  case (tick d s)
  then show ?case unfolding sys_ok_def by (fastforce simp: fetcher_def)
next
  case (wake s i ch kid)
  then show ?case
    by (intro sys_ok_put) (auto simp: fetcher_def dest: answer_key_ok [OF sys_okD(1)])
next
  case (finish s i err kid)
  then show ?case
    by (intro sys_ok_put) (auto simp: fetcher_def dest: answer_key_ok [OF sys_okD(1)])
qed (auto intro!: sys_ok_put simp: fetcher_def)

lemma init_sys_ok: "sys_ok B (init_sys url hc t)"
  by (simp add: sys_ok_def init_sys_def fetcher_def newJWKSClient_def client_ok_def)

lemma reach_sys_ok:
  assumes "jwks_reach dec B s" and "B \<le> jwksMinRefreshInterval" and "0 < B"
  shows "sys_ok B s"
  using assms by (induction rule: jwks_reach.induct) (auto intro: step_sys_ok init_sys_ok)

section \<open>Properties of every reachable state\<close>

text \<open>C11: If a fetch, counted from the clock reading that claimed it, ends within the refresh interval
  (the default client gives up after ten seconds), then in every reachable state at most one
  goroutine is fetching, no goroutine has panicked, the mutex is not stuck, and every key handed out
  is fit for use.\<close>

theorem at_most_one_fetch:
  assumes "jwks_reach dec B s" and "0 < B" and "B \<le> jwksMinRefreshInterval"
  shows "\<not> stuck s \<and> (\<forall>i. gs s i \<noteq> Some Crashed)
    \<and> (\<forall>i j. fetcher s i \<and> fetcher s j \<longrightarrow> i = j)
    \<and> (\<forall>i key. gs s i = Some (Answered (Inr key)) \<longrightarrow> key_ok key)"
  using reach_sys_ok [OF assms(1,3,2)] by (simp add: sys_ok_def)

text \<open>Claims of the fetch slot are at least the refresh interval apart in every reachable state,
  whatever the scheduler does and however long fetches take; only goroutines that claimed it fetch.\<close>

theorem claims_spaced:
  assumes "jwks_reach dec B s" and "pre @ new # old # post = claims s"
  shows "old + jwksMinRefreshInterval \<le> new"
  using reach_spaced [OF assms(1)] assms(2) [symmetric] by (simp add: spaced_def sorted_wrt_append)

text \<open>Shortcuts through runs: a new goroutine that gets the fetch slot, and a fetch that fails.\<close>

lemma put_put [simp]: "put i g (put i h s) = put i g s"
  by (simp add: put_def)

lemma put_client [simp]: "(put i g s)\<lparr>client := c, claims := cs\<rparr> = put i g (s\<lparr>client := c, claims := cs\<rparr>)"
  by (simp add: put_def)

lemma reach_claim:
  assumes r: "jwks_reach dec B s" and g: "gs s i = None" and st: "\<not> stuck s"
    and e: "key_enter (clk s) kid (client s) = (StartFetch, c)"
  shows "jwks_reach dec B (put i (Fetching (clk s) kid) (s\<lparr>client := c, claims := clk s # claims s\<rparr>))"
proof -
  have "jwks_reach dec B (put i (Started kid) s)"
    using r jwks_step.call [OF g] by (rule jwks_reach.step)
  then have "jwks_reach dec B (put i (Timed (clk s) kid) s)"
    by (rule jwks_reach.step)
      (use jwks_step.read_clock [of "put i (Started kid) s" i kid dec B] in simp)
  then show ?thesis
    by (rule jwks_reach.step)
      (use jwks_step.enter [of "put i (Timed (clk s) kid) s" i "clk s" kid StartFetch c dec B] e st in simp)
qed

lemma reach_fail:
  assumes "jwks_reach dec B s" and "gs s i = Some (Fetching now kid)"
  shows "jwks_reach dec B (put i (Fetched (Some HttpFailed) now kid) s)"
proof (rule jwks_reach.step [OF assms(1)])
  have f: "fetch dec TransportError = (Some HttpFailed, None)" by (simp add: fetch_def)
  show "jwks_step dec B s (put i (Fetched (Some HttpFailed) now kid) s)"
    using jwks_step.fetched [OF assms(2) f, of B] by (simp add: apply_fetch_def)
qed

text \<open>Two runs that are used below: one goroutine fetching, and a second one that has outwaited it.\<close>

definition sample_hc :: http_client where
  "sample_hc = \<lparr>hc_timeout = 0\<rparr>"

definition fetching_sys :: jwks_sys where
  "fetching_sys = put 0 (Fetching jwksTTL ''k'') ((init_sys [] sample_hc jwksTTL)
     \<lparr>client := claim_fetch jwksTTL (newJWKSClient [] sample_hc), claims := [jwksTTL]\<rparr>)"

definition overtaken_sys :: jwks_sys where
  "overtaken_sys = put 1 (Fetching (jwksTTL + jwksMinRefreshInterval) ''k'') (fetching_sys
     \<lparr>clk := jwksTTL + jwksMinRefreshInterval,
      client := claim_fetch (jwksTTL + jwksMinRefreshInterval) (client fetching_sys),
      claims := [jwksTTL + jwksMinRefreshInterval, jwksTTL]\<rparr>)"

lemmas jwks_numbers = jwks_consts duration_defs int64_defs time_sub_def newJWKSClient_def zero_time_def

lemma fetching_sys_reach: "jwks_reach dec B fetching_sys"
proof -
  have "key_enter jwksTTL ''k'' (newJWKSClient [] sample_hc)
      = (StartFetch, claim_fetch jwksTTL (newJWKSClient [] sample_hc))"
    by (simp add: key_enter_def jwks_numbers)
  with reach_claim [OF jwks_reach.init, of "[]" sample_hc jwksTTL 0 "''k''" _ dec B]
  show ?thesis by (simp add: init_sys_def fetching_sys_def)
qed

lemma overtaken_sys_reach:
  assumes B: "jwksMinRefreshInterval < B"
  shows "jwks_reach dec B overtaken_sys"
proof -
  let ?now = "jwksTTL + jwksMinRefreshInterval"
  have "jwks_step dec B fetching_sys (fetching_sys\<lparr>clk := ?now\<rparr>)"
    using jwks_step.tick [of jwksMinRefreshInterval fetching_sys B dec] interval_pos(2) B
    by (auto simp: init_sys_def fetching_sys_def split: if_splits)
  with fetching_sys_reach have r: "jwks_reach dec B (fetching_sys\<lparr>clk := ?now\<rparr>)"
    by (rule jwks_reach.step)
  have "key_enter ?now ''k'' (client fetching_sys) = (StartFetch, claim_fetch ?now (client fetching_sys))"
    by (simp add: fetching_sys_def key_enter_def claim_fetch_def jwks_numbers)
  moreover have "\<not> stuck fetching_sys" "gs fetching_sys 1 = None" "claims fetching_sys = [jwksTTL]"
    by (simp_all add: fetching_sys_def init_sys_def)
  ultimately show ?thesis
    using reach_claim [OF r, of 1 "''k''"] by (simp add: overtaken_sys_def)
qed

text \<open>C34: Without the bound the cache can wedge for ever: when a fetch outlives the refresh interval, a
  second goroutine claims the slot and replaces the channel, the first to end closes the second's
  channel and clears the field, and the second closes nil while it holds the mutex without a deferred
  unlock. A state with the mutex stuck is reachable.\<close>

theorem slow_fetch_wedges_cache:
  assumes B: "jwksMinRefreshInterval < B"
  shows "\<exists>s. jwks_reach dec B s \<and> stuck s"
proof -
  let ?t = "jwksTTL + jwksMinRefreshInterval" and ?k = "''k''"
  let ?s4 = "put 1 (Fetched (Some HttpFailed) ?t ?k) (put 0 (Fetched (Some HttpFailed) jwksTTL ?k) overtaken_sys)"
  have r4: "jwks_reach dec B ?s4"
    by (rule reach_fail [OF reach_fail [OF overtaken_sys_reach [OF B]]])
      (simp_all add: overtaken_sys_def fetching_sys_def)
  let ?s5 = "put 0 (Closed (Some HttpFailed) ?k)
    (?s4\<lparr>client := (client overtaken_sys)\<lparr>closedChans := {1}, fetching := None\<rparr>\<rparr>)"
  have r5: "jwks_reach dec B ?s5"
    by (rule jwks_reach.step [OF r4], rule jwks_step.close_ok)
      (simp_all add: overtaken_sys_def fetching_sys_def init_sys_def put_def close_fetching_def
        claim_fetch_def newJWKSClient_def)
  have "jwks_reach dec B (put 1 Crashed (?s5\<lparr>stuck := True\<rparr>))"
    by (rule jwks_reach.step [OF r5], rule jwks_step.close_panic [where e = "''close of nil channel''"])
      (simp_all add: overtaken_sys_def fetching_sys_def init_sys_def put_def close_fetching_def)
  then show ?thesis by (intro exI conjI) (assumption, simp)
qed

text \<open>And it stays wedged: no step frees the mutex, so no goroutine ever passes its first section again.\<close>

lemma stuck_step: "jwks_step dec B s s' \<Longrightarrow> stuck s \<Longrightarrow> stuck s' \<and> claims s' = claims s \<and> keys (client s') = keys (client s)"
  by (induction rule: jwks_step.induct) (auto simp: apply_fetch_def)

text \<open>C30: The sequential reading is a run of the system: from a goroutine that has read the clock, with
  no fetch in flight, the steps of that goroutine alone lead to the answer and the client \<open>jwks_key\<close>
  computes.\<close>

theorem jwks_key_is_a_run:
  assumes g: "gs s i = Some (Timed now kid)" and st: "\<not> stuck s" and free: "fetching (client s) = None"
    and ok: "client_ok (client s)" and al: "alone E" and t: "e_now E = now" "e_swap_now E = clk s"
  shows "\<exists>r c s'. jwks_key dec E kid (client s) = Return (r, c) \<and> rtranclp (jwks_step dec B) s s'
    \<and> client s' = c \<and> gs s' = (gs s)(i \<mapsto> Answered r) \<and> clk s' = clk s"
proof (cases rule: key_enter_cases [where c = "client s" and kid = kid and now = now])
  case (fresh key)
  have "jwks_step dec B s (put i (Answered (Inr key)) s)"
    using jwks_step.enter [OF g st fresh(3), of dec B] by simp
  moreover have "jwks_key dec E kid (client s) = Return (Inr key, client s)"
    using fresh t by (simp add: jwks_key_def)
  ultimately show ?thesis
    by (intro exI conjI r_into_rtranclp) (assumption | simp)+
next
  case throttled
  let ?r = "case keys (client s) kid of None \<Rightarrow> Inl UnknownKeyID | Some key \<Rightarrow> Inr key"
  have "after_enter (throttled_lookup kid (client s)) now kid = Answered ?r"
    "throttled_lookup kid (client s) \<noteq> StartFetch"
    using free by (auto simp: throttled_lookup_def split: option.splits)
  then have "jwks_step dec B s (put i (Answered ?r) s)"
    using jwks_step.enter [OF g st throttled(3), of dec B] by simp
  moreover have "jwks_key dec E kid (client s) = Return (?r, client s)"
    using throttled free t
    by (cases "keys (client s) kid") (auto simp: jwks_key_def throttled_lookup_def)
  ultimately show ?thesis
    by (intro exI conjI r_into_rtranclp) (assumption | simp)+
next
  case claim
  obtain err new where f: "fetch dec (e_response E) = (err, new)"
    by (cases "fetch dec (e_response E)")
  let ?c1 = "claim_fetch now (client s)" and ?n = "nextChan (client s)"
  let ?c2 = "apply_fetch new (clk s) ?c1"
  let ?c3 = "?c2\<lparr>closedChans := insert ?n (closedChans ?c2), fetching := None\<rparr>"
  have n: "?n \<notin> closedChans (client s)" using ok by (auto simp: client_ok_def)
  have cl: "close_fetching ?c2 = Return ?c3"
    using n by (simp add: close_fetching_def) (simp add: claim_fetch_def)
  have key: "jwks_key dec E kid (client s) = Return (answer err kid ?c3, ?c3)"
    using claim t al by (simp add: jwks_key_def fetch_and_answer_def f alone_def Let_def cl)
  let ?s1 = "put i (Fetching now kid) (s\<lparr>client := ?c1, claims := now # claims s\<rparr>)"
  let ?s2 = "put i (Fetched err now kid) (?s1\<lparr>client := ?c2\<rparr>)"
  let ?s3 = "put i (Closed err kid) (?s2\<lparr>client := ?c3\<rparr>)"
  let ?s4 = "put i (Answered (answer err kid ?c3)) ?s3"
  have "jwks_step dec B s ?s1"
    using jwks_step.enter [OF g st claim(3), of dec B] by simp
  moreover have "jwks_step dec B ?s1 ?s2"
    using jwks_step.fetched [OF _ f, of ?s1 i now kid B] st by simp
  moreover have "jwks_step dec B ?s2 ?s3"
    using jwks_step.close_ok [of ?s2 i err now kid ?c3 dec B] st cl by simp
  moreover have "jwks_step dec B ?s3 ?s4"
    using jwks_step.finish [of ?s3 i err kid dec B] st by simp
  ultimately have steps: "rtranclp (jwks_step dec B) s ?s4"
    by (meson rtranclp.rtrancl_into_rtrancl rtranclp.rtrancl_refl)
  show ?thesis
    by (rule exI [of _ "answer err kid ?c3"], rule exI [of _ ?c3], rule exI [of _ ?s4],
        intro conjI key steps) (simp_all add: put_def)
qed

section \<open>The properties at concrete states\<close>

definition waiting_sys :: jwks_sys where
  "waiting_sys = put 1 (Waiting 0 ''k1'') fetching_sys"

lemma timed_waiter_reach:
  assumes "0 < B" shows "jwks_reach dec B (put 1 (Timed jwksTTL ''k1'') fetching_sys)"
proof -
  let ?s = "put 1 (Started ''k1'') fetching_sys"
  have "jwks_reach dec B ?s"
    by (rule jwks_reach.step [OF fetching_sys_reach], rule jwks_step.call)
      (simp add: fetching_sys_def init_sys_def)
  then show ?thesis
    by (rule jwks_reach.step)
      (use jwks_step.read_clock [of ?s 1 "''k1''" dec B] in \<open>simp add: fetching_sys_def init_sys_def\<close>)
qed

lemma timed_waiter_enters: "jwks_step dec B (put 1 (Timed jwksTTL ''k1'') fetching_sys) waiting_sys"
proof -
  have e: "key_enter jwksTTL ''k1'' (client fetching_sys) = (WaitOn 0, client fetching_sys)"
    by (simp add: fetching_sys_def key_enter_def throttled_lookup_def claim_fetch_def jwks_numbers)
  then show ?thesis
    using jwks_step.enter [of "put 1 (Timed jwksTTL ''k1'') fetching_sys" 1 jwksTTL "''k1''" "WaitOn 0" "client fetching_sys" dec B]
    by (simp add: waiting_sys_def fetching_sys_def init_sys_def put_def)
qed

lemma waiting_sys_reach: "0 < B \<Longrightarrow> jwks_reach dec B waiting_sys"
  by (rule jwks_reach.step [OF timed_waiter_reach timed_waiter_enters])

theorem at_most_one_fetch_witness:
  "\<not> stuck waiting_sys \<and> fetcher waiting_sys 0 \<and> \<not> fetcher waiting_sys 1"
proof -
  have "0 < defaultJWKSFetchTimeout" "defaultJWKSFetchTimeout \<le> jwksMinRefreshInterval"
    by (simp_all add: defaultJWKSFetchTimeout_def jwks_consts duration_defs)
  with at_most_one_fetch [OF waiting_sys_reach, of defaultJWKSFetchTimeout]
  have st: "\<not> stuck waiting_sys" and one: "\<And>i j. fetcher waiting_sys i \<Longrightarrow> fetcher waiting_sys j \<Longrightarrow> i = j" by blast+
  have f0: "fetcher waiting_sys 0"
    by (simp add: waiting_sys_def fetching_sys_def fetcher_def)
  moreover from one [OF f0, of 1] have "\<not> fetcher waiting_sys 1" by auto
  ultimately show ?thesis using st by simp
qed

theorem claims_spaced_witness: "claims overtaken_sys ! 1 + jwksMinRefreshInterval \<le> claims overtaken_sys ! 0"
  by (rule claims_spaced [where s = overtaken_sys and pre = "[]" and post = "[]" and B = "40 * second"],
      rule overtaken_sys_reach) (simp_all add: jwks_consts duration_defs overtaken_sys_def)

theorem slow_fetch_wedges_cache_witness: "\<exists>s. jwks_reach (\<lambda>_. None) (40 * second) s \<and> stuck s"
  by (rule slow_fetch_wedges_cache) (simp add: jwks_consts duration_defs)

definition timed_sys :: jwks_sys where
  "timed_sys = put 0 (Timed (90 * second) ''k1'') (init_sys [] sample_hc (90 * second))"

theorem jwks_key_is_a_run_witness:
  "\<exists>r c s'. jwks_key (\<lambda>_. Some sample_doc) (quiet_env (90 * second) (Response 200 ''x'' False)) ''k1''
        (client timed_sys) = Return (r, c)
    \<and> rtranclp (jwks_step (\<lambda>_. Some sample_doc) minute) timed_sys s'
    \<and> client s' = c \<and> gs s' = (gs timed_sys)(0 \<mapsto> Answered r) \<and> clk s' = clk timed_sys"
  by (rule jwks_key_is_a_run)
    (simp_all add: timed_sys_def init_sys_def newJWKSClient_def client_ok_def)

end
