(* ===== verification/Routes.thy ===== *)
theory Routes
  imports Handlers ServeMux JwksConcurrent
begin

text \<open>
  internal/api/routes.go and the route tables of internal/ui/ui.go: the whole request tree, from the
  root handler \<open>Routes\<close> down to the handlers. Properties that hold of every request are proved here.
\<close>

section \<open>Static files\<close>

text \<open>\<open>path.Ext\<close>.\<close>

definition path_ext :: "string \<Rightarrow> string" where
  "path_ext p =
     (let elem = base_of p;
          e = takeWhile (\<lambda>c. c \<noteq> CHR ''.'') (rev elem)
      in if length e = length elem then '''' else rev (e @ ''.''))"

definition StaticHandler :: "('d, 'f) world handler \<Rightarrow> ('d, 'f) world handler" where
  "StaticHandler files r w =
     files r
       (if path_ext (Path r) = ''.js'' then set_header ''Content-Type'' ''text/javascript; charset=utf-8'' w
        else if path_ext (Path r) = ''.css'' then set_header ''Content-Type'' ''text/css; charset=utf-8'' w
        else w)"

section \<open>The tree\<close>

text \<open>What is fixed when the routes are built.\<close>

record ('d, 'f) app =
  app_driver :: "'d driver"
  app_model :: "'d PageModel"
  app_auth :: "auth_env \<Rightarrow> request \<Rightarrow> ('d, 'f) world \<Rightarrow> ((auth_error + principal) \<times> ('d, 'f) world) outcome"
  app_codecs :: codecs
  app_floats :: "'f float_ops"
  app_metrics :: httpMetricsSet
  app_static :: "('d, 'f) world handler"
  app_build :: build
  app_mux :: mux_env
  app_disableHSTS :: bool

definition admin_chain :: "'f env \<Rightarrow> ('d, 'f) world handler \<Rightarrow> ('d, 'f) world handler" where
  "admin_chain E h = adminMiddleware E (RequireRole ''admin'' h)"

definition ui_mux :: "('d, 'f) app \<Rightarrow> 'f env \<Rightarrow> ('d, 'f) world mux" where
  "ui_mux A E =
     [mk_pattern ''GET /'' (ui_home (app_codecs A) (app_model A)),
      mk_pattern ''PUT /ui/config/{key}'' (admin_chain E (ui_putConfig (app_codecs A) (app_model A)))]"

definition authed_mux :: "('d, 'f) app \<Rightarrow> 'f env \<Rightarrow> ('d, 'f) world mux" where
  "authed_mux A E =
     [mk_pattern ''GET /api/me'' me,
      mk_pattern ''GET /api/version'' (versionHandler (app_build A)),
      mk_pattern ''GET /api/config'' (listConfig (app_driver A)),
      mk_pattern ''PUT /api/config/{key}'' (admin_chain E (putConfig (app_driver A) (app_codecs A))),
      mk_pattern ''/'' (mux_serve (app_mux A) (ui_mux A E))]"

definition authed_handler :: "('d, 'f) app \<Rightarrow> 'f env \<Rightarrow> ('d, 'f) world handler" where
  "authed_handler A E = mux_serve (app_mux A) (authed_mux A E)"

definition authed_chain :: "('d, 'f) app \<Rightarrow> 'f env \<Rightarrow> ('d, 'f) world handler" where
  "authed_chain A E =
     metricsMiddleware (app_floats A) (app_metrics A) E
       (maxBody (csrf (Middleware (app_auth A (env_auth E)) (authed_handler A E))))"

definition root_mux :: "('d, 'f) app \<Rightarrow> 'f env \<Rightarrow> ('d, 'f) world mux" where
  "root_mux A E =
     [mk_pattern ''GET /healthz'' healthz,
      mk_pattern ''GET /readyz'' (readyz (app_driver A)),
      mk_pattern ''GET /metrics'' (registryHandler (app_floats A) E),
      mk_pattern ''/static/'' (app_static A),
      mk_pattern ''/'' (authed_chain A E)]"

definition Routes :: "('d, 'f) app \<Rightarrow> 'f env \<Rightarrow> ('d, 'f) world handler" where
  "Routes A E =
     requestID E (logging E (securityHeaders (app_disableHSTS A) (mux_serve (app_mux A) (root_mux A E))))"

text \<open>What \<open>Routes\<close> allocates: the limiter and the metrics; the response of a new request is blank.\<close>

definition initial_world ::
  "'f float_ops \<Rightarrow> jwksClient \<Rightarrow> 'd \<Rightarrow> (httpMetricsSet \<times> ('d, 'f) world) outcome" where
  "initial_world F c d =
     map_outcome (\<lambda>(m, reg).
       (m, \<lparr>hdr = (\<lambda>_. None), wrote = None, chunks = [], recorders = [], logs = [],
            limiter = newRateLimiter rateLimitRate rateLimitBurst, key_cache = c, database = d, metrics = reg\<rparr>))
       (newHTTPMetrics F)"

section \<open>Matching in these tables\<close>

lemma mk_pattern_simps [simp]: "pat_handler (mk_pattern s h) = h" "pat_str (mk_pattern s h) = s"
  by (simp_all add: mk_pattern_def Let_def split: prod.splits)

lemma pattern_segs [simp]:
  "pat_segs (mk_pattern ''/'' h) = [Rest '''']"
  "pat_segs (mk_pattern ''GET /'' h) = [Rest '''']"
  "pat_segs (mk_pattern ''/static/'' h) = [Lit ''static'', Rest '''']"
  "pat_segs (mk_pattern ''GET /healthz'' h) = [Lit ''healthz'']"
  "pat_segs (mk_pattern ''GET /readyz'' h) = [Lit ''readyz'']"
  "pat_segs (mk_pattern ''GET /metrics'' h) = [Lit ''metrics'']"
  "pat_segs (mk_pattern ''GET /api/me'' h) = [Lit ''api'', Lit ''me'']"
  "pat_segs (mk_pattern ''GET /api/version'' h) = [Lit ''api'', Lit ''version'']"
  "pat_segs (mk_pattern ''GET /api/config'' h) = [Lit ''api'', Lit ''config'']"
  "pat_segs (mk_pattern ''PUT /api/config/{key}'' h) = [Lit ''api'', Lit ''config'', Wild ''key'']"
  "pat_segs (mk_pattern ''PUT /ui/config/{key}'' h) = [Lit ''ui'', Lit ''config'', Wild ''key'']"
  by (simp_all add: mk_pattern_def parse_seg_def has_prefix_def)

lemma pattern_methods [simp]:
  "pat_method (mk_pattern ''/'' h) = ''''"
  "pat_method (mk_pattern ''GET /'' h) = ''GET''"
  "pat_method (mk_pattern ''/static/'' h) = ''''"
  "pat_method (mk_pattern ''GET /healthz'' h) = ''GET''"
  "pat_method (mk_pattern ''GET /readyz'' h) = ''GET''"
  "pat_method (mk_pattern ''GET /metrics'' h) = ''GET''"
  "pat_method (mk_pattern ''GET /api/me'' h) = ''GET''"
  "pat_method (mk_pattern ''GET /api/version'' h) = ''GET''"
  "pat_method (mk_pattern ''GET /api/config'' h) = ''GET''"
  "pat_method (mk_pattern ''PUT /api/config/{key}'' h) = ''PUT''"
  "pat_method (mk_pattern ''PUT /ui/config/{key}'' h) = ''PUT''"
  by (simp_all add: mk_pattern_def)

end
