(* ===== verification/Responses.thy ===== *)
theory Responses
  imports GoHttp
begin

text \<open>
  How handlers may act on the response writer: a closed set of actions, and what any sequence of them
  keeps. Every handler of the program is shown to act within it, and the properties of the whole
  chain (headers present on every response, the access log's status) follow from here.
\<close>

text \<open>
  \<open>hs\<close> are the headers that must survive: an action may set one of them only to its own value. The
  status is written at most once; \<open>line\<close> is the log message that handlers do not use. Changes of
  the state the record is extended with are free.
\<close>

inductive responds :: "(string \<times> string) list \<Rightarrow> string \<Rightarrow> 'a web_scheme \<Rightarrow> 'a web_scheme \<Rightarrow> bool"
  for hs :: "(string \<times> string) list" and line :: string and w :: "'a web_scheme" where
  start: "responds hs line w w"
| header: "responds hs line w w' \<Longrightarrow> canonical_key k \<notin> canonical_key ` fst ` set hs \<or> (k, v) \<in> set hs \<Longrightarrow>
    responds hs line w (set_header k v w')"
| del: "responds hs line w w' \<Longrightarrow> canonical_key k \<notin> canonical_key ` fst ` set hs \<Longrightarrow>
    responds hs line w (w'\<lparr>hdr := (hdr w')(canonical_key k := None)\<rparr>)"
| status: "responds hs line w w' \<Longrightarrow> wrote w' = None \<Longrightarrow> responds hs line w (WriteHeader code w')"
| chunk: "responds hs line w w' \<Longrightarrow> responds hs line w (write_chunk ch w')"
| log: "responds hs line w w' \<Longrightarrow> msg \<noteq> line \<Longrightarrow> responds hs line w (log_to lv msg attrs w')"
| shared: "responds hs line w w' \<Longrightarrow> responds hs line w (w'\<lparr>web.more := x\<rparr>)"

lemma responds_trans: "responds hs line w w' \<Longrightarrow> responds hs line w' w'' \<Longrightarrow> responds hs line w w''"
  by (rotate_tac 1, induction rule: responds.induct) (auto intro: responds.intros)

section \<open>Headers that survive\<close>

text \<open>Header lists without two values for one name.\<close>

definition consistent :: "(string \<times> string) list \<Rightarrow> bool" where
  "consistent hs \<longleftrightarrow> distinct (map (\<lambda>(k, v). canonical_key k) hs)"

definition has_headers :: "(string \<times> string) list \<Rightarrow> header \<Rightarrow> bool" where
  "has_headers hs h \<longleftrightarrow> (\<forall>(k, v) \<in> set hs. h (canonical_key k) = Some [v])"

lemma has_headers_get: "has_headers hs h \<Longrightarrow> (k, v) \<in> set hs \<Longrightarrow> header_get h k = v"
  by (auto simp: has_headers_def header_get_def)

lemma names_in: "(k, v) \<in> set hs \<Longrightarrow> canonical_key k \<in> canonical_key ` fst ` set hs"
  by (metis fst_conv imageI)

lemma consistent_unique:
  "consistent hs \<Longrightarrow> (k, v) \<in> set hs \<Longrightarrow> (k', v') \<in> set hs \<Longrightarrow> canonical_key k = canonical_key k' \<Longrightarrow> v = v'"
  by (induction hs) (force simp: consistent_def)+

lemma has_headers_set:
  assumes "consistent hs" and "has_headers hs h"
    and "canonical_key k \<notin> canonical_key ` fst ` set hs \<or> (k, v) \<in> set hs"
  shows "has_headers hs (header_set k v h)"
  unfolding has_headers_def
proof clarify
  fix k' v' assume k': "(k', v') \<in> set hs"
  show "header_set k v h (canonical_key k') = Some [v']"
  proof (cases "canonical_key k' = canonical_key k")
    case True
    then have "canonical_key k \<in> canonical_key ` fst ` set hs"
      using names_in [OF k'] by simp
    with assms(3) consistent_unique [OF assms(1) _ k'] True show ?thesis
      by (auto simp: header_set_def)
  next
    case False
    with assms(2) k' show ?thesis by (auto simp: header_set_def has_headers_def)
  qed
qed

lemma has_headers_drop:
  assumes "has_headers hs h" and "k \<notin> canonical_key ` fst ` set hs"
  shows "has_headers hs (h(k := None))"
  unfolding has_headers_def
proof clarify
  fix k' v' assume k': "(k', v') \<in> set hs"
  then have "canonical_key k' \<noteq> k" using names_in assms(2) by metis
  with assms(1) k' show "(h(k := None)) (canonical_key k') = Some [v']"
    by (auto simp: has_headers_def)
qed

text \<open>The survivors are in the header map, and in what was sent if anything was.\<close>

definition keeps_headers :: "(string \<times> string) list \<Rightarrow> 'a web_scheme \<Rightarrow> bool" where
  "keeps_headers hs w \<longleftrightarrow> has_headers hs (hdr w) \<and> has_headers hs (sent_header w)"

lemma keeps_headers_iff:
  "keeps_headers hs w \<longleftrightarrow> has_headers hs (hdr w) \<and> (\<forall>code h. wrote w = Some (code, h) \<longrightarrow> has_headers hs h)"
  by (auto simp: keeps_headers_def sent_header_def split: option.splits)

lemma keeps_headers_commit:
  assumes "keeps_headers hs w" and "hdr w' = hdr w"
    and "wrote w' = (case wrote w of None \<Rightarrow> Some (c, hdr w) | Some x \<Rightarrow> Some x)"
  shows "keeps_headers hs w'"
  using assms by (cases "wrote w") (auto simp: keeps_headers_def sent_header_def)

lemma keeps_headers_same:
  assumes "keeps_headers hs w" and "hdr w' = hdr w" and "wrote w' = wrote w"
  shows "keeps_headers hs w'"
  using assms by (auto simp: keeps_headers_def sent_header_def split: option.splits)

lemma responds_headers:
  "responds hs line w w' \<Longrightarrow> consistent hs \<Longrightarrow> keeps_headers hs w \<Longrightarrow> keeps_headers hs w'"
proof (induction rule: responds.induct)
  case (del w' k)
  note k = del.IH [OF del.prems, unfolded keeps_headers_iff]
  have "has_headers hs ((hdr w')(canonical_key k := None))"
    by (rule has_headers_drop [OF _ del.hyps(2)]) (use k in blast)
  moreover have "hdr (w'\<lparr>hdr := h\<rparr>) = h" "wrote (w'\<lparr>hdr := h\<rparr>) = wrote w'" for h by simp_all
  ultimately show ?case using k by (simp only: keeps_headers_iff) blast
next
  case (header w' k v)
  note kh = header.IH [OF header.prems, unfolded keeps_headers_iff]
  have "has_headers hs (header_set k v (hdr w'))"
    by (rule has_headers_set [OF header.prems(1) _ header.hyps(2)]) (use kh in blast)
  then show ?case using kh by (simp only: keeps_headers_iff web_fields) blast
next
  case (status w' code)
  show ?case by (rule keeps_headers_commit [OF status.IH [OF status.prems], where c = code]) simp_all
next
  case (chunk w' ch)
  show ?case by (rule keeps_headers_commit [OF chunk.IH [OF chunk.prems], where c = 200]) simp_all
next
  case (log w' msg lv attrs)
  show ?case by (rule keeps_headers_same [OF log.IH [OF log.prems]]) simp_all
next
  case (shared w' x)
  show ?case by (rule keeps_headers_same [OF shared.IH [OF shared.prems]]) simp_all
qed

section \<open>Recorded status\<close>

text \<open>Every recorder holds the status that is (or, if nothing is written, will be) sent.\<close>

definition recorders_ok :: "'a web_scheme \<Rightarrow> bool" where
  "recorders_ok w \<longleftrightarrow> (\<forall>s \<in> set (recorders w). s = status_of w)"

lemma responds_recorders:
  "responds hs line w w' \<Longrightarrow> recorders_ok w \<Longrightarrow>
     recorders_ok w' \<and> length (recorders w') = length (recorders w)"
  by (induction rule: responds.induct)
    (auto simp: recorders_ok_def status_of_def split: option.splits prod.splits)

section \<open>Log lines\<close>

text \<open>A flush before the status was written commits the 200 the recorders start with.\<close>

lemma Flush_recorders: "recorders_ok w \<Longrightarrow> recorders_ok (Flush w) \<and> recorders (Flush w) = recorders w"
  by (auto simp: Flush_def recorders_ok_def status_of_def split: option.splits)

definition lines_with :: "string \<Rightarrow> 'a web_scheme \<Rightarrow> log_line list" where
  "lines_with line w = filter (\<lambda>l. log_msg l = line) (logs w)"

lemma responds_lines: "responds hs line w w' \<Longrightarrow> lines_with line w' = lines_with line w"
  by (induction rule: responds.induct) (simp_all add: lines_with_def)

section \<open>What a part of the chain keeps\<close>

text \<open>
  Put together, and independent of how the state came about, so that it also covers code that wraps
  the writer: surviving headers survive, recorders agree with the status, no access log line.
\<close>

definition keeps :: "(string \<times> string) list \<Rightarrow> 'a web_scheme \<Rightarrow> 'a web_scheme \<Rightarrow> bool" where
  "keeps hs w w' \<longleftrightarrow>
     (keeps_headers hs w \<longrightarrow> keeps_headers hs w') \<and>
     (recorders_ok w \<longrightarrow> recorders_ok w' \<and> length (recorders w') = length (recorders w)) \<and>
     lines_with ''request'' w' = lines_with ''request'' w"

lemma keeps_refl [simp]: "keeps hs w w"
  by (simp add: keeps_def)

lemma keeps_trans: "keeps hs w w' \<Longrightarrow> keeps hs w' w'' \<Longrightarrow> keeps hs w w''"
  by (auto simp: keeps_def)

lemma keeps_same:
  "hdr w' = hdr w \<Longrightarrow> wrote w' = wrote w \<Longrightarrow> recorders w' = recorders w \<Longrightarrow> logs w' = logs w \<Longrightarrow> keeps hs w w'"
  by (auto simp: keeps_def recorders_ok_def status_of_def lines_with_def intro: keeps_headers_same)

text \<open>
  A list of headers to survive: no name twice, none that handlers set, and if they set
  \<open>X-Content-Type-Options\<close> (as \<open>http.Error\<close> does) they set the same value.
\<close>

definition handler_headers :: "string list" where
  "handler_headers = [''Content-Type'', ''Content-Length'', ''Location'', ''Allow'', ''Connection'']"

locale fixed_headers =
  fixes hs :: "(string \<times> string) list"
  assumes consistent: "consistent hs"
    and free: "k \<in> set handler_headers \<Longrightarrow> canonical_key k \<notin> canonical_key ` fst ` set hs"
    and nosniff: "(''X-Content-Type-Options'', ''nosniff'') \<in> set hs"
begin

definition acts :: "'a web_scheme \<Rightarrow> 'a web_scheme \<Rightarrow> bool" where
  "acts w w' \<longleftrightarrow> responds hs ''request'' w w'"

lemma acts_keeps: "acts w w' \<Longrightarrow> keeps hs w w'"
  unfolding acts_def keeps_def
  using responds_headers [OF _ consistent] responds_recorders responds_lines by blast

lemma acts_refl [simp]: "acts w w"
  by (simp add: acts_def responds.start)

lemma acts_header: "acts w w' \<Longrightarrow> k \<in> set handler_headers \<Longrightarrow> acts w (set_header k v w')"
  unfolding acts_def by (erule responds.header) (use free in blast)

lemma acts_nosniff: "acts w w' \<Longrightarrow> acts w (set_header ''X-Content-Type-Options'' ''nosniff'' w')"
  unfolding acts_def by (erule responds.header) (use nosniff in blast)

lemma acts_drop_length:
  "acts w w' \<Longrightarrow> acts w (w'\<lparr>hdr := (hdr w')(canonical_key ''Content-Length'' := None)\<rparr>)"
  unfolding acts_def by (erule responds.del) (use free in \<open>simp add: handler_headers_def\<close>)

lemma acts_status: "acts w w' \<Longrightarrow> wrote w' = None \<Longrightarrow> acts w (WriteHeader code w')"
  unfolding acts_def by (rule responds.status)

lemma acts_chunk: "acts w w' \<Longrightarrow> acts w (write_chunk ch w')"
  unfolding acts_def by (rule responds.chunk)

lemma acts_log: "acts w w' \<Longrightarrow> msg \<noteq> ''request'' \<Longrightarrow> acts w (log_to lv msg attrs w')"
  unfolding acts_def by (rule responds.log)

lemma acts_more: "acts w w' \<Longrightarrow> acts w (w'\<lparr>web.more := x\<rparr>)"
  unfolding acts_def by (rule responds.shared)

lemma acts_problem: "acts w w' \<Longrightarrow> wrote w' = None \<Longrightarrow> acts w (WriteProblem st t d w')"
  unfolding WriteProblem_def
  by (intro acts_chunk acts_status acts_header) (simp_all add: handler_headers_def)

end

end
