(* ===== verification/Serving.thy ===== *)
theory Serving
  imports Handlers ServeMux Responses
begin

text \<open>
  The contract of the handlers of Handlers.thy: each returns, acts on the response as Responses.thy
  allows, leaves the limiter, the key cache and the metrics alone, and changes the configuration
  only as stated by \<open>cfg_step\<close>. Proved once, used by every property of the request tree.
\<close>

section \<open>Effects on the shared state\<close>

definition same_shared :: "('d, 'f) world \<Rightarrow> ('d, 'f) world \<Rightarrow> bool" where
  "same_shared w w' \<longleftrightarrow> limiter w' = limiter w \<and> key_cache w' = key_cache w \<and> metrics w' = metrics w"

lemma same_shared_refl [simp]: "same_shared w w"
  by (simp add: same_shared_def)

text \<open>The Runtime Configuration as the promises of the driver let us see it.\<close>

definition view :: "('d, 'r) db_view \<Rightarrow> ('d, 'f) world \<Rightarrow> (string \<rightharpoonup> string)" where
  "view V w = config_of V (tables (com V (database w)))"

text \<open>The configuration stays, or, if \<open>ok\<close>, one valid key got a value.\<close>

definition cfg_step ::
  "'d driver \<Rightarrow> ('d, 'r) db_view \<Rightarrow> bool \<Rightarrow> ('d, 'f) world \<Rightarrow> ('d, 'f) world \<Rightarrow> bool" where
  "cfg_step D V ok w w' \<longleftrightarrow> (driver_ok D V \<and> tx V (database w) = None \<longrightarrow>
     tx V (database w') = None \<and>
     (view V w' = view V w \<or> (ok \<and> (\<exists>k v. ValidConfigKey k \<and> view V w' = (view V w)(k \<mapsto> v)))))"

lemma cfg_step_same: "database w' = database w \<Longrightarrow> cfg_step D V ok w w'"
  by (simp add: cfg_step_def view_def)

lemma cfg_step_trans: "cfg_step D V ok w w' \<Longrightarrow> cfg_step D V False w' w'' \<Longrightarrow> cfg_step D V ok w w''"
  unfolding cfg_step_def by force

lemma cfg_step_before: "database w' = database w \<Longrightarrow> cfg_step D V ok w' w'' \<Longrightarrow> cfg_step D V ok w w''"
  by (simp add: cfg_step_def view_def)

lemma cfg_step_after: "cfg_step D V ok w w' \<Longrightarrow> database w'' = database w' \<Longrightarrow> cfg_step D V ok w w''"
  by (simp add: cfg_step_def view_def)

lemma cfg_step_mono: "cfg_step D V ok w w' \<Longrightarrow> (ok \<Longrightarrow> ok') \<Longrightarrow> cfg_step D V ok' w w'"
  by (auto simp: cfg_step_def)

lemma on_database_fields:
  assumes "on_database op w = (x, w')"
  shows "op (database w) = (x, database w')" "same_shared w w'" "wrote w' = wrote w"
    "hdr w' = hdr w" "recorders w' = recorders w" "logs w' = logs w" "chunks w' = chunks w"
  using assms by (auto simp: on_database_def same_shared_def split: prod.splits)

lemma on_database_more:
  assumes "on_database op w = (x, w')"
  shows "w' = w\<lparr>web.more := web.more w'\<rparr>"
  using assms by (cases w) (auto simp: on_database_def split: prod.splits)

lemma cfg_step_list: "on_database (ListConfig D) w = (x, w') \<Longrightarrow> cfg_step D V ok w w'"
  using db.list_keeps [of D V "database w" x "database w'"]
  by (auto simp: cfg_step_def view_def dest!: on_database_fields(1))

lemma cfg_step_set:
  assumes "on_database (SetConfig D k v) w = (x, w')" and "ValidConfigKey k"
  shows "cfg_step D V True w w'"
  unfolding cfg_step_def
proof (intro impI)
  assume "driver_ok D V \<and> tx V (database w) = None"
  from db.set_view [OF this on_database_fields(1) [OF assms(1)]] assms(2)
  show "tx V (database w') = None \<and>
      (view V w' = view V w \<or> (True \<and> (\<exists>k v. ValidConfigKey k \<and> view V w' = (view V w)(k \<mapsto> v))))"
    unfolding view_def by (cases x) auto
qed

text \<open>What inner handlers may not change of a request they share with their caller.\<close>

definition same_head :: "request \<Rightarrow> request \<Rightarrow> bool" where
  "same_head r r' \<longleftrightarrow> Method r' = Method r \<and> Path r' = Path r \<and> Header r' = Header r \<and> Ctx r' = Ctx r"

lemma same_head_refl [simp]: "same_head r r"
  by (simp add: same_head_def)

lemma same_head_eq [simp]:
  "same_head (r\<lparr>Pattern := pat\<rparr>) r' = same_head r r'" "same_head (r\<lparr>PathValues := vals\<rparr>) r' = same_head r r'"
  "same_head (r\<lparr>Body := b\<rparr>) r' = same_head r r'"
  "same_head r (r'\<lparr>Pattern := pat\<rparr>) = same_head r r'" "same_head r (r'\<lparr>PathValues := vals\<rparr>) = same_head r r'"
  "same_head r (r'\<lparr>Body := b\<rparr>) = same_head r r'"
  by (simp_all add: same_head_def)

section \<open>The handlers\<close>

context fixed_headers
begin

lemma acts_type: "acts w w' \<Longrightarrow> acts w (set_header ''Content-Type'' v w')"
  by (rule acts_header) (simp_all add: handler_headers_def)

lemma acts_database: "acts w w' \<Longrightarrow> on_database op w' = (x, w'') \<Longrightarrow> acts w w''"
  using acts_more [of w w' "web.more w''"] on_database_more [of op w' x w''] by simp

lemma acts_json: "acts w w' \<Longrightarrow> wrote w' = None \<Longrightarrow> acts w (writeJSON st v w')"
  unfolding writeJSON_def by (intro acts_chunk acts_status acts_type) simp_all

lemma acts_problem': "acts w w' \<Longrightarrow> wrote w' = None \<Longrightarrow> acts w (problem st d w')"
  unfolding problem_def by (rule acts_problem)

lemma acts_error: "acts w w' \<Longrightarrow> msg \<noteq> ''request'' \<Longrightarrow> acts w (log_error msg e r w')"
  unfolding log_error_def by (rule acts_log)

lemma acts_changed: "acts w w' \<Longrightarrow> acts w (log_changed k r w')"
  unfolding log_changed_def by (rule acts_log) simp_all

text \<open>A handler that answers a request on which nothing was written, with effect \<open>P\<close>.\<close>

definition answers ::
  "(request \<Rightarrow> ('d, 'f) world \<Rightarrow> ('d, 'f) world \<Rightarrow> bool) \<Rightarrow> ('d, 'f) world handler \<Rightarrow> bool" where
  "answers P h \<longleftrightarrow> (\<forall>r w. wrote w = None \<longrightarrow>
     (\<exists>w'. h r w = Done r w' \<and> acts w w' \<and> same_shared w w' \<and> P r w w'))"

lemma answersI:
  "(\<And>r w. wrote w = None \<Longrightarrow> \<exists>w'. h r w = Done r w' \<and> acts w w' \<and> same_shared w w' \<and> P r w w') \<Longrightarrow> answers P h"
  by (simp add: answers_def)

lemma answersD:
  assumes "answers P h" and "wrote w = None"
  obtains w' where "h r w = Done r w'" "acts w w'" "same_shared w w'" "P r w w'"
  using assms unfolding answers_def by blast

end

lemma writeJSON_fields [simp]:
  "database (writeJSON st v w) = database w" "same_shared w' (writeJSON st v w) = same_shared w' w"
  "database (problem st d w) = database w" "same_shared w' (problem st d w) = same_shared w' w"
  "database (log_error m e r w) = database w" "same_shared w' (log_error m e r w) = same_shared w' w"
  "database (log_changed k r w) = database w" "same_shared w' (log_changed k r w) = same_shared w' w"
  "same_shared w' (set_header n x w) = same_shared w' w" "same_shared w' (write_chunk ch w) = same_shared w' w"
  by (simp_all add: writeJSON_def problem_def log_error_def log_changed_def same_shared_def)

lemma quiet_logs [simp]:
  "wrote (log_error m e r w) = wrote w" "wrote (log_changed k r w) = wrote w"
  by (simp_all add: log_error_def log_changed_def)

context fixed_headers
begin

lemma answers_same:
  assumes "\<And>r w. wrote w = None \<Longrightarrow> \<exists>w'. h r w = Done r w' \<and> acts w w' \<and> same_shared w w' \<and> database w' = database w"
  shows "answers (\<lambda>r. cfg_step D V ok) h"
  using assms cfg_step_same unfolding answers_def by meson

lemma healthz_answers: "answers (\<lambda>r. cfg_step D V ok) healthz"
  by (rule answers_same) (auto simp: healthz_def intro!: acts_json)

lemma readyz_answers: "answers (\<lambda>r. cfg_step D V ok) (readyz D')"
  by (rule answers_same)
    (auto simp: readyz_def split: option.split intro!: acts_json acts_problem' acts_error)

lemma me_answers: "answers (\<lambda>r. cfg_step D V ok) me"
  by (rule answers_same) (auto simp: me_def split: option.split intro!: acts_json acts_problem')

lemma versionHandler_answers: "answers (\<lambda>r. cfg_step D V ok) (versionHandler b)"
  by (rule answers_same) (auto simp: versionHandler_def intro!: acts_json)

lemma registryHandler_answers: "answers (\<lambda>r. cfg_step D V ok) (registryHandler F E)"
  by (rule answers_same) (auto simp: registryHandler_def intro!: acts_chunk acts_type)

lemma listConfig_answers:
  fixes D :: "'d driver"
  shows "answers (\<lambda>r. cfg_step D V ok) (listConfig D :: ('d, 'f) world handler)"
proof (rule answersI)
  fix r and w :: "('d, 'f) world" assume fresh: "wrote w = None"
  obtain x w1 where db: "on_database (ListConfig D) w = (x, w1)" by fastforce
  note f = on_database_fields [OF db]
  have "acts w w1" by (rule acts_database [OF acts_refl db])
  moreover have "wrote w1 = None" using f fresh by simp
  ultimately show "\<exists>w'. listConfig D r w = Done r w' \<and> acts w w' \<and> same_shared w w' \<and> cfg_step D V ok w w'"
    using f(2)
    by (auto simp: listConfig_def db split: sum.split
        intro!: acts_json acts_problem' acts_error cfg_step_after [OF cfg_step_list [OF db]])
qed

text \<open>The JSON handler: whatever the request, at most the key of the path is set.\<close>

lemma putConfig_answers:
  fixes D :: "'d driver"
  shows "answers (\<lambda>r. cfg_step D V True) (putConfig D C :: ('d, 'f) world handler)"
proof (rule answersI)
  fix r and w :: "('d, 'f) world" assume fresh: "wrote w = None"
  let ?key = "PathValue r ''key''"
  let ?ok = "\<lambda>w'. acts w w' \<and> same_shared w w' \<and> cfg_step D V True w w'"
  obtain mt bad where m: "media_type C (header_get (Header r) ''Content-Type'') = (mt, bad)" by fastforce
  show "\<exists>w'. putConfig D C r w = Done r w' \<and> ?ok w'"
  proof (cases "ValidConfigKey ?key \<and> \<not> bad \<and> mt = ''application/json''")
    case False
    then have "\<exists>st d. putConfig D C r w = Done r (problem st d w)"
      by (auto simp: putConfig_def Let_def m)
    then show ?thesis using fresh by (auto intro!: acts_problem' cfg_step_same)
  next
    case True
    note guards = this
    show ?thesis
    proof (cases "decode_setConfigBody C (Body r)")
      case (Inl e)
      with guards have "\<exists>st d. putConfig D C r w = Done r (problem st d (log_error ''setting config'' (read_error_text e) r w))"
        by (auto simp: putConfig_def Let_def m)
      then show ?thesis using fresh by (auto intro!: acts_problem' acts_error cfg_step_same)
    next
      case (Inr v)
      obtain x w1 where db: "on_database (SetConfig D ?key v) w = (x, w1)" by fastforce
      note f = on_database_fields [OF db]
      have "acts w w1" by (rule acts_database [OF acts_refl db])
      moreover have "wrote w1 = None" using f fresh by simp
      ultimately show ?thesis
        using guards Inr f(2)
        by (auto simp: putConfig_def Let_def m db split: option.split
            intro!: acts_json acts_problem' acts_error acts_changed cfg_step_after [OF cfg_step_set [OF db]])
    qed
  qed
qed

text \<open>The pages, over the production model.\<close>

lemma ui_render_answers:
  fixes D :: "'d driver"
  shows "answers (\<lambda>r. cfg_step D V ok) (ui_render C (storePageModel D) page :: ('d, 'f) world handler)"
proof (rule answersI)
  fix r and w :: "('d, 'f) world" assume fresh: "wrote w = None"
  let ?M = "storePageModel D"
  have data: "\<exists>x w1. ui_data ?M r w = (x, w1) \<and> acts w w1 \<and> same_shared w w1 \<and> wrote w1 = None
      \<and> cfg_step D V ok w w1"
  proof (cases "PrincipalFromContext (Ctx r)")
    case None
    with fresh show ?thesis by (simp add: ui_data_def cfg_step_same)
  next
    case (Some p)
    obtain x w1 where db: "on_database (ListConfig D) w = (x, w1)" by fastforce
    note f = on_database_fields [OF db]
    have "on_database (LoadPageData ?M p) w = (case x of Inl e \<Rightarrow> Inl e
        | Inr es \<Rightarrow> Inr \<lparr>SiteName = site_name es ''Web App'', page_Principal = p, Entries = es,
               IsAdmin = HasRole p ''admin''\<rparr>, w1)"
      using db by (auto simp: on_database_def storePageModel_def split: prod.splits sum.splits)
    with Some f fresh acts_database [OF acts_refl db] cfg_step_list [OF db] show ?thesis
      by (cases x) (auto simp: ui_data_def)
  qed
  then obtain x w1 where x: "ui_data ?M r w = (x, w1)" "acts w w1" "same_shared w w1" "wrote w1 = None"
      "cfg_step D V ok w w1" by blast
  show "\<exists>w'. ui_render C ?M page r w = Done r w' \<and> acts w w' \<and> same_shared w w' \<and> cfg_step D V ok w w'"
    using x(1-4)
    by (auto simp: ui_render_def Let_def split: sum.split prod.split option.split
        intro!: acts_problem' acts_error acts_chunk acts_type cfg_step_after [OF x(5)])
qed

lemma ui_home_answers:
  fixes D :: "'d driver"
  shows "answers (\<lambda>r. cfg_step D V ok) (ui_home C (storePageModel D) :: ('d, 'f) world handler)"
  unfolding ui_home_def by (rule ui_render_answers)

lemma ui_putConfig_answers:
  fixes D :: "'d driver"
  shows "answers (\<lambda>r. cfg_step D V True) (ui_putConfig C (storePageModel D) :: ('d, 'f) world handler)"
proof (rule answersI)
  fix r and w :: "('d, 'f) world" assume fresh: "wrote w = None"
  let ?M = "storePageModel D" and ?key = "PathValue r ''key''"
  let ?ok = "\<lambda>w'. acts w w' \<and> same_shared w w' \<and> cfg_step D V True w w'"
  show "\<exists>w'. ui_putConfig C ?M r w = Done r w' \<and> ?ok w'"
  proof (cases "ParseForm C r")
    case (Inl e)
    then show ?thesis using fresh by (auto simp: ui_putConfig_def intro!: acts_problem' cfg_step_same)
  next
    case (Inr vs)
    show ?thesis
    proof (cases "ValidConfigKey ?key")
      case False
      with Inr fresh show ?thesis by (auto simp: ui_putConfig_def intro!: acts_problem' cfg_step_same)
    next
      case True
      obtain x w1 where db: "on_database (SetConfig D ?key (form_value vs ''value'')) w = (x, w1)" by fastforce
      note f = on_database_fields [OF db]
      have acts: "acts w w1" by (rule acts_database [OF acts_refl db])
      note step = cfg_step_set [OF db True]
      show ?thesis
      proof (cases x)
        case (Some e)
        with Inr True f db fresh acts show ?thesis
          by (auto simp: ui_putConfig_def Let_def storePageModel_def
              intro!: acts_problem' acts_error cfg_step_after [OF step])
      next
        case None
        let ?w = "log_changed ?key r w1"
        have "wrote ?w = None" using f fresh by simp
        then obtain w2 where w2: "ui_render C ?M ''home'' r ?w = Done r w2" "acts ?w w2" "same_shared ?w w2"
            "cfg_step D V False ?w w2"
          by (rule answersD [OF ui_render_answers])
        have "ui_putConfig C ?M r w = Done r w2"
          using Inr True None db w2(1) by (simp add: ui_putConfig_def Let_def storePageModel_def)
        moreover have "acts w w2"
          using responds_trans acts_changed [OF acts] w2(2) unfolding acts_def by blast
        moreover have "same_shared w w2" using f(2) w2(3) by (simp add: same_shared_def log_changed_def)
        moreover have "cfg_step D V True w w2"
          by (rule cfg_step_trans [OF cfg_step_after [OF step] w2(4)]) simp
        ultimately show ?thesis by blast
      qed
    qed
  qed
qed

section \<open>Parts of the tree\<close>

text \<open>
  A handler with state: on requests and worlds that are as assumed it returns, leaves the request
  line, the headers and the context as they were, keeps the invariant \<open>I\<close> and what Responses.thy
  calls \<open>keeps\<close>, and has effect \<open>P\<close>.
\<close>

definition serves ::
  "(request \<Rightarrow> bool) \<Rightarrow> (('d, 'f) world \<Rightarrow> bool) \<Rightarrow> (request \<Rightarrow> ('d, 'f) world \<Rightarrow> ('d, 'f) world \<Rightarrow> bool)
     \<Rightarrow> ('d, 'f) world handler \<Rightarrow> bool" where
  "serves R I P h \<longleftrightarrow> (\<forall>r w. R r \<and> I w \<and> wrote w = None \<longrightarrow>
     (\<exists>r' w'. h r w = Done r' w' \<and> same_head r r' \<and> I w' \<and> keeps hs w w' \<and> P r w w'))"

lemma servesI:
  "(\<And>r w. R r \<Longrightarrow> I w \<Longrightarrow> wrote w = None \<Longrightarrow>
      \<exists>r' w'. h r w = Done r' w' \<and> same_head r r' \<and> I w' \<and> keeps hs w w' \<and> P r w w') \<Longrightarrow> serves R I P h"
  by (simp add: serves_def)

lemma servesD:
  assumes "serves R I P h" and "R r" and "I w" and "wrote w = None"
  obtains r' w' where "h r w = Done r' w'" "same_head r r'" "I w'" "keeps hs w w'" "P r w w'"
  using assms unfolding serves_def by blast

lemma answers_serves:
  assumes "answers P h" and "\<And>w w'. I w \<Longrightarrow> same_shared w w' \<Longrightarrow> I w'"
  shows "serves R I P h"
  using assms acts_keeps same_head_refl unfolding answers_def serves_def by meson

lemma serves_mono:
  assumes "serves R I P h" and "\<And>r. R' r \<Longrightarrow> R r" and "\<And>r w w'. R' r \<Longrightarrow> P r w w' \<Longrightarrow> P' r w w'"
  shows "serves R' I P' h"
  using assms unfolding serves_def by meson

end

end
