(* ===== verification/Chain.thy ===== *)
theory Chain
  imports Routes Serving
begin

text \<open>
  The middlewares of the authenticated chain and the muxes, put together along \<open>serves\<close>: what every
  request to the tree of Routes.thy does, and the invariant of the world it keeps.
\<close>

section \<open>The HTTP metrics\<close>

text \<open>
  A family that fits its handle: well formed, with the right number of labels; and, where the second
  label is the route, its value is the pattern of the chain's mount point in every series.
\<close>

definition fits :: "nat \<Rightarrow> 'f family \<Rightarrow> bool" where
  "fits n f \<longleftrightarrow> family_ok f \<and> length (labelNames f) = n
     \<and> (2 \<le> n \<longrightarrow> (\<forall>(k, s) \<in> set (f_series f). s_labels s ! 1 = ''/''))"

definition http_metrics_ok :: "httpMetricsSet \<Rightarrow> 'f registry \<Rightarrow> bool" where
  "http_metrics_ok m reg \<longleftrightarrow>
     distinct [hm_requests m, hm_duration m, hm_active m] \<and>
     hm_requests m < length (families reg) \<and> hm_duration m < length (families reg)
     \<and> hm_active m < length (families reg) \<and>
     fits 3 (families reg ! hm_requests m) \<and> fits 2 (families reg ! hm_duration m)
     \<and> fits 0 (families reg ! hm_active m)"

lemma seriesFor_label:
  assumes "\<forall>(k, s) \<in> set (f_series f). s_labels s ! 1 = ''/''" and "values ! 1 = ''/''"
  shows "s_labels (seriesFor F f values) ! 1 = ''/''"
  using assms by (auto simp: seriesFor_def new_series_def split: option.split dest!: map_of_SomeD)

lemma set_update_subset: "set (AList.update k x al) \<subseteq> insert (k, x) (set al)"
  by (induction al) auto

lemma put_series_label:
  assumes "\<forall>(k, s) \<in> set (f_series f). s_labels s ! 1 = ''/''" and "s_labels x ! 1 = ''/''"
  shows "\<forall>(k, s) \<in> set (f_series (put_series values x f)). s_labels s ! 1 = ''/''"
  using assms set_update_subset [of "series_key values" x "f_series f"] by (auto simp: put_series_def)

lemma fits_put:
  assumes "fits n f" and "family_ok (put_series values x f)" and "2 \<le> n \<Longrightarrow> s_labels x ! 1 = ''/''"
  shows "fits n (put_series values x f)"
  unfolding fits_def
proof (intro conjI impI)
  show "length (labelNames (put_series values x f)) = n"
    using assms(1) by (simp add: fits_def put_series_def)
  assume "2 \<le> n"
  with assms show "\<forall>(k, s) \<in> set (f_series (put_series values x f)). s_labels s ! 1 = ''/''"
    by (intro put_series_label) (simp_all add: fits_def)
qed (rule assms(2))

lemma fits_ops:
  assumes f: "fits n f" and n: "length vals = n" and r: "2 \<le> n \<Longrightarrow> vals ! 1 = ''/''"
  shows "\<exists>f'. add F d vals f = Return f' \<and> fits n f'" "\<exists>f'. observe F d vals f = Return f' \<and> fits n f'"
proof -
  have ok: "family_ok f" "labelCount f vals" using f n by (auto simp: fits_def labelCount_def)
  note ops = family_ops_ok [OF ok, of F d]
  have lab: "s_labels (seriesFor F f vals) ! 1 = ''/''" if "2 \<le> n"
    using f r that by (intro seriesFor_label) (auto simp: fits_def)
  show "\<exists>f'. add F d vals f = Return f' \<and> fits n f'"
    using ops(1) ok by (auto simp: add_def Let_def intro!: fits_put [OF f] lab [unfolded One_nat_def])
  show "\<exists>f'. observe F d vals f = Return f' \<and> fits n f'"
    using ops(3) ok by (auto simp: observe_def intro!: fits_put [OF f] lab [unfolded One_nat_def])
qed

lemma http_metrics_update:
  assumes m: "http_metrics_ok m reg" and i: "i \<in> {hm_requests m, hm_duration m, hm_active m}"
    and op: "\<And>n. fits n (families reg ! i) \<Longrightarrow> \<exists>f'. op (families reg ! i) = Return f' \<and> fits n f'"
  shows "\<exists>reg'. on_family i op reg = Return reg' \<and> http_metrics_ok m reg'"
proof -
  obtain n where n: "fits n (families reg ! i)" using m i by (auto simp: http_metrics_ok_def)
  obtain f' where f': "op (families reg ! i) = Return f'" using op [OF n] by blast
  have "fits k f'" if "fits k (families reg ! i)" for k using op [OF that] f' by auto
  then show ?thesis using m i f' by (auto simp: on_family_def http_metrics_ok_def nth_list_update)
qed

lemma http_metrics_ops:
  assumes m: "http_metrics_ok m reg"
  shows "\<exists>reg'. gauge_Inc F (hm_active m) reg = Return reg' \<and> http_metrics_ok m reg'"
    "\<exists>reg'. gauge_Dec F (hm_active m) reg = Return reg' \<and> http_metrics_ok m reg'"
    "\<exists>reg'. counter_Inc F (hm_requests m) [mt, ''/'', st] reg = Return reg' \<and> http_metrics_ok m reg'"
    "\<exists>reg'. histogram_Observe F (hm_duration m) v [mt, ''/''] reg = Return reg' \<and> http_metrics_ok m reg'"
proof -
  have n: "fits n (families reg ! hm_active m) \<Longrightarrow> n = 0" "fits n (families reg ! hm_requests m) \<Longrightarrow> n = 3"
    "fits n (families reg ! hm_duration m) \<Longrightarrow> n = 2" for n
    using m by (auto simp: http_metrics_ok_def fits_def)
  have act: "\<exists>f'. add F d [] (families reg ! hm_active m) = Return f' \<and> fits n f'"
    if "fits n (families reg ! hm_active m)" for n d
    using fits_ops(1) [OF that, of "[]" F d] n(1) [OF that] by simp
  have req: "\<exists>f'. add F d [mt, ''/'', st] (families reg ! hm_requests m) = Return f' \<and> fits n f'"
    if "fits n (families reg ! hm_requests m)" for n d
    using fits_ops(1) [OF that, of "[mt, ''/'', st]" F d] n(2) [OF that] by simp
  have dur: "\<exists>f'. observe F d [mt, ''/''] (families reg ! hm_duration m) = Return f' \<and> fits n f'"
    if "fits n (families reg ! hm_duration m)" for n d
    using fits_ops(2) [OF that, of "[mt, ''/'']" F d] n(3) [OF that] by simp
  show "\<exists>reg'. gauge_Inc F (hm_active m) reg = Return reg' \<and> http_metrics_ok m reg'"
    "\<exists>reg'. gauge_Dec F (hm_active m) reg = Return reg' \<and> http_metrics_ok m reg'"
    "\<exists>reg'. counter_Inc F (hm_requests m) [mt, ''/'', st] reg = Return reg' \<and> http_metrics_ok m reg'"
    "\<exists>reg'. histogram_Observe F (hm_duration m) v [mt, ''/''] reg = Return reg' \<and> http_metrics_ok m reg'"
    unfolding gauge_Inc_def gauge_Dec_def counter_Inc_def histogram_Observe_def
    by (rule http_metrics_update [OF m]; (simp; fail | rule act req dur; assumption))+
qed

lemma http_metrics_new:
  assumes "newHTTPMetrics F = Return (m, reg)"
  shows "http_metrics_ok m reg"
  using assms
  by (auto simp: newHTTPMetrics_def CounterVec_def HistogramVec_def Gauge_def reg_add_def NewRegistry_def
      durationBuckets_def http_metrics_ok_def fits_def family_ok_def gomap_ok_Nil)

lemma newHTTPMetrics_returns: "\<exists>m reg. newHTTPMetrics F = Return (m, reg)"
  by (simp add: newHTTPMetrics_def CounterVec_def HistogramVec_def Gauge_def reg_add_def NewRegistry_def
      durationBuckets_def)

section \<open>The world between requests\<close>

definition world_ok :: "httpMetricsSet \<Rightarrow> gotime \<Rightarrow> ('d, 'f) world \<Rightarrow> bool" where
  "world_ok m now w \<longleftrightarrow> client_ok (key_cache w) \<and> rl_ok now (limiter w) \<and> http_metrics_ok m (metrics w)"

lemma world_ok_shared: "world_ok m now w \<Longrightarrow> same_shared w w' \<Longrightarrow> world_ok m now w'"
  by (simp add: world_ok_def same_shared_def)

text \<open>What one request may meet: a fair map order, a set clock, and at the key cache other requests that behave.\<close>

definition env_ok :: "'f env \<Rightarrow> bool" where
  "env_ok E \<longleftrightarrow> rely (ae_key (env_auth E)) \<and> range_order (env_rl_order E) \<and> 0 < env_rl_now E"

text \<open>A request whose principal, if it has one, has a subject.\<close>

definition subject_set :: "request \<Rightarrow> bool" where
  "subject_set r \<longleftrightarrow> (\<forall>p. PrincipalFromContext (Ctx r) = Some p \<longrightarrow> Subject p \<noteq> '''')"

text \<open>Who may change the configuration, from the inside out.\<close>

definition admitted :: "'f env \<Rightarrow> principal \<Rightarrow> rateLimiter \<Rightarrow> bool" where
  "admitted E p rl \<longleftrightarrow> HasRole p ''admin'' \<and>
     (\<exists>rl'. allow (env_rl_order E) (env_rl_now E) (Subject p) rl = Return (True, rl'))"

definition admin_request :: "'f env \<Rightarrow> request \<Rightarrow> ('d, 'f) world \<Rightarrow> bool" where
  "admin_request E r w \<longleftrightarrow> (\<exists>p. PrincipalFromContext (Ctx r) = Some p \<and> admitted E p (limiter w))"

definition authorised :: "jwt_lib \<Rightarrow> jwtProvider \<Rightarrow> 'f env \<Rightarrow> request \<Rightarrow> ('d, 'f) world \<Rightarrow> bool" where
  "authorised L p E r w \<longleftrightarrow> Method r = ''PUT'' \<and>
     (\<exists>q c. Authenticate L p (env_auth E) r (key_cache w) = Return (Inr q, c) \<and> admitted E q (limiter w))"

definition csrf_passes :: "request \<Rightarrow> bool" where
  "csrf_passes r \<longleftrightarrow> is_read_method (Method r) \<or>
     (header_get (Header r) ''X-Requested-With'' = ''fetch'' \<or> header_get (Header r) ''HX-Request'' = ''true'')
     \<and> header_get (Header r) ''Sec-Fetch-Site'' \<in> {'''', ''same-origin'', ''same-site'', ''none''}"

interpretation csrf: guard csrf "\<lambda>r w. csrf_passes r" "\<lambda>r w. w"
  "\<lambda>r w. WriteProblem 403 (StatusText 403) '''' w" "{403}"
  by unfold_locales (auto simp: csrf_def csrf_passes_def)

section \<open>The middlewares\<close>

text \<open>A recorder put around the writer and taken off again.\<close>

lemma recorder_fields [simp]:
  "wrote (push_recorder w) = wrote w" "hdr (push_recorder w) = hdr w" "logs (push_recorder w) = logs w"
  "web.more (push_recorder w) = web.more w" "recorders (push_recorder w) = 200 # recorders w"
  "wrote (pop_recorder w) = wrote w" "hdr (pop_recorder w) = hdr w" "logs (pop_recorder w) = logs w"
  "web.more (pop_recorder w) = web.more w" "recorders (pop_recorder w) = tl (recorders w)"
  "chunks (push_recorder w) = chunks w" "chunks (pop_recorder w) = chunks w"
  by (simp_all add: push_recorder_def pop_recorder_def)

lemma recorder_state [simp]:
  "limiter (push_recorder w) = limiter w" "key_cache (push_recorder w) = key_cache w"
  "database (push_recorder w) = database w" "metrics (push_recorder w) = metrics w"
  "limiter (pop_recorder w) = limiter w" "key_cache (pop_recorder w) = key_cache w"
  "database (pop_recorder w) = database w" "metrics (pop_recorder w) = metrics w"
  by (simp_all add: push_recorder_def pop_recorder_def)

lemma push_recorders_ok: "recorders_ok w \<Longrightarrow> wrote w = None \<Longrightarrow> recorders_ok (push_recorder w)"
  by (simp add: recorders_ok_def status_of_def)

lemma pop_recorders_ok: "recorders_ok w \<Longrightarrow> recorders_ok (pop_recorder w)"
  by (cases "recorders w") (auto simp: recorders_ok_def status_of_def)

lemma keeps_push_pop:
  assumes k: "keeps hs (push_recorder w) w'" and fresh: "wrote w = None"
  shows "keeps hs w (pop_recorder w')"
  unfolding keeps_def
proof (intro conjI impI)
  assume "keeps_headers hs w"
  then have "keeps_headers hs w'"
    using k keeps_headers_same [of hs w "push_recorder w"] by (simp add: keeps_def)
  then show "keeps_headers hs (pop_recorder w')" by (rule keeps_headers_same) simp_all
next
  assume "recorders_ok w"
  then have "recorders_ok w'" "length (recorders w') = Suc (length (recorders w))"
    using k push_recorders_ok [OF _ fresh] by (auto simp: keeps_def)
  then show "recorders_ok (pop_recorder w')" "length (recorders (pop_recorder w')) = length (recorders w)"
    by (simp_all add: pop_recorders_ok)
qed (use k in \<open>simp add: keeps_def lines_with_def\<close>)

lemma recorded_status_ok:
  assumes k: "keeps hs (push_recorder w) w'" and "recorders_ok w" and "wrote w = None"
  shows "recorded_status w' = status_of w'"
proof -
  have "recorders_ok w'" "length (recorders w') = Suc (length (recorders w))"
    using k push_recorders_ok [OF assms(2,3)] by (auto simp: keeps_def)
  then show ?thesis by (cases "recorders w'") (auto simp: recorders_ok_def recorded_status_def)
qed

text \<open>The method of a pattern the mux may choose.\<close>

definition routed :: "'s pattern \<Rightarrow> request \<Rightarrow> bool" where
  "routed p r \<longleftrightarrow> pat_method p = Method r \<or> pat_method p = '''' \<or> (Method r = ''HEAD'' \<and> pat_method p = ''GET'')"

lemma metrics_run:
  assumes m: "http_metrics_ok m (metrics w)"
    and nxt: "\<And>reg. http_metrics_ok m reg \<Longrightarrow> \<exists>r2 w2. nxt r (push_recorder (w\<lparr>metrics := reg\<rparr>)) = Done r2 w2
      \<and> Pattern r2 = ''/'' \<and> http_metrics_ok m (metrics w2) \<and> Q reg r2 w2"
  obtains reg reg' r2 w2 where "http_metrics_ok m reg" "http_metrics_ok m reg'" "Q reg r2 w2"
    "metricsMiddleware F m E nxt r w = Done r2 ((pop_recorder w2)\<lparr>metrics := reg'\<rparr>)"
proof -
  obtain reg1 where reg1: "gauge_Inc F (hm_active m) (metrics w) = Return reg1" "http_metrics_ok m reg1"
    using http_metrics_ops(1) [OF m] by blast
  let ?w1 = "w\<lparr>metrics := reg1\<rparr>"
  obtain r2 w2 where h2: "nxt r (push_recorder ?w1) = Done r2 w2" "Pattern r2 = ''/''"
      "http_metrics_ok m (metrics w2)" "Q reg1 r2 w2"
    using nxt [OF reg1(2)] by blast
  let ?st = "itoa_digits (recorded_status w2)"
  obtain reg3 where reg3: "counter_Inc F (hm_requests m) [Method r2, ''/'', ?st] (metrics w2) = Return reg3"
      "http_metrics_ok m reg3"
    using http_metrics_ops(3) [OF h2(3)] by blast
  obtain reg4 where reg4: "histogram_Observe F (hm_duration m) (env_seconds E) [Method r2, ''/''] reg3 = Return reg4"
      "http_metrics_ok m reg4"
    using http_metrics_ops(4) [OF reg3(2)] by blast
  obtain reg5 where reg5: "gauge_Dec F (hm_active m) reg4 = Return reg5" "http_metrics_ok m reg5"
    using http_metrics_ops(2) [OF reg4(2)] by blast
  have "record_request F m E r2 w2 = Return (w2\<lparr>metrics := reg4\<rparr>)"
    using h2(2) reg3(1) reg4(1) by (simp add: record_request_def on_metrics_def Let_def)
  then have "metricsMiddleware F m E nxt r w = Done r2 ((pop_recorder w2)\<lparr>metrics := reg5\<rparr>)"
    using reg1(1) reg5(1) h2(1) by (simp add: metricsMiddleware_def on_metrics_def pop_recorder_def)
  with reg1(2) reg5(2) h2(4) show thesis by (rule that)
qed

context fixed_headers
begin

lemma serves_refusal: "wrote w = None \<Longrightarrow> keeps hs w (WriteProblem st t d w)"
  by (rule acts_keeps [OF acts_problem]) simp_all

lemma role_serves:
  assumes "answers (\<lambda>r. cfg_step D V True) h"
  shows "answers (\<lambda>r. cfg_step D V (has_role_in rl r)) (RequireRole rl h)"
proof (rule answersI)
  fix r :: request and w :: "('a, 'b) world" assume fresh: "wrote w = None"
  show "\<exists>w'. RequireRole rl h r w = Done r w' \<and> acts w w' \<and> same_shared w w' \<and> cfg_step D V (has_role_in rl r) w w'"
  proof (cases "has_role_in rl r")
    case True
    then have eq: "RequireRole rl h r w = h r w" by (rule role.pass)
    obtain w' where "h r w = Done r w'" "acts w w'" "same_shared w w'" "cfg_step D V True w w'"
      by (rule answersD [OF assms fresh])
    then show ?thesis using True eq by auto
  next
    case False
    then show ?thesis using fresh
      by (auto simp: role.stop same_shared_def intro!: acts_problem cfg_step_same)
  qed
qed

lemma admin_serves:
  assumes h: "answers (\<lambda>r. cfg_step D V True) h" and E: "env_ok E"
  shows "serves subject_set (world_ok m (env_rl_now E)) (\<lambda>r w. cfg_step D V (admin_request E r w) w) (admin_chain E h)"
proof (rule servesI)
  fix r :: request and w :: "('a, 'b) world"
  assume r: "subject_set r" and w: "world_ok m (env_rl_now E) w" and fresh: "wrote w = None"
  let ?P = "\<lambda>w'. world_ok m (env_rl_now E) w' \<and> keeps hs w w' \<and> cfg_step D V (admin_request E r w) w w'"
  show "\<exists>r' w'. admin_chain E h r w = Done r' w' \<and> same_head r r' \<and> ?P w'"
  proof (cases "PrincipalFromContext (Ctx r)")
    case None
    then show ?thesis using fresh w
      by (auto simp: admin_chain_def adminMiddleware_def world_ok_def intro!: serves_refusal cfg_step_same)
  next
    case (Some p)
    with r have s: "Subject p \<noteq> ''''" by (simp add: subject_set_def)
    have e: "range_order (env_rl_order E)" "0 < env_rl_now E" "rl_ok (env_rl_now E) (limiter w)"
      using E w by (simp_all add: env_ok_def world_ok_def)
    obtain ok rl where rl: "allow (env_rl_order E) (env_rl_now E) (Subject p) (limiter w) = Return (ok, rl)"
      "rl_ok (env_rl_now E) rl"
      by (rule allow_ok [OF e(1,3) order_refl e(2) s])
    let ?w = "w\<lparr>limiter := rl\<rparr>"
    have w1: "world_ok m (env_rl_now E) ?w" "wrote ?w = None" "keeps hs w ?w" "database ?w = database w"
      using w rl(2) fresh by (simp_all add: world_ok_def keeps_same)
    show ?thesis
    proof (cases ok)
      case False
      then have "admin_chain E h r w = Done r (WriteProblem 429 (StatusText 429) '''' ?w)"
        using Some rl by (simp add: admin_chain_def adminMiddleware_def)
      then show ?thesis using w1 keeps_trans [OF w1(3) serves_refusal [OF w1(2)]]
        by (auto simp: world_ok_def intro!: cfg_step_same)
    next
      case True
      obtain w2 where w2: "RequireRole ''admin'' h r ?w = Done r w2" "acts ?w w2" "same_shared ?w w2"
          "cfg_step D V (has_role_in ''admin'' r) ?w w2"
        by (rule answersD [OF role_serves [OF h] w1(2)])
      have "admin_chain E h r w = Done r w2"
        using True Some rl w2(1) by (simp add: admin_chain_def adminMiddleware_def)
      moreover have "has_role_in ''admin'' r \<Longrightarrow> admin_request E r w"
        using Some True rl by (auto simp: has_role_in_def admin_request_def admitted_def)
      note cfg_step_mono [OF cfg_step_before [OF w1(4) w2(4)] this]
      ultimately show ?thesis
        using world_ok_shared [OF w1(1) w2(3)] keeps_trans [OF w1(3) acts_keeps [OF w2(2)]] same_head_refl
        by (intro exI [of _ r] exI [of _ w2]) simp
    qed
  qed
qed

text \<open>A mux passes to one of its patterns, or answers by itself and changes nothing but the response.\<close>

lemma acts_http_error: "acts w w' \<Longrightarrow> wrote w' = None \<Longrightarrow> acts w (http_error t c w')"
  unfolding http_error_def
  by (intro acts_chunk acts_status acts_nosniff acts_type acts_drop_length) simp_all

lemma acts_redirect:
  assumes "wrote w = None" shows "acts w (http_redirect U path r w)"
proof -
  let ?w = "set_header ''Location'' (url_string U path (RawQuery r)) w"
  have 1: "acts w ?w" by (rule acts_header) (simp_all add: handler_headers_def)
  have 2: "acts w (set_header ''Content-Type'' v ?w)" for v by (rule acts_type [OF 1])
  have "wrote ?w = None" "wrote (set_header ''Content-Type'' v ?w) = None" for v using assms by simp_all
  then show ?thesis
    unfolding http_redirect_def Let_def by (auto intro!: acts_chunk acts_status 1 2)
qed

lemma acts_own_answer:
  assumes "own_answer U r w w'" and "wrote w = None" shows "acts w w'"
  using assms(1) unfolding own_answer_def
proof (elim disjE exE)
  assume w': "w' = WriteHeader 400 (set_header ''Connection'' ''close'' w)"
  show ?thesis unfolding w' by (intro acts_status acts_header) (simp_all add: handler_headers_def assms(2))
next
  fix path assume w': "w' = http_redirect U path r w"
  show ?thesis unfolding w' by (rule acts_redirect [OF assms(2)])
next
  fix ms assume w': "w' = http_error (StatusText 405) 405 (set_header ''Allow'' ms w)"
  show ?thesis unfolding w'
    by (intro acts_http_error acts_header) (simp_all add: handler_headers_def assms(2))
next
  assume w': "w' = http_error ''404 page not found'' 404 w"
  show ?thesis unfolding w' by (intro acts_http_error) (simp_all add: assms(2))
qed

lemma mux_serves:
  assumes h: "\<And>p. p \<in> set mx \<Longrightarrow> serves (\<lambda>r. R' r \<and> Pattern r = pat_str p) I (\<lambda>r w. cfg_step D V (ok p r w) w) (pat_handler p)"
    and R: "\<And>r pat vals. R r \<Longrightarrow> R' (r\<lparr>Pattern := pat, PathValues := vals\<rparr>)"
    and ok: "\<And>p r w vals. p \<in> set mx \<Longrightarrow> routed p r \<Longrightarrow>
        ok p (r\<lparr>Pattern := pat_str p, PathValues := vals\<rparr>) w \<Longrightarrow> ok' r w"
    and I: "\<And>w w'. I w \<Longrightarrow> same_shared w w' \<Longrightarrow> I w'"
  shows "serves R I (\<lambda>r w. cfg_step D V (ok' r w) w) (mux_serve U mx)"
proof (rule servesI)
  fix r :: request and w :: "('a, 'b) world"
  assume r: "R r" and w: "I w" and fresh: "wrote w = None"
  show "\<exists>r' w'. mux_serve U mx r w = Done r' w' \<and> same_head r r' \<and> I w' \<and> keeps hs w w' \<and> cfg_step D V (ok' r w) w w'"
  proof (cases rule: mux_serve_cases [of mx r U w])
    case (found p ms vals)
    let ?r = "r\<lparr>Pattern := pat_str p, PathValues := vals\<rparr>"
    obtain r' w' where h': "pat_handler p ?r w = Done r' w'" "same_head ?r r'" "I w'" "keeps hs w w'" "cfg_step D V (ok p ?r w) w w'"
      by (rule servesD [OF h [OF found(1)] _ w fresh, of ?r]) (use R [OF r] in auto)
    have "ok p ?r w \<Longrightarrow> ok' r w" by (rule ok [OF found(1)]) (use found(2) in \<open>simp_all add: routed_def\<close>)
    with h' cfg_step_mono [OF h'(5)] found(4) show ?thesis by auto
  next
    case (own r' w')
    have "web.more w' = web.more w" by (rule own_answer_fields(2) [OF own(2) fresh])
    then have m: "same_shared w w'" "database w' = database w"
      by (cases w; cases w'; simp add: same_shared_def)+
    with own I [OF w] acts_keeps [OF acts_own_answer [OF own(2) fresh]] show ?thesis
      by (auto intro: cfg_step_same)
  qed
qed

lemma csrf_serves:
  assumes h: "serves R I (\<lambda>r w. cfg_step D V (ok r w) w) nxt"
    and I: "\<And>w w'. I w \<Longrightarrow> same_shared w w' \<Longrightarrow> I w'"
  shows "serves R I (\<lambda>r w. cfg_step D V (csrf_passes r \<and> ok r w) w) (csrf nxt)"
proof (rule servesI)
  fix r :: request and w :: "('a, 'b) world"
  assume r: "R r" and w: "I w" and fresh: "wrote w = None"
  show "\<exists>r' w'. csrf nxt r w = Done r' w' \<and> same_head r r' \<and> I w' \<and> keeps hs w w' \<and> cfg_step D V (csrf_passes r \<and> ok r w) w w'"
  proof (cases "csrf_passes r")
    case True
    from True servesD [OF h r w fresh] show ?thesis by (simp add: csrf.pass) metis
  next
    case False
    have "same_shared w (WriteProblem 403 (StatusText 403) '''' w)" by (simp add: same_shared_def)
    with False I [OF w] serves_refusal [OF fresh] show ?thesis
      by (auto simp: csrf.stop intro!: cfg_step_same)
  qed
qed

lemma maxBody_serves:
  assumes h: "serves R I (\<lambda>r w. cfg_step D V (ok r w) w) nxt"
    and R: "\<And>r b. R r \<Longrightarrow> R (r\<lparr>Body := b\<rparr>)" and ok: "\<And>r b w. ok (r\<lparr>Body := b\<rparr>) w \<longleftrightarrow> ok r w"
  shows "serves R I (\<lambda>r w. cfg_step D V (ok r w) w) (maxBody nxt)"
proof (rule servesI)
  fix r :: request and w :: "('a, 'b) world"
  assume r: "R r" and w: "I w" and fresh: "wrote w = None"
  let ?r = "if is_read_method (Method r) then r else r\<lparr>Body := MaxBytesReader maxRequestBodyBytes (Body r)\<rparr>"
  have "maxBody nxt r w = nxt ?r w" by (simp add: maxBody_def)
  moreover have R: "R ?r" "ok ?r w \<longleftrightarrow> ok r w" "same_head ?r r' = same_head r r'" for r'
    using R [OF r] r ok by simp_all
  moreover obtain r' w' where "nxt ?r w = Done r' w'" "same_head ?r r'" "I w'" "keeps hs w w'"
      "cfg_step D V (ok ?r w) w w'"
    by (rule servesD [OF h R(1) w fresh])
  ultimately show "\<exists>r' w'. maxBody nxt r w = Done r' w' \<and> same_head r r' \<and> I w' \<and> keeps hs w w' \<and> cfg_step D V (ok r w) w w'"
    by (intro exI [of _ r'] exI [of _ w']) (simp only: R simp_thms)
qed

text \<open>Behind authentication, requests have a principal with a subject.\<close>

lemma Middleware_serves:
  assumes h: "serves subject_set (world_ok m now) (\<lambda>r w. cfg_step D V (ok r w) w) nxt"
    and reg: "registered p" and E: "rely (ae_key E)"
    and ok: "\<And>r q w c. Authenticate L p E r (key_cache w) = Return (Inr q, c) \<Longrightarrow>
        ok (r\<lparr>Ctx := WithPrincipal (Ctx r) q\<rparr>) (w\<lparr>key_cache := c\<rparr>) \<Longrightarrow> ok' r w"
  shows "serves (\<lambda>_. True) (world_ok m now) (\<lambda>r w. cfg_step D V (ok' r w) w)
    (Middleware (authenticate_world L p E) nxt)"
proof (rule servesI)
  fix r :: request and w :: "('a, 'b) world"
  assume w: "world_ok m now w" and fresh: "wrote w = None"
  have inv: "client_ok (key_cache w) \<and> registered p" using w reg by (simp add: world_ok_def)
  let ?goal = "\<lambda>r' w'. world_ok m now w' \<and> keeps hs w w' \<and> cfg_step D V (ok' r w) w w'"
  show "\<exists>r' w'. Middleware (authenticate_world L p E) nxt r w = Done r' w' \<and> same_head r r' \<and> ?goal r' w'"
  proof (cases rule: web.middleware_cases [OF E inv, where L = L and r = r and nxt = nxt, case_names refused passed])
    case (refused e w')
    obtain c where c: "w' = w\<lparr>key_cache := c\<rparr>"
      using refused(8) by (auto simp: authenticate_world_def map_outcome_Return)
    let ?l = "log_to Info ''authentication failed''
      [(''error'', error_text e), (''request_id'', RequestIDFromContext (Ctx r))] w'"
    have "keeps hs w w'" by (rule keeps_same) (use refused in simp_all)
    moreover have "keeps hs w' (WriteProblem 401 (StatusText 401) '''' ?l)"
      by (rule acts_keeps [OF acts_problem]) (use refused fresh in \<open>simp_all add: acts_log\<close>)
    ultimately have "keeps hs w (auth_refusal e r w')"
      unfolding auth_refusal_def by (rule keeps_trans)
    moreover have "world_ok m now (auth_refusal e r w')" "database (auth_refusal e r w') = database w"
      using w refused(2) c by (simp_all add: auth_refusal_def world_ok_def)
    ultimately show ?thesis using refused(1) by (auto intro: cfg_step_same)
  next
    case (passed q w')
    obtain c where c: "w' = w\<lparr>key_cache := c\<rparr>" "Authenticate L p E r (key_cache w) = Return (Inr q, c)"
      using passed(9) by (auto simp: authenticate_world_def map_outcome_Return)
    let ?r = "r\<lparr>Ctx := WithPrincipal (Ctx r) q\<rparr>"
    have w1: "world_ok m now w'" "keeps hs w w'" "database w' = database w"
      using w passed c by (simp_all add: world_ok_def keeps_same)
    have "subject_set ?r" using passed(3) by (simp add: subject_set_def)
    then obtain r2 w2 where h2: "nxt ?r w' = Done r2 w2" "same_head ?r r2" "world_ok m now w2" "keeps hs w' w2"
        "cfg_step D V (ok ?r w') w' w2"
      by (rule servesD [OF h _ w1(1)]) (use passed fresh in simp_all)
    have "cfg_step D V (ok' r w) w w2"
      by (rule cfg_step_mono [OF cfg_step_before [OF w1(3) h2(5)]]) (rule ok [OF c(2)], simp add: c(1))
    with h2 keeps_trans [OF w1(2) h2(4)] passed(1) show ?thesis by (simp add: serve_with_ctx_def)
  qed
qed

lemma metrics_serves:
  assumes h: "serves R (world_ok m now) (\<lambda>r w. cfg_step D V (ok r w) w) nxt"
    and pat: "\<And>r w r' w'. nxt r w = Done r' w' \<Longrightarrow> Pattern r' = Pattern r"
    and ok: "\<And>r w w1. limiter w1 = limiter w \<Longrightarrow> key_cache w1 = key_cache w \<Longrightarrow> ok r w1 \<Longrightarrow> ok r w"
  shows "serves (\<lambda>r. R r \<and> Pattern r = ''/'') (world_ok m now) (\<lambda>r w. cfg_step D V (ok r w) w)
    (metricsMiddleware F m E nxt)"
proof (rule servesI)
  fix r :: request and w :: "('a, 'b) world"
  assume r: "R r \<and> Pattern r = ''/''" and w: "world_ok m now w" and fresh: "wrote w = None"
  let ?w1 = "\<lambda>reg. push_recorder (w\<lparr>metrics := reg\<rparr>)"
  let ?Q = "\<lambda>reg r2 w2. same_head r r2 \<and> world_ok m now w2 \<and> keeps hs (?w1 reg) w2
    \<and> cfg_step D V (ok r (?w1 reg)) (?w1 reg) w2"
  have m: "http_metrics_ok m (metrics w)" using w by (simp add: world_ok_def)
  obtain reg reg' r2 w2 where h2: "http_metrics_ok m reg'" "?Q reg r2 w2"
      "metricsMiddleware F m E nxt r w = Done r2 ((pop_recorder w2)\<lparr>metrics := reg'\<rparr>)"
  proof (rule metrics_run [OF m, of nxt r ?Q F E])
    fix reg :: "'b registry" assume reg: "http_metrics_ok m reg"
    have w1: "world_ok m now (?w1 reg)" "wrote (?w1 reg) = None"
      using w reg fresh by (simp_all add: world_ok_def)
    obtain r2 w2 where "nxt r (?w1 reg) = Done r2 w2" "?Q reg r2 w2"
      using servesD [OF h conjunct1 [OF r] w1] by metis
    then show "\<exists>r2 w2. nxt r (?w1 reg) = Done r2 w2 \<and> Pattern r2 = ''/'' \<and> http_metrics_ok m (metrics w2) \<and> ?Q reg r2 w2"
      using pat [of r "?w1 reg"] r by (auto simp: world_ok_def)
  qed
  let ?w3 = "(pop_recorder w2)\<lparr>metrics := reg'\<rparr>"
  have q: "same_head r r2" "world_ok m now w2" "keeps hs (?w1 reg) w2" "cfg_step D V (ok r (?w1 reg)) (?w1 reg) w2"
    using h2(2) by simp_all
  have "world_ok m now ?w3" using q(2) h2(1) by (simp add: world_ok_def)
  moreover have "keeps hs w ?w3"
  proof -
    have "keeps hs w (w\<lparr>metrics := reg\<rparr>)" by (rule keeps_same) simp_all
    moreover have "keeps hs (w\<lparr>metrics := reg\<rparr>) (pop_recorder w2)" by (rule keeps_push_pop [OF q(3)]) (use fresh in simp)
    moreover have "keeps hs (pop_recorder w2) ?w3" by (rule keeps_same) simp_all
    ultimately show ?thesis using keeps_trans by blast
  qed
  moreover have "cfg_step D V (ok r w) w ?w3"
  proof -
    have "ok r (?w1 reg) \<Longrightarrow> ok r w" by (erule ok [rotated 2]) simp_all
    from cfg_step_mono [OF q(4) this] have "cfg_step D V (ok r w) (?w1 reg) w2" .
    then have "cfg_step D V (ok r w) w w2" by (rule cfg_step_before [rotated]) simp
    then show ?thesis by (rule cfg_step_after) simp
  qed
  ultimately show "\<exists>r' w'. metricsMiddleware F m E nxt r w = Done r' w' \<and> same_head r r' \<and> world_ok m now w' \<and> keeps hs w w'
      \<and> cfg_step D V (ok r w) w w'" using q(1) h2(3) by blast
qed

end

text \<open>
  What the file server of net/http promises: it answers through the writer, keeps headers set before
  it under names of its own, and touches no state of the program.
\<close>

definition static_ok :: "('d, 'f) world handler \<Rightarrow> bool" where
  "static_ok h \<longleftrightarrow> (\<forall>hs r w. fixed_headers hs \<and> wrote w = None \<longrightarrow>
     (\<exists>w'. h r w = Done r w' \<and> responds hs ''request'' w w' \<and> same_shared w w' \<and> database w' = database w))"

text \<open>The parts of the tree fit together: the wiring of main.go.\<close>

definition app_ok :: "jwt_lib \<Rightarrow> jwtProvider \<Rightarrow> ('d, 'f) app \<Rightarrow> bool" where
  "app_ok L p A \<longleftrightarrow> registered p \<and> app_auth A = authenticate_world L p \<and>
     app_model A = storePageModel (app_driver A) \<and>
     (\<exists>files. static_ok files \<and> app_static A = StaticHandler files)"

section \<open>The tree\<close>

context fixed_headers
begin

lemma static_answers:
  assumes "static_ok files"
  shows "answers (\<lambda>r. cfg_step D V ok) (StaticHandler files)"
proof (rule answers_same)
  fix r :: request and w :: "('a, 'b) world" assume fresh: "wrote w = None"
  let ?w1 = "if path_ext (Path r) = ''.js'' then set_header ''Content-Type'' ''text/javascript; charset=utf-8'' w
    else if path_ext (Path r) = ''.css'' then set_header ''Content-Type'' ''text/css; charset=utf-8'' w else w"
  have "StaticHandler files r w = files r ?w1" "acts w ?w1" "wrote ?w1 = None" "same_shared w ?w1"
      "database ?w1 = database w"
    using fresh by (simp_all add: StaticHandler_def acts_type same_shared_def)
  then obtain w1 where w1: "StaticHandler files r w = files r w1" "acts w w1" "wrote w1 = None" "same_shared w w1"
      "database w1 = database w" by blast
  have "fixed_headers hs" by unfold_locales
  with assms w1(3) obtain w2 where w2: "files r w1 = Done r w2" "responds hs ''request'' w1 w2"
      "same_shared w1 w2" "database w2 = database w1"
    unfolding static_ok_def by blast
  have "acts w w2" using responds_trans [OF w1(2) [unfolded acts_def] w2(2)] unfolding acts_def .
  moreover have "same_shared w w2" using w1(4) w2(3) by (simp add: same_shared_def)
  ultimately show "\<exists>w'. StaticHandler files r w = Done r w' \<and> acts w w' \<and> same_shared w w'
      \<and> database w' = database w"
    using w1 w2 by (intro exI [of _ w2]) simp
qed

lemma quiet_serves:
  assumes "answers (\<lambda>r. cfg_step D V False) h"
  shows "serves R (world_ok m now) (\<lambda>r w. cfg_step D V (ok r w) w) h"
  by (rule serves_mono [OF answers_serves [OF assms world_ok_shared]]) (auto elim: cfg_step_mono)

lemma ui_mux_serves:
  assumes A: "app_ok L p A" and E: "env_ok E"
  shows "serves subject_set (world_ok m (env_rl_now E))
    (\<lambda>r w. cfg_step (app_driver A) V (Method r = ''PUT'' \<and> admin_request E r w) w) (mux_serve (app_mux A) (ui_mux A E))"
proof (rule mux_serves [where R' = subject_set
      and ok = "\<lambda>q r w. admin_request E r w \<and> (pat_method q = ''PUT'' \<or> Method r = ''PUT'')"])
  fix q :: "('a, 'b) world pattern" assume "q \<in> set (ui_mux A E)"
  then consider "q = mk_pattern ''GET /'' (ui_home (app_codecs A) (storePageModel (app_driver A)))"
    | "q = mk_pattern ''PUT /ui/config/{key}'' (admin_chain E (ui_putConfig (app_codecs A) (storePageModel (app_driver A))))"
    using A by (auto simp: ui_mux_def app_ok_def)
  then show "serves (\<lambda>r. subject_set r \<and> Pattern r = pat_str q) (world_ok m (env_rl_now E))
      (\<lambda>r w. cfg_step (app_driver A) V (admin_request E r w \<and> (pat_method q = ''PUT'' \<or> Method r = ''PUT'')) w)
      (pat_handler q)"
  proof cases
    case 1
    show ?thesis unfolding 1 mk_pattern_simps by (rule quiet_serves [OF ui_home_answers])
  next
    case 2
    show ?thesis unfolding 2 mk_pattern_simps pattern_methods
      by (rule serves_mono [OF admin_serves [OF ui_putConfig_answers E]]) simp_all
  qed
qed (auto simp: ui_mux_def subject_set_def routed_def admin_request_def intro: world_ok_shared)

lemma authed_serves:
  assumes A: "app_ok L p A" and E: "env_ok E"
  shows "serves subject_set (world_ok m (env_rl_now E))
    (\<lambda>r w. cfg_step (app_driver A) V (Method r = ''PUT'' \<and> admin_request E r w) w) (authed_handler A E)"
  unfolding authed_handler_def
proof (rule mux_serves [where R' = subject_set
      and ok = "\<lambda>q r w. admin_request E r w \<and> (pat_method q = ''PUT'' \<or> Method r = ''PUT'')"])
  fix q :: "('a, 'b) world pattern" assume "q \<in> set (authed_mux A E)"
  then consider "q = mk_pattern ''GET /api/me'' me" | "q = mk_pattern ''GET /api/version'' (versionHandler (app_build A))"
    | "q = mk_pattern ''GET /api/config'' (listConfig (app_driver A))"
    | "q = mk_pattern ''PUT /api/config/{key}'' (admin_chain E (putConfig (app_driver A) (app_codecs A)))"
    | "q = mk_pattern ''/'' (mux_serve (app_mux A) (ui_mux A E))"
    by (auto simp: authed_mux_def)
  then show "serves (\<lambda>r. subject_set r \<and> Pattern r = pat_str q) (world_ok m (env_rl_now E))
      (\<lambda>r w. cfg_step (app_driver A) V (admin_request E r w \<and> (pat_method q = ''PUT'' \<or> Method r = ''PUT'')) w)
      (pat_handler q)"
  proof cases
    case 1
    show ?thesis unfolding 1 mk_pattern_simps by (rule quiet_serves [OF me_answers])
  next
    case 2
    show ?thesis unfolding 2 mk_pattern_simps by (rule quiet_serves [OF versionHandler_answers])
  next
    case 3
    show ?thesis unfolding 3 mk_pattern_simps by (rule quiet_serves [OF listConfig_answers])
  next
    case 4
    show ?thesis unfolding 4 mk_pattern_simps pattern_methods
      by (rule serves_mono [OF admin_serves [OF putConfig_answers E]]) simp_all
  next
    case 5
    show ?thesis unfolding 5 mk_pattern_simps pattern_methods
      by (rule serves_mono [OF ui_mux_serves [OF A E]]) (simp_all add: conj_commute)
  qed
qed (auto simp: authed_mux_def subject_set_def routed_def admin_request_def intro: world_ok_shared)

end

lemma Authenticate_head:
  "Header r' = Header r \<Longrightarrow> Authenticate L p E r' c = Authenticate L p E r c"
  by (simp add: Authenticate_def)

lemma chain_pattern:
  assumes "maxBody (csrf (Middleware a nxt)) r w = Done r' w'"
  shows "Pattern r' = Pattern r"
  using assms
  by (auto simp: maxBody_def csrf_def Middleware_def serve_with_ctx_def with_request_Done
      split: if_splits outcome.splits sum.splits prod.splits)

text \<open>What has to hold of a request for the configuration to change.\<close>

definition may_change :: "jwt_lib \<Rightarrow> jwtProvider \<Rightarrow> 'f env \<Rightarrow> request \<Rightarrow> ('d, 'f) world \<Rightarrow> bool" where
  "may_change L p E r w \<longleftrightarrow> csrf_passes r \<and> authorised L p E r w"

lemma may_change_head:
  "Method r' = Method r \<Longrightarrow> Header r' = Header r \<Longrightarrow> limiter w' = limiter w \<Longrightarrow> key_cache w' = key_cache w \<Longrightarrow>
     may_change L p E r' w' = may_change L p E r w"
  by (simp add: may_change_def authorised_def csrf_passes_def Authenticate_head [of r' r])

lemma may_change_parts [simp]:
  "may_change L p E (r\<lparr>Body := b\<rparr>) w = may_change L p E r w"
  "may_change L p E (r\<lparr>Pattern := pat, PathValues := vals\<rparr>) w = may_change L p E r w"
  by (rule may_change_head; simp)+

context fixed_headers
begin

lemma authed_chain_serves:
  assumes A: "app_ok L p A" and E: "env_ok E"
  shows "serves (\<lambda>r. Pattern r = ''/'') (world_ok (app_metrics A) (env_rl_now E))
    (\<lambda>r w. cfg_step (app_driver A) V (may_change L p E r w) w) (authed_chain A E)"
proof -
  let ?I = "world_ok (app_metrics A) (env_rl_now E)" and ?D = "app_driver A"
  have reg: "registered p" and auth: "app_auth A = authenticate_world L p" using A by (simp_all add: app_ok_def)
  have "serves (\<lambda>_. True) ?I (\<lambda>r w. cfg_step ?D V (authorised L p E r w) w)
      (Middleware (authenticate_world L p (env_auth E)) (authed_handler A E))"
    by (rule Middleware_serves [OF authed_serves [OF A E] reg])
      (use E in \<open>auto simp: env_ok_def authorised_def admin_request_def\<close>)
  from csrf_serves [OF this world_ok_shared]
  have "serves (\<lambda>_. True) ?I (\<lambda>r w. cfg_step ?D V (may_change L p E r w) w)
      (csrf (Middleware (authenticate_world L p (env_auth E)) (authed_handler A E)))"
    by (simp add: may_change_def)
  then have "serves (\<lambda>_. True) ?I (\<lambda>r w. cfg_step ?D V (may_change L p E r w) w)
      (maxBody (csrf (Middleware (authenticate_world L p (env_auth E)) (authed_handler A E))))"
    by (rule maxBody_serves) simp_all
  then have "serves (\<lambda>r. True \<and> Pattern r = ''/'') ?I (\<lambda>r w. cfg_step ?D V (may_change L p E r w) w)
      (metricsMiddleware (app_floats A) (app_metrics A) E
        (maxBody (csrf (Middleware (authenticate_world L p (env_auth E)) (authed_handler A E)))))"
  proof (rule metrics_serves)
    fix r and w w1 :: "('a, 'b) world"
    assume "limiter w1 = limiter w" "key_cache w1 = key_cache w" "may_change L p E r w1"
    then show "may_change L p E r w" using may_change_head [of r r w1 w] by simp
  qed (rule chain_pattern)
  then show ?thesis unfolding authed_chain_def auth by simp
qed

lemma root_serves:
  assumes A: "app_ok L p A" and E: "env_ok E"
  shows "serves (\<lambda>_. True) (world_ok (app_metrics A) (env_rl_now E))
    (\<lambda>r w. cfg_step (app_driver A) V (may_change L p E r w) w) (mux_serve (app_mux A) (root_mux A E))"
proof (rule mux_serves [where R' = "\<lambda>_. True" and ok = "\<lambda>q. may_change L p E"])
  fix q :: "('a, 'b) world pattern" assume "q \<in> set (root_mux A E)"
  then consider "q = mk_pattern ''GET /healthz'' healthz" | "q = mk_pattern ''GET /readyz'' (readyz (app_driver A))"
    | "q = mk_pattern ''GET /metrics'' (registryHandler (app_floats A) E)"
    | "q = mk_pattern ''/static/'' (app_static A)" | "q = mk_pattern ''/'' (authed_chain A E)"
    by (auto simp: root_mux_def)
  then show "serves (\<lambda>r. True \<and> Pattern r = pat_str q) (world_ok (app_metrics A) (env_rl_now E))
      (\<lambda>r w. cfg_step (app_driver A) V (may_change L p E r w) w) (pat_handler q)"
  proof cases
    case 1
    show ?thesis unfolding 1 mk_pattern_simps by (rule quiet_serves [OF healthz_answers])
  next
    case 2
    show ?thesis unfolding 2 mk_pattern_simps by (rule quiet_serves [OF readyz_answers])
  next
    case 3
    show ?thesis unfolding 3 mk_pattern_simps by (rule quiet_serves [OF registryHandler_answers])
  next
    case 4
    obtain files where "static_ok files" "app_static A = StaticHandler files" using A by (auto simp: app_ok_def)
    then show ?thesis unfolding 4 mk_pattern_simps by (simp add: quiet_serves [OF static_answers])
  next
    case 5
    show ?thesis unfolding 5 mk_pattern_simps
      by (rule serves_mono [OF authed_chain_serves [OF A E]]) simp_all
  qed
qed (auto intro: world_ok_shared)

end

section \<open>The outer chain\<close>

lemma security_header_names:
  "map fst (security_header_list d path) =
     [''Content-Security-Policy'', ''X-Frame-Options'', ''X-Content-Type-Options'', ''Referrer-Policy'']
     @ (if d then [] else [''Strict-Transport-Security'']) @ [''Permissions-Policy'']
     @ (if has_prefix path ''/api/'' then [''Cache-Control''] else [])"
  by (simp add: security_header_list_def)

definition response_headers :: "bool \<Rightarrow> string \<Rightarrow> string \<Rightarrow> (string \<times> string) list" where
  "response_headers d path rid = (''X-Request-Id'', rid) # security_header_list d path"

lemma response_names:
  "map canonical_key (map fst (response_headers d path rid)) =
     [''X-Request-Id'', ''Content-Security-Policy'', ''X-Frame-Options'', ''X-Content-Type-Options'', ''Referrer-Policy'']
     @ (if d then [] else [''Strict-Transport-Security'']) @ [''Permissions-Policy'']
     @ (if has_prefix path ''/api/'' then [''Cache-Control''] else [])"
proof -
  have "map canonical_key [''X-Request-Id'', ''Content-Security-Policy'', ''X-Frame-Options'',
      ''X-Content-Type-Options'', ''Referrer-Policy'', ''Strict-Transport-Security'', ''Permissions-Policy'',
      ''Cache-Control''] = [''X-Request-Id'', ''Content-Security-Policy'', ''X-Frame-Options'',
      ''X-Content-Type-Options'', ''Referrer-Policy'', ''Strict-Transport-Security'', ''Permissions-Policy'',
      ''Cache-Control'']"
    by code_simp
  then show ?thesis by (simp add: response_headers_def security_header_list_def)
qed

lemma handler_header_names: "map canonical_key handler_headers = handler_headers"
  by code_simp

interpretation sec: fixed_headers "response_headers d path rid"
proof
  have "map (\<lambda>(k, v). canonical_key k) (response_headers d path rid)
      = map canonical_key (map fst (response_headers d path rid))" by (simp add: case_prod_beta)
  then show "consistent (response_headers d path rid)"
    unfolding consistent_def by (simp only: response_names) (simp split: if_split)
  show "(''X-Content-Type-Options'', ''nosniff'') \<in> set (response_headers d path rid)"
    by (simp add: response_headers_def security_header_list_def)
  fix k assume k: "k \<in> set handler_headers"
  have "canonical_key k \<in> set (map canonical_key handler_headers)" using k by simp
  then have "canonical_key k \<in> set handler_headers" by (simp only: handler_header_names)
  moreover have "set handler_headers \<inter> set (map canonical_key (map fst (response_headers d path rid))) = {}"
    unfolding response_names handler_headers_def by (cases d; cases "has_prefix path ''/api/''"; simp)
  moreover have "canonical_key ` fst ` set (response_headers d path rid)
      = set (map canonical_key (map fst (response_headers d path rid)))" by (simp only: set_map)
  ultimately show "canonical_key k \<notin> canonical_key ` fst ` set (response_headers d path rid)"
    by blast
qed

end
