(* ===== verification/RouteProperties.thy ===== *)
theory RouteProperties
  imports Chain
begin

text \<open>
  Properties of \<open>Routes\<close>, the root handler: they hold of every request, whatever its method, path,
  headers and body, in every world between requests.
\<close>

section \<open>One request through the whole tree\<close>

lemma set_headers_other:
  "k' \<notin> canonical_key ` fst ` set kvs \<Longrightarrow> hdr (set_headers kvs w) k' = hdr w k'"
  by (induction kvs w rule: set_headers.induct) (auto simp: header_set_def)

lemma set_headers_lookup:
  "consistent kvs \<Longrightarrow> (k, v) \<in> set kvs \<Longrightarrow> hdr (set_headers kvs w) (canonical_key k) = Some [v]"
proof (induction kvs w rule: set_headers.induct)
  case (2 k' v' kvs w)
  have c: "consistent kvs" "canonical_key k' \<notin> canonical_key ` fst ` set kvs"
    using "2.prems"(1) by (auto simp: consistent_def case_prod_beta image_iff)
  show ?case
  proof (cases "(k, v) \<in> set kvs")
    case True
    with "2.IH" c show ?thesis by simp
  next
    case False
    then have "k = k'" "v = v'" using "2.prems"(2) by auto
    with set_headers_other [OF c(2), of "set_header k' v' w"] show ?thesis by (simp add: header_set_def)
  qed
qed simp

lemma set_headers_fields [simp]:
  "wrote (set_headers kvs w) = wrote w" "recorders (set_headers kvs w) = recorders w"
  "logs (set_headers kvs w) = logs w" "web.more (set_headers kvs w) = web.more w"
  "chunks (set_headers kvs w) = chunks w"
  by (induction kvs w rule: set_headers.induct) simp_all

lemma set_headers_same:
  "same_shared w (set_headers kvs w') = same_shared w w'" "database (set_headers kvs w') = database w'"
  by (induction kvs w' rule: set_headers.induct) (simp_all add: same_shared_def)

text \<open>The access log line of a request.\<close>

definition access_line :: "'f env \<Rightarrow> request \<Rightarrow> nat \<Rightarrow> log_line" where
  "access_line E r status =
     \<lparr>log_level = (if Path r = ''/healthz'' \<or> Path r = ''/readyz'' then Debug else Info),
      log_msg = ''request'', log_attrs = access_attrs E r status\<rparr>"

lemma access_line_head:
  "same_head r r' \<Longrightarrow> access_line E r' st = access_line E r st"
  by (simp add: access_line_def access_attrs_def same_head_def)

text \<open>The outer chain: what the root mux meets, and what is done with its result.\<close>

definition with_id :: "string \<Rightarrow> request \<Rightarrow> request" where
  "with_id buf r = r\<lparr>Ctx := WithRequestID (Ctx r) (hex_encode buf)\<rparr>"

definition prepared :: "('d, 'f) app \<Rightarrow> string \<Rightarrow> request \<Rightarrow> ('d, 'f) world \<Rightarrow> ('d, 'f) world" where
  "prepared A buf r w = set_headers (security_header_list (app_disableHSTS A) (Path r))
     (push_recorder (set_header ''X-Request-Id'' (hex_encode buf) w))"

lemma prepared_fields [simp]:
  "wrote (prepared A buf r w) = wrote w" "recorders (prepared A buf r w) = 200 # recorders w"
  "logs (prepared A buf r w) = logs w" "web.more (prepared A buf r w) = web.more w"
  "chunks (prepared A buf r w) = chunks w"
  by (simp_all add: prepared_def)

lemma prepared_shared: "same_shared w (prepared A buf r w)" "database (prepared A buf r w) = database w"
  by (simp_all add: prepared_def set_headers_same) (simp add: same_shared_def)

lemma with_id_fields [simp]:
  "Method (with_id buf r) = Method r" "Path (with_id buf r) = Path r" "RawPath (with_id buf r) = RawPath r"
  "RawQuery (with_id buf r) = RawQuery r" "Header (with_id buf r) = Header r"
  by (simp_all add: with_id_def)

lemma prepared_headers:
  "has_headers (response_headers (app_disableHSTS A) (Path r) (hex_encode buf)) (hdr (prepared A buf r w))"
  unfolding has_headers_def response_headers_def
proof clarify
  let ?rid = "hex_encode buf" and ?sec = "security_header_list (app_disableHSTS A) (Path r)"
  fix k v assume kv: "(k, v) \<in> set ((''X-Request-Id'', ?rid) # ?sec)"
  have c: "consistent ?sec" "canonical_key ''X-Request-Id'' \<notin> canonical_key ` fst ` set ?sec"
    using sec.consistent [of "app_disableHSTS A" "Path r" ?rid]
    by (auto simp: consistent_def response_headers_def case_prod_beta image_iff)
  show "hdr (prepared A buf r w) (canonical_key k) = Some [v]"
  proof (cases "(k, v) \<in> set ?sec")
    case True
    then show ?thesis unfolding prepared_def by (rule set_headers_lookup [OF c(1)])
  next
    case False
    then have "k = ''X-Request-Id''" "v = ?rid" using kv by auto
    with set_headers_other [OF c(2), of "push_recorder (set_header ''X-Request-Id'' ?rid w)"]
    show ?thesis by (simp add: header_set_def prepared_def)
  qed
qed

lemma Routes_outer:
  assumes "env_rand E = Some buf"
    and "mux_serve (app_mux A) (root_mux A E) (with_id buf r) (prepared A buf r w) = Done r' w'"
  shows "\<exists>lv. Routes A E r w = Done r (log_to lv ''request'' (access_attrs E r' (recorded_status w')) (pop_recorder w'))
    \<and> lv = (if Path r' = ''/healthz'' \<or> Path r' = ''/readyz'' then Debug else Info)"
  using assms
  by (simp add: Routes_def requestID_def logging_def securityHeaders_def serve_with_ctx_def prepared_def with_id_def Let_def)

lemma routes_run:
  assumes A: "app_ok L p A" and E: "env_ok E" and w: "world_ok (app_metrics A) (env_rl_now E) w"
    and fresh: "wrote w = None" "recorders w = []" and rand: "env_rand E = Some buf"
  obtains w' where "Routes A E r w = Done r w'" "world_ok (app_metrics A) (env_rl_now E) w'"
    "keeps_headers (response_headers (app_disableHSTS A) (Path r) (hex_encode buf)) w'" "recorders w' = []"
    "lines_with ''request'' w' = lines_with ''request'' w @ [access_line E (with_id buf r) (status_of w')]"
    "cfg_step (app_driver A) V (may_change L p E r w) w w'"
proof -
  let ?r = "with_id buf r" and ?w2 = "prepared A buf r w"
  let ?hs = "response_headers (app_disableHSTS A) (Path r) (hex_encode buf)"
  have w2: "wrote ?w2 = None" "world_ok (app_metrics A) (env_rl_now E) ?w2"
    using fresh world_ok_shared [OF w prepared_shared(1)] by simp_all
  have hs: "keeps_headers ?hs ?w2" using w2(1) prepared_headers by (simp add: keeps_headers_def sent_header_def)
  have rec: "recorders_ok ?w2" "recorders ?w2 = [200]" using fresh by (simp_all add: recorders_ok_def status_of_def)
  obtain r3 w3 where h3: "mux_serve (app_mux A) (root_mux A E) ?r ?w2 = Done r3 w3" "same_head ?r r3"
      "world_ok (app_metrics A) (env_rl_now E) w3" "keeps ?hs ?w2 w3"
      "cfg_step (app_driver A) V (may_change L p E ?r ?w2) ?w2 w3"
    by (rule sec.servesD [OF sec.root_serves [OF A E] TrueI w2(2,1)])
  let ?l = "access_line E ?r (status_of w3)"
  let ?w4 = "log_to (log_level ?l) ''request'' (log_attrs ?l) (pop_recorder w3)"
  have "recorders_ok w3" "length (recorders w3) = 1" using h3(4) rec by (auto simp: keeps_def)
  then have st: "recorded_status w3 = status_of w3" "recorders (pop_recorder w3) = []"
    by (cases "recorders w3"; simp add: recorders_ok_def recorded_status_def)+
  have "Routes A E r w = Done r ?w4"
    using Routes_outer [OF rand h3(1)] st(1) access_line_head [OF h3(2), of E "status_of w3"]
    by (auto simp: access_line_def)
  moreover have "world_ok (app_metrics A) (env_rl_now E) ?w4" using h3(3) by (simp add: world_ok_def)
  moreover have "keeps_headers ?hs ?w4"
    by (rule keeps_headers_same [of _ w3]) (use h3(4) hs in \<open>simp_all add: keeps_def\<close>)
  moreover have "recorders ?w4 = []" using st(2) by simp
  moreover have s4: "status_of ?w4 = status_of w3" by (simp add: status_of_def)
  moreover have "lines_with ''request'' ?w4 = lines_with ''request'' w @ [?l]"
    using h3(4) by (simp add: keeps_def lines_with_def access_line_def)
  moreover have "cfg_step (app_driver A) V (may_change L p E r w) w ?w4"
  proof -
    have "may_change L p E ?r ?w2 = may_change L p E r w"
      by (rule may_change_head) (use prepared_shared [where A = A and buf = buf and r = r and w = w] in \<open>simp_all add: same_shared_def\<close>)
    then have "cfg_step (app_driver A) V (may_change L p E r w) w w3"
      using cfg_step_before [OF prepared_shared(2) h3(5)] by simp
    then show ?thesis by (rule cfg_step_after) simp
  qed
  ultimately show thesis by (intro that [of ?w4]) simp_all
qed

section \<open>The server between requests\<close>

text \<open>The next request meets the shared state as the last one left it, and a response of its own.\<close>

definition next_request :: "'a web_scheme \<Rightarrow> 'a web_scheme" where
  "next_request w = w\<lparr>hdr := (\<lambda>_. None), wrote := None, chunks := [], recorders := []\<rparr>"

fun serve_log :: "('d, 'f) app \<Rightarrow> ('f env \<times> request) list \<Rightarrow> ('d, 'f) world \<Rightarrow> ('d, 'f) world outcome" where
  "serve_log A [] w = Return w"
| "serve_log A ((E, r) # reqs) w =
     (case Routes A E r (next_request w) of
        Done r' w' \<Rightarrow> serve_log A reqs w'
      | Panicked e r' w' \<Rightarrow> Panic e)"

lemma next_request_fields [simp]:
  "wrote (next_request w) = None" "recorders (next_request w) = []" "logs (next_request w) = logs w"
  "web.more (next_request w) = web.more w" "hdr (next_request w) = (\<lambda>_. None)" "chunks (next_request w) = []"
  by (simp_all add: next_request_def)

lemma next_request_state [simp]:
  "limiter (next_request w) = limiter w" "key_cache (next_request w) = key_cache w"
  "database (next_request w) = database w" "metrics (next_request w) = metrics w"
  by (simp_all add: next_request_def)

lemma world_ok_later: "world_ok m t w \<Longrightarrow> t \<le> t' \<Longrightarrow> world_ok m t' (next_request w)"
  by (auto simp: world_ok_def intro: rl_ok_mono)

text \<open>Times that do not run backwards.\<close>

fun in_order :: "gotime \<Rightarrow> ('f env \<times> request) list \<Rightarrow> bool" where
  "in_order t [] \<longleftrightarrow> True"
| "in_order t ((E, r) # reqs) \<longleftrightarrow> t \<le> env_rl_now E \<and> in_order (env_rl_now E) reqs"

text \<open>The level of a request's line in the access log.\<close>

definition request_level :: "'f env \<times> request \<Rightarrow> level" where
  "request_level = (\<lambda>(E, r). if Path r = ''/healthz'' \<or> Path r = ''/readyz'' then Debug else Info)"

lemma serve_log_ok:
  assumes A: "app_ok L p A"
  shows "in_order t reqs \<Longrightarrow> \<forall>(E, r) \<in> set reqs. env_ok E \<and> env_rand E \<noteq> None \<Longrightarrow> world_ok (app_metrics A) t w \<Longrightarrow>
    \<exists>t' w'. serve_log A reqs w = Return w' \<and> world_ok (app_metrics A) t' w'
      \<and> map log_level (lines_with ''request'' w') = map log_level (lines_with ''request'' w) @ map request_level reqs"
proof (induction reqs arbitrary: t w)
  case (Cons x reqs)
  obtain E r where x: "x = (E, r)" by fastforce
  have E: "env_ok E" "t \<le> env_rl_now E" using Cons.prems x by auto
  obtain buf where buf: "env_rand E = Some buf" using Cons.prems x by auto
  obtain w1 where w1: "Routes A E r (next_request w) = Done r w1" "world_ok (app_metrics A) (env_rl_now E) w1"
      "lines_with ''request'' w1 = lines_with ''request'' (next_request w)
         @ [access_line E (with_id buf r) (status_of w1)]"
    by (rule routes_run [OF A E(1) world_ok_later [OF Cons.prems(3) E(2)] _ _ buf]) auto
  have "map log_level (lines_with ''request'' w1) = map log_level (lines_with ''request'' w) @ [request_level x]"
    unfolding w1(3) by (simp add: lines_with_def access_line_def request_level_def x)
  with Cons.IH [OF _ _ w1(2)] Cons.prems x w1(1) show ?case by auto
qed auto

lemma initial_world_ok:
  assumes "initial_world F (newJWKSClient url hc) d = Return (m, w)"
  shows "world_ok m 0 w" "lines_with ''request'' w = []"
proof -
  have "rl_ok 0 (newRateLimiter rateLimitRate rateLimitBurst)"
    by (rule rl_ok_new) (simp_all add: limiter_consts duration_defs quot64_def wrap64_def)
  moreover have "\<exists>reg. newHTTPMetrics F = Return (m, reg) \<and> metrics w = reg"
      "limiter w = newRateLimiter rateLimitRate rateLimitBurst" "key_cache w = newJWKSClient url hc" "logs w = []"
    using assms by (auto simp: initial_world_def map_outcome_Return)
  ultimately show "world_ok m 0 w" "lines_with ''request'' w = []"
    using http_metrics_new by (auto simp: world_ok_def lines_with_def)
qed

text \<open>C2: The server answers every request and stays sound: from what \<open>Routes\<close> allocates and the
  provider's new client, any sequence of requests at non-decreasing times, with whatever methods,
  paths, headers, bodies and driver failures, ends with a response each and never with a panic; each
  writes exactly one access log line; in the end the limiter, the key cache and the metrics satisfy
  their invariants.\<close>

theorem server_never_panics:
  assumes "app_ok L p A" and "initial_world (app_floats A) (newJWKSClient url hc) d = Return (app_metrics A, w)"
    and "in_order 0 reqs" and "\<forall>(E, r) \<in> set reqs. env_ok E \<and> env_rand E \<noteq> None"
  shows "\<exists>t w'. serve_log A reqs w = Return w' \<and> client_ok (key_cache w') \<and> rl_ok t (limiter w')
    \<and> http_metrics_ok (app_metrics A) (metrics w') \<and> length (lines_with ''request'' w') = length reqs"
proof -
  obtain t w' where w': "serve_log A reqs w = Return w'" "world_ok (app_metrics A) t w'"
      "map log_level (lines_with ''request'' w') = map log_level (lines_with ''request'' w) @ map request_level reqs"
    using serve_log_ok [OF assms(1,3,4) initial_world_ok(1) [OF assms(2)]] by blast
  then have "length (lines_with ''request'' w') = length reqs"
    using initial_world_ok(2) [OF assms(2)] by (metis append_Nil length_map list.simps(8))
  with w' show ?thesis by (auto simp: world_ok_def)
qed

section \<open>Who may change the configuration\<close>

text \<open>C1: The Runtime Configuration changes only by an admitted admin: whatever request arrives, unless it
  is a PUT that carries a header no cross-site form can set, does not come from another site by the
  browser's account, authenticates by the provider as a principal with the role admin, and finds a
  token in that principal's bucket, every entry is afterwards what it was; and if it is, at most one
  entry has changed, under a valid key.\<close>

theorem config_changed_by_admins_only:
  assumes A: "app_ok L p A" and E: "env_ok E" and w: "world_ok (app_metrics A) (env_rl_now E) w"
    and fresh: "wrote w = None" "recorders w = []" and rand: "env_rand E \<noteq> None"
    and D: "driver_ok (app_driver A) V" "tx V (database w) = None"
  shows "\<exists>w'. Routes A E r w = Done r w' \<and> tx V (database w') = None \<and>
    (view V w' \<noteq> view V w \<longrightarrow>
       Method r = ''PUT'' \<and>
       (header_get (Header r) ''X-Requested-With'' = ''fetch'' \<or> header_get (Header r) ''HX-Request'' = ''true'') \<and>
       header_get (Header r) ''Sec-Fetch-Site'' \<in> {'''', ''same-origin'', ''same-site'', ''none''} \<and>
       (\<exists>q c rl. Authenticate L p (env_auth E) r (key_cache w) = Return (Inr q, c) \<and> HasRole q ''admin'' \<and>
          allow (env_rl_order E) (env_rl_now E) (Subject q) (limiter w) = Return (True, rl)) \<and>
       (\<exists>k v. ValidConfigKey k \<and> view V w' = (view V w)(k \<mapsto> v)))"
proof -
  obtain buf where buf: "env_rand E = Some buf" using rand by auto
  obtain w' where w': "Routes A E r w = Done r w'"
      "cfg_step (app_driver A) V (may_change L p E r w) w w'"
    by (rule routes_run [OF A E w fresh buf]) blast
  have c: "tx V (database w') = None" "view V w' \<noteq> view V w \<Longrightarrow> may_change L p E r w
      \<and> (\<exists>k v. ValidConfigKey k \<and> view V w' = (view V w)(k \<mapsto> v))"
    using w'(2) D unfolding cfg_step_def by blast+
  then show ?thesis
    using w'(1) by (auto simp: may_change_def authorised_def admitted_def csrf_passes_def is_read_method_def)
qed

section \<open>What every response carries\<close>

text \<open>C14: Every response that is sent for a request (given random bytes for its id) carries the id and the
  strict headers with their values, whoever answered it: a handler, a guard, the mux itself with a
  redirect, 404 or 405, or the file server; no handler overrides one of them.\<close>

theorem response_headers_always:
  assumes A: "app_ok L p A" and E: "env_ok E" and w: "world_ok (app_metrics A) (env_rl_now E) w"
    and fresh: "wrote w = None" "recorders w = []" and rand: "env_rand E = Some buf"
    and kv: "(k, v) \<in> set ((''X-Request-Id'', hex_encode buf) # security_header_list (app_disableHSTS A) (Path r))"
  shows "\<exists>w'. Routes A E r w = Done r w' \<and> header_get (sent_header w') k = v"
proof -
  obtain w' where w': "Routes A E r w = Done r w'"
      "keeps_headers (response_headers (app_disableHSTS A) (Path r) (hex_encode buf)) w'"
    by (rule routes_run [OF A E w fresh rand]) blast
  with kv has_headers_get [of _ "sent_header w'" k v] show ?thesis
    by (auto simp: keeps_headers_def response_headers_def)
qed

text \<open>C22: The access log tells the truth: each request adds one line, at level DEBUG for the probes, with
  its method, path, id and the status that was sent, even when it was written behind two recorders.
  A principal found by the authentication never is in it (the line is written for the request as the
  logger saw it, and the principal is in the context of an inner copy).\<close>

theorem access_log_truthful:
  assumes A: "app_ok L p A" and E: "env_ok E" and w: "world_ok (app_metrics A) (env_rl_now E) w"
    and fresh: "wrote w = None" "recorders w = []" and rand: "env_rand E = Some buf"
    and anonymous: "PrincipalFromContext (Ctx r) = None"
  shows "\<exists>w'. Routes A E r w = Done r w' \<and> lines_with ''request'' w' = lines_with ''request'' w @
    [\<lparr>log_level = (if Path r = ''/healthz'' \<or> Path r = ''/readyz'' then Debug else Info), log_msg = ''request'',
      log_attrs = [(''method'', Method r), (''path'', Path r), (''status'', itoa_digits (status_of w')),
        (''duration_ms'', itoa_digits (env_duration_ms E)), (''request_id'', hex_encode buf)]\<rparr>]"
proof -
  obtain w' where "Routes A E r w = Done r w'" "lines_with ''request'' w' = lines_with ''request'' w
       @ [access_line E (with_id buf r) (status_of w')]"
    by (rule routes_run [OF A E w fresh rand]) blast
  then show ?thesis using anonymous by (auto simp: access_line_def access_attrs_def with_id_def)
qed

text \<open>C38: The route label carries no route: after any sequence of requests since the start, in every series
  of the request counter and of the latency histogram it is the pattern of the whole authenticated
  subtree, never the one that matched inside it and never the \<open>-\<close> of a request rejected before.\<close>

theorem route_label_constant:
  assumes "app_ok L p A" and "initial_world (app_floats A) (newJWKSClient url hc) d = Return (app_metrics A, w)"
    and "in_order 0 reqs" and "\<forall>(E, r) \<in> set reqs. env_ok E \<and> env_rand E \<noteq> None"
  shows "\<exists>w'. serve_log A reqs w = Return w' \<and>
    (\<forall>i \<in> {hm_requests (app_metrics A), hm_duration (app_metrics A)}.
       \<forall>(k, s) \<in> set (f_series (families (metrics w') ! i)). s_labels s ! 1 = ''/'')"
proof -
  obtain t w' where "serve_log A reqs w = Return w'" "world_ok (app_metrics A) t w'"
    using serve_log_ok [OF assms(1,3,4) initial_world_ok(1) [OF assms(2)]] by blast
  then show ?thesis by (auto simp: world_ok_def http_metrics_ok_def fits_def)
qed

section \<open>Protected paths\<close>

text \<open>A request that none of the unauthenticated routes can match: they differ in the first segment.\<close>

definition protected :: "request \<Rightarrow> bool" where
  "protected r \<longleftrightarrow> fst (firstSegment (RawPath r)) \<notin> {''healthz'', ''readyz'', ''metrics'', ''static''}"

lemma below_nil:
  assumes "\<And>h t q. (h # t, q) \<in> set n \<Longrightarrow> h \<noteq> g \<and> (\<forall>a b. \<not> (g = Wild a \<and> h = Wild b))"
  shows "below g n = []"
  using assms
proof (induction n)
  case (Cons x n)
  obtain segs q where x: "x = (segs, q)" by fastforce
  have b: "below g n = []"
  proof (rule Cons.IH)
    fix h t q assume "(h # t, q) \<in> set n"
    then show "h \<noteq> g \<and> (\<forall>a b. \<not> (g = Wild a \<and> h = Wild b))" using Cons.prems [of h t q] by simp
  qed
  show ?case
  proof (cases segs)
    case (Cons h t)
    then have "h \<noteq> g \<and> (\<forall>a b. \<not> (g = Wild a \<and> h = Wild b))" using Cons.prems [of h t q] x by simp
    then show ?thesis using b x Cons by (cases g; cases h) auto
  qed (use b x in simp)
qed simp

lemma match_only_rest:
  assumes n: "\<And>segs q. (segs, q) \<in> set n \<Longrightarrow> segs = [Rest ''''] \<or> (\<exists>s t. segs = Lit s # t \<and> s \<noteq> fst (firstSegment path))"
    and m: "match_path n path ms = Some (p, vs)"
  shows "([Rest ''''], p) \<in> set n"
proof -
  let ?seg = "fst (firstSegment path)"
  have b: "below (Lit ?seg) n = []" "below (Wild '''') n = []"
    by (rule below_nil, use n in fastforce)+
  have e: "match_path [] q vs' = None" for q vs' by (simp add: match_path.simps)
  have l: "leaf n = None" using leaf_in [of n] n by (cases "leaf n") fastforce+
  have "\<exists>name. multi n = Some (name, p)"
    using m l by (subst (asm) match_path.simps) (auto simp: b e split: if_splits)
  then obtain name where "([Rest name], p) \<in> set n" using multi_in by blast
  with n show ?thesis by fastforce
qed

lemma root_match:
  assumes "protected r" and "match_method (root_mux A E) m (RawPath r) = Some (p, ms)"
  shows "p = mk_pattern ''/'' (authed_chain A E)"
proof -
  have n: "segs = [Rest ''''] \<or> (\<exists>s t. segs = Lit s # t \<and> s \<noteq> fst (firstSegment (RawPath r)))"
    if "(segs, q) \<in> set (root_node (root_mux A E) m')" for segs q m'
    using that assms(1) by (auto simp: root_node_def root_mux_def protected_def split: if_splits)
  obtain m' where "match_path (root_node (root_mux A E) m') (RawPath r) [] = Some (p, ms)"
    using assms(2) by (auto simp: match_method_def split: option.splits if_splits)
  from match_only_rest [OF _ this] n have "([Rest ''''], p) \<in> set (root_node (root_mux A E) m')" by blast
  then have "p \<in> set (root_mux A E)" "pat_segs p = [Rest '''']" by (auto simp: root_node_def)
  then show ?thesis by (auto simp: root_mux_def)
qed

text \<open>The bodies of refusals: problem details without a detail, and the fixed texts of the mux.\<close>

definition refusal_body :: "mux_env \<Rightarrow> request \<Rightarrow> chunk \<Rightarrow> bool" where
  "refusal_body U r ch \<longleftrightarrow>
     (\<exists>st \<in> {401, 403}. ch = JsonBody (problem_json st (StatusText st) '''')) \<or>
     ch \<in> {TextBody (StatusText 405 @ [CHR 0x0A]), TextBody (''404 page not found'' @ [CHR 0x0A])} \<or>
     (\<exists>path. ch = TextBody (url_string U path (RawQuery r)))"

lemma own_answer_chunks:
  assumes "own_answer U r w w'"
  shows "\<exists>cs. chunks w' = chunks w @ cs \<and> (\<forall>ch \<in> set cs. refusal_body U r ch)"
  using assms unfolding own_answer_def
proof (elim disjE exE)
  fix path assume w': "w' = http_redirect U path r w"
  let ?t = "TextBody (url_string U path (RawQuery r))"
  have "chunks w' = chunks w \<or> chunks w' = chunks w @ [?t]"
    unfolding w' http_redirect_def Let_def by (simp split: if_split)
  then show ?thesis
  proof
    assume "chunks w' = chunks w @ [?t]"
    moreover have "refusal_body U r ?t" by (auto simp: refusal_body_def)
    ultimately show ?thesis by (intro exI [of _ "[?t]"]) simp
  qed (intro exI [of _ "[]"], simp)
next
  fix ms assume "w' = http_error (StatusText 405) 405 (set_header ''Allow'' ms w)"
  then show ?thesis
    by (intro exI [of _ "[TextBody (StatusText 405 @ [CHR 0x0A])]"]) (simp add: http_error_def refusal_body_def)
next
  assume "w' = http_error ''404 page not found'' 404 w"
  then show ?thesis
    by (intro exI [of _ "[TextBody (''404 page not found'' @ [CHR 0x0A])]"]) (simp add: http_error_def refusal_body_def)
qed (intro exI [of _ "[]"], simp)

lemma chain_refused:
  assumes A: "app_ok L p A" and E: "env_ok E" and w: "world_ok (app_metrics A) (env_rl_now E) w"
    and fresh: "wrote w = None" and pat: "Pattern r = ''/''"
    and e: "Authenticate L p (env_auth E) r (key_cache w) = Return (Inl e, c)"
  obtains r' w' where "authed_chain A E r w = Done r' w'" "status_of w' \<in> {401, 403}"
    "\<exists>st \<in> {401, 403}. chunks w' = chunks w @ [JsonBody (problem_json st (StatusText st) '''')]"
    "database w' = database w" "limiter w' = limiter w"
proof -
  let ?w1 = "\<lambda>reg. push_recorder (w\<lparr>metrics := reg\<rparr>)"
  let ?nxt = "maxBody (csrf (Middleware (app_auth A (env_auth E)) (authed_handler A E)))"
  let ?Q = "\<lambda>reg r2 w2. (\<exists>st \<in> {401, 403}. \<exists>h. wrote w2 = Some (st, h) \<and>
      chunks w2 = chunks w @ [JsonBody (problem_json st (StatusText st) '''')])
    \<and> database w2 = database w \<and> limiter w2 = limiter w"
  have m: "http_metrics_ok (app_metrics A) (metrics w)" using w by (simp add: world_ok_def)
  have auth: "app_auth A = authenticate_world L p" using A by (simp add: app_ok_def)
  obtain reg reg' r2 w2 where q: "?Q reg r2 w2"
      "metricsMiddleware (app_floats A) (app_metrics A) E ?nxt r w = Done r2 ((pop_recorder w2)\<lparr>metrics := reg'\<rparr>)"
  proof (rule metrics_run [OF m, of ?nxt r ?Q "app_floats A" E])
    fix reg :: "'b registry" assume reg: "http_metrics_ok (app_metrics A) reg"
    let ?r = "if is_read_method (Method r) then r else r\<lparr>Body := MaxBytesReader maxRequestBodyBytes (Body r)\<rparr>"
    define r1 where "r1 = ?r"
    have r1: "Header r1 = Header r" "Pattern r1 = ''/''" "?nxt r (?w1 reg)
        = csrf (Middleware (authenticate_world L p (env_auth E)) (authed_handler A E)) r1 (?w1 reg)"
      using pat by (simp_all add: r1_def maxBody_def auth)
    have e': "authenticate_world L p (env_auth E) r1 (?w1 reg) = Return (Inl e, (?w1 reg)\<lparr>key_cache := c\<rparr>)"
      using e Authenticate_head [OF r1(1)] by (simp add: authenticate_world_def)
    have "?nxt r (?w1 reg) = Done r1 (if csrf_passes r1 then auth_refusal e r1 ((?w1 reg)\<lparr>key_cache := c\<rparr>)
        else WriteProblem 403 (StatusText 403) '''' (?w1 reg))"
      unfolding r1(3) using e' by (simp add: csrf.pass csrf.stop Middleware_def)
    then show "\<exists>r2 w2. ?nxt r (?w1 reg) = Done r2 w2 \<and> Pattern r2 = ''/'' \<and> http_metrics_ok (app_metrics A) (metrics w2)
        \<and> ?Q reg r2 w2"
      using reg r1(2) fresh by (simp add: auth_refusal_def)
  qed
  let ?w' = "(pop_recorder w2)\<lparr>metrics := reg'\<rparr>"
  have "status_of ?w' \<in> {401, 403}" using q(1) by (auto simp: status_of_def)
  with q show thesis by (intro that [of r2 ?w']) (auto simp: authed_chain_def)
qed

text \<open>C7: Nobody without a principal gets past the guards: for a path outside the four unauthenticated
  ones (by its first segment, so whatever the spelling of the rest, the method or a CONNECT), when the
  provider rejects the request's token, the status is 401 or 403 (or what the mux itself answers), the
  body is a problem without detail or a fixed text of the mux, and neither the configuration nor a
  rate limit is touched.\<close>

theorem protected_needs_principal:
  assumes A: "app_ok L p A" and E: "env_ok E" and w: "world_ok (app_metrics A) (env_rl_now E) w"
    and fresh: "wrote w = None" "recorders w = []" "chunks w = []" and rand: "env_rand E \<noteq> None"
    and priv: "protected r" and e: "Authenticate L p (env_auth E) r (key_cache w) = Return (Inl e, c)"
  shows "\<exists>w'. Routes A E r w = Done r w' \<and> status_of w' \<in> {400, 401, 403, 404, 405, redirect_status (app_mux A)}
    \<and> (\<forall>ch \<in> set (chunks w'). refusal_body (app_mux A) r ch)
    \<and> database w' = database w \<and> limiter w' = limiter w"
proof -
  obtain buf where buf: "env_rand E = Some buf" using rand by auto
  let ?r = "with_id buf r" and ?w = "prepared A buf r w"
  have pre: "wrote ?w = None" "chunks ?w = []" "database ?w = database w" "limiter ?w = limiter w"
      "world_ok (app_metrics A) (env_rl_now E) ?w" "key_cache ?w = key_cache w"
    using fresh prepared_shared [where A = A and buf = buf and r = r and w = w] world_ok_shared [OF w prepared_shared(1)]
    by (simp_all add: same_shared_def)
  have "\<exists>r' w'. mux_serve (app_mux A) (root_mux A E) ?r ?w = Done r' w'
      \<and> status_of w' \<in> {400, 401, 403, 404, 405, redirect_status (app_mux A)}
      \<and> (\<forall>ch \<in> set (chunks w'). refusal_body (app_mux A) r ch) \<and> database w' = database w \<and> limiter w' = limiter w"
  proof (cases rule: mux_serve_cases [of "root_mux A E" ?r "app_mux A" ?w])
    case (found q ms vals)
    have q: "q = mk_pattern ''/'' (authed_chain A E)"
      by (rule root_match [OF priv]) (use found(3) in simp)
    let ?r2 = "?r\<lparr>Pattern := ''/'', PathValues := vals\<rparr>"
    have e2: "Authenticate L p (env_auth E) ?r2 (key_cache ?w) = Return (Inl e, c)"
      using e Authenticate_head [of ?r2 r] pre(6) by simp
    have pat: "Pattern ?r2 = ''/''" by simp
    obtain r' w' where h: "authed_chain A E ?r2 ?w = Done r' w'" "status_of w' \<in> {401, 403}"
      "\<exists>st \<in> {401, 403}. chunks w' = chunks ?w @ [JsonBody (problem_json st (StatusText st) '''')]"
      "database w' = database ?w" "limiter w' = limiter ?w"
      by (rule chain_refused [OF A E pre(5,1) pat e2])
    with found(4) pre show ?thesis by (auto simp: q refusal_body_def)
  next
    case (own r' w')
    have "same_shared ?w w'" "database w' = database ?w"
      using own_answer_fields(2) [OF own(2) pre(1)] by (cases ?w; cases w'; simp add: same_shared_def)+
    with own_answer_fields(1) [OF own(2) pre(1)] own_answer_chunks [OF own(2)] own(1) pre show ?thesis
      by (auto simp: same_shared_def refusal_body_def)
  qed
  then obtain r' w' where h: "mux_serve (app_mux A) (root_mux A E) ?r ?w = Done r' w'"
      "status_of w' \<in> {400, 401, 403, 404, 405, redirect_status (app_mux A)}"
      "\<forall>ch \<in> set (chunks w'). refusal_body (app_mux A) r ch" "database w' = database w" "limiter w' = limiter w"
    by blast
  obtain lv where "Routes A E r w = Done r (log_to lv ''request'' (access_attrs E r' (recorded_status w')) (pop_recorder w'))"
    using Routes_outer [OF buf h(1)] by blast
  with h show ?thesis by (auto simp: status_of_def)
qed

section \<open>A concrete server\<close>

text \<open>
  For the witnesses: the driver in memory, the Cloudflare provider, a file server without files and
  the rationals for floats. Its configuration is the one a migrated database has.
\<close>

definition no_files :: "('d, 'f) world handler" where
  "no_files r w = Done r (http_error ''404 page not found'' 404 w)"

lemma no_files_ok: "static_ok no_files"
  unfolding static_ok_def no_files_def
proof (intro allI impI, elim conjE)
  fix hs and r :: request and w :: "('a, 'b) world"
  assume hs: "fixed_headers hs" and w: "wrote w = None"
  let ?w' = "http_error ''404 page not found'' 404 w"
  have "responds hs ''request'' w ?w'"
    using fixed_headers.acts_http_error [OF hs fixed_headers.acts_refl [OF hs] w]
    by (simp add: fixed_headers.acts_def [OF hs])
  moreover have "same_shared w ?w'" "database ?w' = database w"
    using http_error_fields(2) [of "''404 page not found''" 404 w]
    by (cases w; cases ?w'; simp add: same_shared_def)+
  ultimately show "\<exists>w'. Done r ?w' = Done r w' \<and> responds hs ''request'' w w' \<and> same_shared w w'
      \<and> database w' = database w" by blast
qed

definition no_codecs :: codecs where
  "no_codecs = \<lparr>json_stream = (\<lambda>_ _. JsonIncomplete), media_type = (\<lambda>s. (s, False)),
     parse_query = (\<lambda>_. ((\<lambda>_. None), False)), template = (\<lambda>_ _. ('''', None))\<rparr>"

definition sample_metrics :: httpMetricsSet where
  "sample_metrics = \<lparr>hm_requests = 0, hm_duration = 1, hm_active = 2\<rparr>"

definition sample_app :: "(mem, rat) app" where
  "sample_app = \<lparr>app_driver = mem_driver, app_model = storePageModel mem_driver,
     app_auth = authenticate_world sample_lib (fst cloudflare_provider), app_codecs = no_codecs,
     app_floats = rat_ops, app_metrics = sample_metrics, app_static = StaticHandler no_files,
     app_build = default_build, app_mux = \<lparr>redirect_status = 307, url_string = (\<lambda>path _. path)\<rparr>,
     app_disableHSTS = False\<rparr>"

lemma sample_app_ok: "app_ok sample_lib (fst cloudflare_provider) sample_app"
proof -
  have "NewProvider ''cloudflare-access'' sample_settings = Inr cloudflare_provider"
    by (simp add: NewProvider_def registry_lookup sample_settings_def sample_cloudflare)
  then have "registered (fst cloudflare_provider)"
    unfolding registered_def by (metis prod.collapse)
  then show ?thesis using no_files_ok by (auto simp: app_ok_def sample_app_def)
qed

definition sample_world :: "(mem, rat) world" where
  "sample_world = (case initial_world rat_ops (newJWKSClient '''' \<lparr>hc_timeout = 0\<rparr>) (config_mem []) of
     Return (m, w) \<Rightarrow> w | Panic e \<Rightarrow> undefined)"

lemma sample_initial:
  "initial_world rat_ops (newJWKSClient '''' \<lparr>hc_timeout = 0\<rparr>) (config_mem []) = Return (sample_metrics, sample_world)"
proof -
  have "\<exists>reg. newHTTPMetrics rat_ops = Return (sample_metrics, reg)"
    by (simp add: newHTTPMetrics_def CounterVec_def HistogramVec_def Gauge_def reg_add_def NewRegistry_def
        durationBuckets_def sample_metrics_def)
  then show ?thesis by (auto simp: initial_world_def sample_world_def)
qed

definition web_env :: "rat env" where
  "web_env = \<lparr>env_rand = Some ''0123456789abcdef'', env_auth = sample_env, env_rl_now = sample_now, env_rl_order = rev,
     env_duration_ms = 3, env_seconds = 1 / 100, env_series_order = rev, env_runtime = (4, 5)\<rparr>"

lemma web_env_ok: "env_ok web_env" "env_rand web_env = Some ''0123456789abcdef''" "0 \<le> env_rl_now web_env"
  by (simp_all add: env_ok_def web_env_def range_order_rev sample_now_def unix_epoch_def second_def)

definition web_request :: "string \<Rightarrow> string \<Rightarrow> string \<Rightarrow> request" where
  "web_request mthd pth token = (sample_request mthd pth token)
     \<lparr>Header := header_set ''X-Requested-With'' ''fetch'' (Header (sample_request mthd pth token))\<rparr>"

lemma sample_app_fields [simp]:
  "app_driver sample_app = mem_driver" "app_floats sample_app = rat_ops" "app_metrics sample_app = sample_metrics"
  "app_disableHSTS sample_app = False" "redirect_status (app_mux sample_app) = 307"
  by (simp_all add: sample_app_def)

lemma sample_world_fields [simp]:
  "wrote sample_world = None" "recorders sample_world = []" "chunks sample_world = []"
  "database sample_world = config_mem []"
proof -
  obtain reg where "\<lparr>hdr = (\<lambda>_. None), wrote = None, chunks = [], recorders = [], logs = [],
      limiter = newRateLimiter rateLimitRate rateLimitBurst, key_cache = newJWKSClient '''' \<lparr>hc_timeout = 0\<rparr>,
      database = config_mem [], metrics = reg\<rparr> = sample_world"
    using sample_initial by (auto simp: initial_world_def map_outcome_Return)
  note w = this [symmetric]
  show "wrote sample_world = None" "recorders sample_world = []" "chunks sample_world = []"
    "database sample_world = config_mem []" unfolding w by simp_all
qed

lemma sample_world_ok: "world_ok (app_metrics sample_app) (env_rl_now web_env) sample_world"
  using initial_world_ok(1) [OF sample_initial] web_env_ok(3)
  by (auto simp: world_ok_def intro: rl_ok_mono)

lemma sample_log_ok:
  "in_order 0 [(web_env, web_request ''PUT'' ''/api/config/motd'' ''good''), (web_env, web_request ''BREW'' ''//'' '''')]"
  "\<forall>(E, r) \<in> set [(web_env, web_request ''PUT'' ''/api/config/motd'' ''good''), (web_env, web_request ''BREW'' ''//'' '''')].
     env_ok E \<and> env_rand E \<noteq> None"
  using web_env_ok by simp_all

lemma sample_start: "initial_world (app_floats sample_app) (newJWKSClient '''' \<lparr>hc_timeout = 0\<rparr>) (config_mem [])
    = Return (app_metrics sample_app, sample_world)"
  using sample_initial by simp

theorem server_never_panics_witness:
  "\<exists>t w'. serve_log sample_app [(web_env, web_request ''PUT'' ''/api/config/motd'' ''good''),
      (web_env, web_request ''BREW'' ''//'' '''')] sample_world = Return w' \<and> client_ok (key_cache w') \<and> rl_ok t (limiter w')
    \<and> http_metrics_ok (app_metrics sample_app) (metrics w') \<and> length (lines_with ''request'' w') = 2"
  using server_never_panics [OF sample_app_ok sample_start sample_log_ok]
  by (simp add: numeral_2_eq_2 del: serve_log.simps)

theorem config_changed_by_admins_only_witness:
  "\<exists>w'. Routes sample_app web_env (web_request ''DELETE'' ''/api/config/motd'' ''good'') sample_world
      = Done (web_request ''DELETE'' ''/api/config/motd'' ''good'') w' \<and> view mem_view w' = view mem_view sample_world"
  using config_changed_by_admins_only [OF sample_app_ok web_env_ok(1) sample_world_ok, of mem_view
      "web_request ''DELETE'' ''/api/config/motd'' ''good''"] mem_driver_ok web_env_ok(2)
  by (auto simp: mem_view_def config_mem_def web_request_def sample_request_def)

theorem response_headers_always_witness:
  "\<exists>w'. Routes sample_app web_env (web_request ''GET'' ''/nowhere/..'' '''') sample_world
      = Done (web_request ''GET'' ''/nowhere/..'' '''') w' \<and> header_get (sent_header w') ''X-Frame-Options'' = ''DENY''"
  by (rule response_headers_always [OF sample_app_ok web_env_ok(1) sample_world_ok _ _ web_env_ok(2)])
    (simp_all add: security_header_list_def)

theorem access_log_truthful_witness:
  "\<exists>w' line. Routes sample_app web_env (web_request ''GET'' ''/readyz'' '''') sample_world
      = Done (web_request ''GET'' ''/readyz'' '''') w'
    \<and> lines_with ''request'' w' = lines_with ''request'' sample_world @ [line] \<and> log_level line = Debug"
proof -
  let ?r = "web_request ''GET'' ''/readyz'' ''''"
  have r: "PrincipalFromContext (Ctx ?r) = None" "Path ?r = ''/readyz''"
    by (simp_all add: web_request_def sample_request_def PrincipalFromContext_def)
  from access_log_truthful [OF sample_app_ok web_env_ok(1) sample_world_ok _ _ web_env_ok(2) r(1)] r(2)
  show ?thesis by auto
qed

theorem route_label_constant_witness:
  "\<exists>w'. serve_log sample_app [(web_env, web_request ''PUT'' ''/api/config/motd'' ''good''),
      (web_env, web_request ''BREW'' ''//'' '''')] sample_world = Return w' \<and>
    (\<forall>i \<in> {0, 1}. \<forall>(k, s) \<in> set (f_series (families (metrics w') ! i)). s_labels s ! 1 = ''/'')"
  using route_label_constant [OF sample_app_ok sample_start sample_log_ok]
  by (simp add: sample_metrics_def del: serve_log.simps)

theorem protected_needs_principal_witness:
  "\<exists>w'. Routes sample_app web_env (web_request ''PUT'' ''/api/config/motd'' '''') sample_world
      = Done (web_request ''PUT'' ''/api/config/motd'' '''') w' \<and> database w' = config_mem []"
proof -
  let ?r = "web_request ''PUT'' ''/api/config/motd'' ''''"
  have "cfg_Header (cfg (fst cloudflare_provider)) = ''Cf-Access-Jwt-Assertion''"
    unfolding cloudflare_provider_def by (simp add: NewCloudflare_def valid_team Let_def NewJWTProvider_def)
  moreover have "canonical_key ''Cf-Access-Jwt-Assertion'' \<noteq> canonical_key ''X-Requested-With''" by code_simp
  ultimately have h: "header_get (Header ?r) (cfg_Header (cfg (fst cloudflare_provider))) = ''''"
    by (simp add: web_request_def sample_request_def header_get_set)
  have "Authenticate sample_lib (fst cloudflare_provider) (env_auth web_env) ?r (key_cache sample_world)
      = Return (Inl (Reason ''no token in header''), key_cache sample_world)"
    using h by (simp add: Authenticate_def)
  moreover have "protected ?r"
    by (simp add: protected_def firstSegment_def web_request_def sample_request_def path_unescape_def)
  ultimately show ?thesis
    using protected_needs_principal [OF sample_app_ok web_env_ok(1) sample_world_ok, of ?r] web_env_ok(2) by auto
qed

end
