(* ===== verification/Config.thy ===== *)
theory Config
  imports Providers
begin

text \<open>
  internal/config/config.go: the configuration from environment variables, with what it uses of the
  standard library: \<open>time.ParseDuration\<close>, \<open>net.SplitHostPort\<close>, \<open>strings.ToLower\<close>. An unset variable
  reads as the empty string, so the environment is a function. Problems are values; their printed
  form quotes the same key and value.

  The one use of float64, scaling the digits after a decimal point to a unit, is an argument
  (\<open>frac f digits unit\<close>).
\<close>

section \<open>time.ParseDuration\<close>

text \<open>The accumulators are uint64: \<open>add64u\<close> wraps.\<close>

definition two63 :: nat where "two63 = 9223372036854775808"

definition add64u :: "nat \<Rightarrow> nat \<Rightarrow> nat" where "add64u x y = (x + y) mod (2 * two63)"

definition digit_value :: "char \<Rightarrow> nat" where "digit_value c = byte_of c - 48"

fun leadingInt :: "nat \<Rightarrow> string \<Rightarrow> (nat \<times> string) option" where
  "leadingInt x [] = Some (x, [])"
| "leadingInt x (c # cs) =
     (if \<not> is_digit c then Some (x, c # cs)
      else if x > two63 div 10 then None
      else if x * 10 + digit_value c > two63 then None
      else leadingInt (x * 10 + digit_value c) cs)"

text \<open>The digits of a fraction: their value, how many of them were used, and the rest of the text.\<close>

fun leadingFraction :: "nat \<Rightarrow> nat \<Rightarrow> bool \<Rightarrow> string \<Rightarrow> nat \<times> nat \<times> string" where
  "leadingFraction x n overflow [] = (x, n, [])"
| "leadingFraction x n overflow (c # cs) =
     (if \<not> is_digit c then (x, n, c # cs)
      else if overflow then leadingFraction x n True cs
      else if x > (two63 - 1) div 10 then leadingFraction x n True cs
      else if x * 10 + digit_value c > two63 then leadingFraction x n True cs
      else leadingFraction (x * 10 + digit_value c) (n + 1) False cs)"

definition unitMap :: "string \<rightharpoonup> nat" where
  "unitMap u =
     (if u = ''ns'' then Some 1
      else if u = ''us'' \<or> u = [CHR 0xC2, CHR 0xB5, CHR ''s''] \<or> u = [CHR 0xCE, CHR 0xBC, CHR ''s''] then Some 1000
      else if u = ''ms'' then Some 1000000 else if u = ''s'' then Some 1000000000
      else if u = ''m'' then Some 60000000000 else if u = ''h'' then Some 3600000000000 else None)"

datatype duration_error = InvalidDuration | MissingUnit | UnknownUnit string

definition is_unit_char :: "char \<Rightarrow> bool" where
  "is_unit_char c \<longleftrightarrow> \<not> (c = CHR ''.'' \<or> is_digit c)"

text \<open>One \<open>number unit\<close> pair: its value in nanoseconds and the rest.\<close>

definition duration_item :: "(nat \<Rightarrow> nat \<Rightarrow> nat \<Rightarrow> nat) \<Rightarrow> string \<Rightarrow> duration_error + (nat \<times> string)" where
  "duration_item frac s =
     (if s = '''' \<or> is_unit_char (hd s) then Inl InvalidDuration
      else case leadingInt 0 s of
        None \<Rightarrow> Inl InvalidDuration
      | Some (v, s1) \<Rightarrow>
          let pre = (length s1 \<noteq> length s);
              (f, n, s2) = (if s1 \<noteq> '''' \<and> hd s1 = CHR ''.'' then leadingFraction 0 0 False (tl s1) else (0, 0, s1));
              post = (s1 \<noteq> '''' \<and> hd s1 = CHR ''.'' \<and> length s2 \<noteq> length (tl s1))
          in if \<not> pre \<and> \<not> post then Inl InvalidDuration
          else
            let u = takeWhile is_unit_char s2; s3 = dropWhile is_unit_char s2 in
            if u = '''' then Inl MissingUnit
            else case unitMap u of
              None \<Rightarrow> Inl (UnknownUnit u)
            | Some unit \<Rightarrow>
                if v > two63 div unit then Inl InvalidDuration
                else
                  let v = v * unit; v' = (if f > 0 then add64u v (frac f n unit) else v) in
                  if f > 0 \<and> v' > two63 then Inl InvalidDuration else Inr (v', s3))"

lemma leadingInt_shorter: "leadingInt x s = Some (v, s') \<Longrightarrow> length s' \<le> length s"
  by (induction x s rule: leadingInt.induct) (auto split: if_splits)

lemma leadingFraction_shorter: "leadingFraction x n o' s = (f, k, s') \<Longrightarrow> length s' \<le> length s"
  by (induction x n o' s rule: leadingFraction.induct) (auto split: if_splits)

lemma takeWhile_shorter: "takeWhile P s \<noteq> [] \<Longrightarrow> length (dropWhile P s) < length s"
  by (cases s) (auto simp: le_imp_less_Suc length_dropWhile_le split: if_splits)

lemma duration_item_shorter:
  assumes "duration_item frac s = Inr (v, s')" shows "length s' < length s"
proof -
  obtain x s1 where s1: "leadingInt 0 s = Some (x, s1)"
    using assms by (auto simp: duration_item_def split: if_splits option.splits)
  obtain f n s2 where s2: "(if s1 \<noteq> '''' \<and> hd s1 = CHR ''.'' then leadingFraction 0 0 False (tl s1) else (0, 0, s1)) = (f, n, s2)"
    by (metis prod_cases3)
  have "length s2 \<le> length s1"
    using s2 leadingFraction_shorter [of 0 0 False "tl s1" f n s2] by (auto split: if_splits)
  moreover have "takeWhile is_unit_char s2 \<noteq> [] \<and> s' = dropWhile is_unit_char s2"
    using assms s1 s2 by (auto simp: duration_item_def Let_def split: if_splits option.splits)
  ultimately show ?thesis
    using leadingInt_shorter [OF s1] takeWhile_shorter [of is_unit_char s2] by auto
qed

function duration_loop :: "(nat \<Rightarrow> nat \<Rightarrow> nat \<Rightarrow> nat) \<Rightarrow> nat \<Rightarrow> string \<Rightarrow> duration_error + nat" where
  "duration_loop frac d s =
     (if s = '''' then Inr d
      else case duration_item frac s of
        Inl e \<Rightarrow> Inl e
      | Inr (v, s') \<Rightarrow> if add64u d v > two63 then Inl InvalidDuration else duration_loop frac (add64u d v) s')"
  by pat_completeness auto
termination by (relation "measure (\<lambda>(frac, d, s). length s)") (auto simp: duration_item_shorter)

declare duration_loop.simps [simp del]

definition ParseDuration :: "(nat \<Rightarrow> nat \<Rightarrow> nat \<Rightarrow> nat) \<Rightarrow> string \<Rightarrow> duration_error + duration" where
  "ParseDuration frac orig =
     (let signed = (orig \<noteq> '''' \<and> (hd orig = CHR ''-'' \<or> hd orig = CHR ''+''));
          neg = (orig \<noteq> '''' \<and> hd orig = CHR ''-'');
          s = (if signed then tl orig else orig)
      in if s = ''0'' then Inr 0
         else if s = '''' then Inl InvalidDuration
         else case duration_loop frac 0 s of
           Inl e \<Rightarrow> Inl e
         | Inr d \<Rightarrow>
             if neg then Inr (- int d)
             else if d > two63 - 1 then Inl InvalidDuration
             else Inr (int d))"

section \<open>net.SplitHostPort\<close>

definition first_index :: "char \<Rightarrow> string \<Rightarrow> nat option" where
  "first_index c s = (if c \<in> set s then Some (length (takeWhile (\<lambda>x. x \<noteq> c) s)) else None)"

definition last_index :: "char \<Rightarrow> string \<Rightarrow> nat option" where
  "last_index c s = (if c \<in> set s then Some (length s - 1 - length (takeWhile (\<lambda>x. x \<noteq> c) (rev s))) else None)"

datatype addr_error = MissingPort | TooManyColons | MissingBracket | UnexpectedOpen | UnexpectedClose

definition SplitHostPort :: "string \<Rightarrow> addr_error + (string \<times> string)" where
  "SplitHostPort hostport =
     (case last_index (CHR '':'') hostport of
        None \<Rightarrow> Inl MissingPort
      | Some i \<Rightarrow>
          let parsed =
            (if hd hostport = CHR ''['' then
               (case first_index (CHR '']'') hostport of
                  None \<Rightarrow> Inl MissingBracket
                | Some e \<Rightarrow>
                    if e + 1 = length hostport then Inl MissingPort
                    else if e + 1 = i then Inr (drop 1 (take e hostport), 1, e + 1)
                    else if hostport ! (e + 1) = CHR '':'' then Inl TooManyColons
                    else Inl MissingPort)
             else if CHR '':'' \<in> set (take i hostport) then Inl TooManyColons
             else Inr (take i hostport, 0, 0))
          in (case parsed of
                Inl e \<Rightarrow> Inl e
              | Inr (host, j, k) \<Rightarrow>
                  if CHR ''['' \<in> set (drop j hostport) then Inl UnexpectedOpen
                  else if CHR '']'' \<in> set (drop k hostport) then Inl UnexpectedClose
                  else Inr (host, drop (i + 1) hostport)))"

section \<open>Reading the environment\<close>

type_synonym environ = "string \<Rightarrow> string"

datatype problem =
    BadDuration string string duration_error
  | EmptyAddr | InvalidAddr string | AddrWithoutPort string
  | EmptyPath | PathWithDots
  | Required string string

definition envString :: "environ \<Rightarrow> string \<Rightarrow> string \<Rightarrow> string" where
  "envString env key fallback = (if env key \<noteq> '''' then env key else fallback)"

definition envBool :: "environ \<Rightarrow> string \<Rightarrow> bool" where
  "envBool env key =
     (let v = env key in
      if v = '''' then False
      else let v = map to_lower_char v in v = ''1'' \<or> v = ''true'' \<or> v = ''yes'')"

definition envDuration ::
  "(nat \<Rightarrow> nat \<Rightarrow> nat \<Rightarrow> nat) \<Rightarrow> environ \<Rightarrow> string \<Rightarrow> duration \<Rightarrow> problem + duration" where
  "envDuration frac env key fallback =
     (let v = env key in
      if v = '''' then Inr fallback
      else case ParseDuration frac v of
        Inl e \<Rightarrow> Inl (BadDuration key v e)
      | Inr d \<Rightarrow> Inr d)"

definition validateHTTPAddr :: "string \<Rightarrow> problem option" where
  "validateHTTPAddr addr =
     (if addr = '''' then Some EmptyAddr
      else
        let split = (case SplitHostPort addr of
             Inl _ \<Rightarrow> SplitHostPort (''0.0.0.0'' @ addr)
           | Inr hp \<Rightarrow> Inr hp)
        in case split of
          Inl _ \<Rightarrow> Some (InvalidAddr addr)
        | Inr (_, port) \<Rightarrow> if port = '''' then Some (AddrWithoutPort addr) else None)"

definition validateDatabasePath :: "string \<Rightarrow> problem option" where
  "validateDatabasePath dbPath =
     (if dbPath = '''' then Some EmptyPath
      else if contains_str dbPath ''..'' then Some PathWithDots
      else None)"

section \<open>The configuration\<close>

record CloudflareConfig =
  cf_TeamDomain :: string
  cf_Audience :: string

record LocalConfig =
  lc_Issuer :: string
  lc_Audience :: string
  lc_JWKSURL :: string
  lc_Header :: string
  lc_Algorithm :: string

record PomeriumConfig =
  pc_JWKSURL :: string
  pc_Issuer :: string
  pc_Audience :: string
  pc_Header :: string
  pc_Algorithm :: string
  pc_RolePrefix :: string

record AuthConfig =
  ac_Provider :: string
  ac_Cloudflare :: CloudflareConfig
  ac_Local :: LocalConfig
  ac_Pomerium :: PomeriumConfig

record Config =
  HTTPAddr :: string
  ReadHeaderTimeout :: duration
  ReadTimeout :: duration
  WriteTimeout :: duration
  IdleTimeout :: duration
  ShutdownTimeout :: duration
  DisableHSTS :: bool
  Auth :: AuthConfig
  DatabasePath :: string
  LogLevel :: string

definition load_auth :: "environ \<Rightarrow> AuthConfig" where
  "load_auth env =
     \<lparr>ac_Provider = envString env ''APP_AUTH_PROVIDER'' ''cloudflare-access'',
      ac_Cloudflare = \<lparr>cf_TeamDomain = env ''APP_AUTH_CLOUDFLARE_TEAM_DOMAIN'',
        cf_Audience = env ''APP_AUTH_CLOUDFLARE_AUDIENCE''\<rparr>,
      ac_Local = \<lparr>lc_Issuer = env ''APP_AUTH_LOCAL_ISSUER'', lc_Audience = env ''APP_AUTH_LOCAL_AUDIENCE'',
        lc_JWKSURL = env ''APP_AUTH_LOCAL_JWKS_URL'',
        lc_Header = envString env ''APP_AUTH_LOCAL_HEADER'' ''Cf-Access-Jwt-Assertion'',
        lc_Algorithm = envString env ''APP_AUTH_LOCAL_ALGORITHM'' ''RS256''\<rparr>,
      ac_Pomerium = \<lparr>pc_JWKSURL = env ''APP_AUTH_POMERIUM_JWKS_URL'', pc_Issuer = env ''APP_AUTH_POMERIUM_ISSUER'',
        pc_Audience = env ''APP_AUTH_POMERIUM_AUDIENCE'',
        pc_Header = envString env ''APP_AUTH_POMERIUM_HEADER'' ''X-Pomerium-Jwt-Assertion'',
        pc_Algorithm = envString env ''APP_AUTH_POMERIUM_ALGORITHM'' ''ES256'',
        pc_RolePrefix = env ''APP_AUTH_POMERIUM_ROLE_PREFIX''\<rparr>\<rparr>"

definition left_problem :: "problem + 'a \<Rightarrow> problem list" where
  "left_problem r = (case r of Inl p \<Rightarrow> [p] | Inr _ \<Rightarrow> [])"

definition some_problem :: "problem option \<Rightarrow> problem list" where
  "some_problem r = (case r of None \<Rightarrow> [] | Some p \<Rightarrow> [p])"

text \<open>The value a failed call leaves in its variable is 0; it is never used.\<close>

definition right_or_zero :: "problem + duration \<Rightarrow> duration" where
  "right_or_zero r = (case r of Inl _ \<Rightarrow> 0 | Inr d \<Rightarrow> d)"

definition required :: "string \<Rightarrow> string \<Rightarrow> string \<Rightarrow> problem list" where
  "required prov name v = (if v = '''' then [Required name prov] else [])"

definition auth_problems :: "AuthConfig \<Rightarrow> problem list" where
  "auth_problems a =
     (if ac_Provider a = ''cloudflare-access'' then
        required ''cloudflare-access'' ''APP_AUTH_CLOUDFLARE_TEAM_DOMAIN'' (cf_TeamDomain (ac_Cloudflare a))
        @ required ''cloudflare-access'' ''APP_AUTH_CLOUDFLARE_AUDIENCE'' (cf_Audience (ac_Cloudflare a))
      else [])
     @ (if ac_Provider a = ''local'' then
        required ''local'' ''APP_AUTH_LOCAL_ISSUER'' (lc_Issuer (ac_Local a))
        @ required ''local'' ''APP_AUTH_LOCAL_AUDIENCE'' (lc_Audience (ac_Local a))
        @ required ''local'' ''APP_AUTH_LOCAL_JWKS_URL'' (lc_JWKSURL (ac_Local a))
      else [])
     @ (if ac_Provider a = ''pomerium'' then
        required ''pomerium'' ''APP_AUTH_POMERIUM_JWKS_URL'' (pc_JWKSURL (ac_Pomerium a))
        @ required ''pomerium'' ''APP_AUTH_POMERIUM_ISSUER'' (pc_Issuer (ac_Pomerium a))
        @ required ''pomerium'' ''APP_AUTH_POMERIUM_AUDIENCE'' (pc_Audience (ac_Pomerium a))
      else [])"

definition Load :: "(nat \<Rightarrow> nat \<Rightarrow> nat \<Rightarrow> nat) \<Rightarrow> environ \<Rightarrow> problem list + Config" where
  "Load frac env =
     (let rh = envDuration frac env ''APP_HTTP_READ_HEADER_TIMEOUT'' (5 * second);
          rd = envDuration frac env ''APP_HTTP_READ_TIMEOUT'' (10 * second);
          wr = envDuration frac env ''APP_HTTP_WRITE_TIMEOUT'' (30 * second);
          idl = envDuration frac env ''APP_HTTP_IDLE_TIMEOUT'' (60 * second);
          sd = envDuration frac env ''APP_HTTP_SHUTDOWN_TIMEOUT'' (15 * second);
          cfg = \<lparr>HTTPAddr = envString env ''APP_HTTP_ADDR'' '':8080'',
            ReadHeaderTimeout = right_or_zero rh, ReadTimeout = right_or_zero rd,
            WriteTimeout = right_or_zero wr, IdleTimeout = right_or_zero idl,
            ShutdownTimeout = right_or_zero sd, DisableHSTS = envBool env ''APP_HTTP_DISABLE_HSTS'',
            Auth = load_auth env, DatabasePath = envString env ''APP_DATABASE_PATH'' ''app.db'',
            LogLevel = envString env ''APP_LOG_LEVEL'' ''info''\<rparr>;
          problems = left_problem rh @ left_problem rd @ left_problem wr @ left_problem idl @ left_problem sd
            @ some_problem (validateHTTPAddr (HTTPAddr cfg)) @ some_problem (validateDatabasePath (DatabasePath cfg))
            @ auth_problems (Auth cfg)
      in if problems \<noteq> [] then Inl problems else Inr cfg)"

section \<open>Lemmas\<close>

lemma byte_of_digit: "d < 10 \<Longrightarrow> is_digit (char_of (48 + d)) \<and> digit_value (char_of (48 + d)) = d"
  by (simp add: char_bytes digit_value_def)

lemma leadingInt_itoa:
  "n \<le> two63 \<Longrightarrow> leadingInt 0 (itoa_digits n @ t) = leadingInt n t"
proof (induction n arbitrary: t rule: itoa_digits.induct)
  case (1 n)
  show ?case
  proof (cases "n < 10")
    case True
    then show ?thesis using byte_of_digit [of n] 1(2) by (simp add: itoa_digits.simps [of n])
  next
    case False
    have "leadingInt 0 (itoa_digits n @ t) = leadingInt (n div 10) (char_of (48 + n mod 10) # t)"
      using 1(1) [OF False] 1(2) False by (simp add: itoa_digits.simps [of n])
    also have "\<dots> = leadingInt n t"
      using byte_of_digit [of "n mod 10"] 1(2) div_le_mono [of n two63 10] by (simp add: mult.commute)
    finally show ?thesis .
  qed
qed

lemma itoa_digits_cons: "\<exists>c t. itoa_digits n = c # t \<and> is_digit c"
proof (induction n rule: itoa_digits.induct)
  case (1 n)
  then show ?case using byte_of_digit [of n] by (cases "n < 10") (auto simp: itoa_digits.simps [of n])
qed

text \<open>What follows a number and its unit in a duration: nothing, or the next number.\<close>

definition next_term :: "string \<Rightarrow> bool" where
  "next_term s \<longleftrightarrow> s = '''' \<or> is_digit (hd s)"

lemma unit_chars:
  assumes "unitMap u = Some k"
  shows "u \<noteq> '''' \<and> list_all is_unit_char u \<and> 0 < k"
  using assms by (auto simp: unitMap_def is_unit_char_def char_bytes byte_of_def split: if_splits)

lemma takeWhile_unit:
  assumes "list_all is_unit_char u" and "next_term s"
  shows "takeWhile is_unit_char (u @ s) = u" and "dropWhile is_unit_char (u @ s) = s"
proof -
  have "takeWhile is_unit_char s = [] \<and> dropWhile is_unit_char s = s"
    using assms(2) by (cases s) (auto simp: next_term_def is_unit_char_def)
  then show "takeWhile is_unit_char (u @ s) = u" and "dropWhile is_unit_char (u @ s) = s"
    using assms(1) by (simp_all add: list_all_iff)
qed

lemma leadingInt_stop: "s \<noteq> '''' \<Longrightarrow> is_unit_char (hd s) \<Longrightarrow> leadingInt x s = Some (x, s)"
  by (cases s) (auto simp: is_unit_char_def)

lemma duration_item_term:
  assumes "unitMap u = Some k" and "n * k \<le> two63" and "next_term s"
  shows "duration_item frac (itoa_digits n @ u @ s) = Inr (n * k, s)"
proof -
  note u = unit_chars [OF assms(1)]
  have hd: "u @ s \<noteq> ''''" "is_unit_char (hd (u @ s))" "hd (u @ s) \<noteq> CHR ''.''"
    using u by (cases u; auto simp: is_unit_char_def)+
  have "n \<le> two63" using assms(2) u by (metis le_trans mult_le_mono2 nat_mult_1_right One_nat_def Suc_leI)
  then have "leadingInt 0 (itoa_digits n @ u @ s) = Some (n, u @ s)"
    using leadingInt_stop [OF hd(1,2)] by (simp add: leadingInt_itoa)
  moreover have "n \<le> two63 div k" using assms(2) u by (simp add: less_eq_div_iff_mult_less_eq)
  moreover obtain c t where "itoa_digits n = c # t" "\<not> is_unit_char c"
    using itoa_digits_cons [of n] by (auto simp: is_unit_char_def)
  ultimately show ?thesis
    using hd u takeWhile_unit [OF _ assms(3)] assms(1) by (simp add: duration_item_def Let_def)
qed

section \<open>Durations: properties\<close>

text \<open>A duration as its numbers and units, its text and its value.\<close>

definition duration_text :: "(nat \<times> string) list \<Rightarrow> string" where
  "duration_text ts = concat (map (\<lambda>(n, u). itoa_digits n @ u) ts)"

definition duration_value :: "(nat \<times> string) list \<Rightarrow> nat" where
  "duration_value ts = (\<Sum>(n, u) \<leftarrow> ts. n * the (unitMap u))"

definition known_units :: "(nat \<times> string) list \<Rightarrow> bool" where
  "known_units ts = list_all (\<lambda>(n, u). unitMap u \<noteq> None) ts"

lemma next_term_text: "next_term (duration_text ts)"
proof (cases ts)
  case (Cons t ts')
  obtain n u where "t = (n, u)" by (cases t)
  then show ?thesis using Cons itoa_digits_cons [of n] by (auto simp: duration_text_def next_term_def)
qed (simp add: duration_text_def next_term_def)

lemma duration_text_Cons: "duration_text ((n, u) # ts) = itoa_digits n @ u @ duration_text ts"
  by (simp add: duration_text_def)

lemma duration_loop_text:
  "known_units ts \<Longrightarrow> d + duration_value ts \<le> two63
    \<Longrightarrow> duration_loop frac d (duration_text ts) = Inr (d + duration_value ts)"
proof (induction ts arbitrary: d)
  case Nil
  then show ?case by (simp add: duration_loop.simps duration_text_def duration_value_def)
next
  case (Cons t ts)
  obtain n u k where t: "t = (n, u)" and k: "unitMap u = Some k"
    using Cons.prems(1) by (cases t) (auto simp: known_units_def)
  have v: "duration_value (t # ts) = n * k + duration_value ts"
    by (simp add: duration_value_def t k)
  have "add64u d (n * k) = d + n * k"
    using Cons.prems(2) v by (simp add: add64u_def two63_def)
  moreover have "duration_item frac (duration_text (t # ts)) = Inr (n * k, duration_text ts)"
    unfolding t duration_text_Cons
    by (rule duration_item_term [OF k _ next_term_text]) (use Cons.prems(2) v in simp)
  moreover have "duration_text (t # ts) \<noteq> ''''"
    using itoa_digits_cons [of n] by (auto simp: t duration_text_Cons)
  ultimately show ?case
    using Cons.IH [of "d + n * k"] Cons.prems v
    by (simp add: duration_loop.simps [of frac d "duration_text (t # ts)"] known_units_def)
qed

lemma duration_loop_bound: "duration_loop frac d s = Inr v \<Longrightarrow> d \<le> two63 \<Longrightarrow> v \<le> two63"
proof (induction frac d s rule: duration_loop.induct)
  case (1 frac d s)
  show ?case
    using 1(2,3) 1(1) by (subst (asm) duration_loop.simps) (auto split: if_splits sum.splits)
qed

lemma ParseDuration_text:
  assumes "known_units ts" and "ts \<noteq> []" and "int (duration_value ts) \<le> max_int64"
  shows "ParseDuration frac (duration_text ts) = Inr (int (duration_value ts))
    \<and> ParseDuration frac (CHR ''-'' # duration_text ts) = Inr (- int (duration_value ts))"
proof -
  obtain n u ts' where ts: "ts = (n, u) # ts'" using assms(2) by (metis list.exhaust prod.exhaust)
  obtain c t where c: "duration_text ts = c # t" "is_digit c" "t \<noteq> ''''"
  proof -
    obtain c t where "itoa_digits n = c # t" "is_digit c" using itoa_digits_cons by blast
    moreover obtain k where "unitMap u = Some k" using assms(1) by (auto simp: ts known_units_def)
    ultimately show thesis using that unit_chars [of u k] by (auto simp: ts duration_text_Cons)
  qed
  have v: "duration_value ts \<le> two63 - 1" using assms(3) by (simp add: two63_def max_int64_def)
  then have "duration_loop frac 0 (duration_text ts) = Inr (duration_value ts)"
    using duration_loop_text [OF assms(1), of 0 frac] by simp
  moreover have "c \<noteq> CHR ''-''" "c \<noteq> CHR ''+''" using c(2) by (auto simp: is_digit_def less_eq_char_def)
  ultimately show ?thesis
    using c v by (simp add: ParseDuration_def)
qed

text \<open>A number without a unit is refused, other than zero.\<close>

lemma ParseDuration_bare:
  assumes "0 < n" and "n \<le> two63"
  shows "ParseDuration frac (itoa_digits n) = Inl MissingUnit"
proof -
  obtain c t where c: "itoa_digits n = c # t" "is_digit c" using itoa_digits_cons by blast
  have c': "\<not> is_unit_char c" "c \<noteq> CHR ''-''" "c \<noteq> CHR ''+''"
    using c(2) by (auto simp: is_unit_char_def is_digit_def less_eq_char_def)
  have "leadingInt 0 (itoa_digits n) = Some (n, [])" using leadingInt_itoa [OF assms(2), of "[]"] by simp
  then have "duration_item frac (itoa_digits n) = Inl MissingUnit" using c(1) c'(1) by (simp add: duration_item_def Let_def)
  then have "duration_loop frac 0 (itoa_digits n) = Inl MissingUnit" using c(1) by (simp add: duration_loop.simps)
  moreover have "itoa_digits n \<noteq> ''0''"
  proof
    assume z: "itoa_digits n = ''0''"
    have "leadingInt 0 ''0'' = Some (0, [])" by (simp add: is_digit_def less_eq_char_def digit_value_def byte_of_def)
    then show False using leadingInt_itoa [OF assms(2), of "[]"] z assms(1) by simp
  qed
  ultimately show ?thesis using c(1) c' by (auto simp: ParseDuration_def Let_def)
qed

lemma ParseDuration_in:
  assumes "ParseDuration frac s = Inr d"
  shows "in_int64 d"
proof -
  have b: "duration_loop frac 0 t = Inr v \<Longrightarrow> int v \<le> 9223372036854775808" for t v
    using duration_loop_bound [of frac 0 t v] by (simp add: two63_def)
  show ?thesis
    using assms by (auto simp: ParseDuration_def Let_def int64_defs two63_def split: if_splits sum.splits dest!: b)
qed

section \<open>Addresses: properties\<close>

lemma last_index_append:
  "last_index c s = Some i \<Longrightarrow> last_index c (p @ s) = Some (length p + i)"
proof -
  assume a: "last_index c s = Some i"
  then have "c \<in> set s" by (simp add: last_index_def split: if_splits)
  moreover have "takeWhile (\<lambda>x. x \<noteq> c) (rev s @ rev p) = takeWhile (\<lambda>x. x \<noteq> c) (rev s)"
    by (rule takeWhile_append1 [of c]) (use calculation in auto)
  moreover have "length (takeWhile (\<lambda>x. x \<noteq> c) (rev s)) < length s"
    using calculation(1) by (induction s rule: rev_induct) (auto split: if_splits intro: le_less_trans [OF length_takeWhile_le])
  ultimately show ?thesis using a by (auto simp: last_index_def)
qed

lemma last_index_None: "last_index c s = None \<longleftrightarrow> c \<notin> set s"
  by (simp add: last_index_def)

text \<open>No host put before a refused address makes it good, unless it opens a bracket.\<close>

lemma retry_fails:
  assumes "SplitHostPort addr = Inl e" and pre: "pre \<noteq> []" "hd pre \<noteq> CHR ''[''" "CHR '':'' \<notin> set pre"
  shows "\<exists>e'. SplitHostPort (pre @ addr) = Inl e'"
proof (cases "last_index (CHR '':'') addr")
  case None
  then have "last_index (CHR '':'') (pre @ addr) = None" using pre(3) by (simp add: last_index_None)
  then show ?thesis by (simp add: SplitHostPort_def)
next
  case (Some i)
  then have i: "last_index (CHR '':'') (pre @ addr) = Some (length pre + i)"
    by (rule last_index_append)
  have hd: "hd (pre @ addr) \<noteq> CHR ''[''" using pre by simp
  have ne: "addr \<noteq> []" using Some by (auto simp: last_index_def split: if_splits)
  consider "CHR ''['' \<in> set addr" | "CHR '']'' \<in> set addr" | "CHR '':'' \<in> set (take i addr)"
    using assms Some ne by (cases addr) (auto simp: SplitHostPort_def Let_def split: if_splits dest: in_set_dropD)
  then show ?thesis
    using i hd by cases (auto simp: SplitHostPort_def Let_def)
qed

lemma validateHTTPAddr_eq:
  "validateHTTPAddr addr =
     (if addr = '''' then Some EmptyAddr
      else case SplitHostPort addr of
        Inl _ \<Rightarrow> Some (InvalidAddr addr)
      | Inr (_, port) \<Rightarrow> if port = '''' then Some (AddrWithoutPort addr) else None)"
  using retry_fails [of addr _ "''0.0.0.0''"] by (cases "SplitHostPort addr") (auto simp: validateHTTPAddr_def)

text \<open>C40: The second attempt of \<open>validateHTTPAddr\<close> never helps: the address check is the one where
  \<open>SplitHostPort\<close> is called once. A bare \<open>:port\<close> already passes the first attempt, and an address
  that fails it fails again behind the dummy host.\<close>

theorem validateHTTPAddr_once:
  "validateHTTPAddr addr =
     (if addr = '''' then Some EmptyAddr
      else case SplitHostPort addr of
        Inl _ \<Rightarrow> Some (InvalidAddr addr)
      | Inr (_, port) \<Rightarrow> if port = '''' then Some (AddrWithoutPort addr) else None)"
  by (rule validateHTTPAddr_eq)

section \<open>Load: properties\<close>

text \<open>What is wrong with an environment, said without the code's order of checks.\<close>

definition duration_vars :: "(string \<times> duration) list" where
  "duration_vars =
     [(''APP_HTTP_READ_HEADER_TIMEOUT'', 5 * second), (''APP_HTTP_READ_TIMEOUT'', 10 * second),
      (''APP_HTTP_WRITE_TIMEOUT'', 30 * second), (''APP_HTTP_IDLE_TIMEOUT'', 60 * second),
      (''APP_HTTP_SHUTDOWN_TIMEOUT'', 15 * second)]"

definition required_vars :: "(string \<times> string list) list" where
  "required_vars =
     [(''cloudflare-access'', [''APP_AUTH_CLOUDFLARE_TEAM_DOMAIN'', ''APP_AUTH_CLOUDFLARE_AUDIENCE'']),
      (''local'', [''APP_AUTH_LOCAL_ISSUER'', ''APP_AUTH_LOCAL_AUDIENCE'', ''APP_AUTH_LOCAL_JWKS_URL'']),
      (''pomerium'', [''APP_AUTH_POMERIUM_JWKS_URL'', ''APP_AUTH_POMERIUM_ISSUER'', ''APP_AUTH_POMERIUM_AUDIENCE''])]"

inductive defect :: "(nat \<Rightarrow> nat \<Rightarrow> nat \<Rightarrow> nat) \<Rightarrow> environ \<Rightarrow> problem \<Rightarrow> bool" for frac env where
  bad_duration: "key \<in> fst ` set duration_vars \<Longrightarrow> env key \<noteq> '''' \<Longrightarrow> ParseDuration frac (env key) = Inl e
    \<Longrightarrow> defect frac env (BadDuration key (env key) e)"
| bad_addr: "env ''APP_HTTP_ADDR'' \<noteq> '''' \<Longrightarrow> SplitHostPort (env ''APP_HTTP_ADDR'') = Inl e
    \<Longrightarrow> defect frac env (InvalidAddr (env ''APP_HTTP_ADDR''))"
| no_port: "SplitHostPort (env ''APP_HTTP_ADDR'') = Inr (host, '''') \<Longrightarrow> defect frac env (AddrWithoutPort (env ''APP_HTTP_ADDR''))"
| dots: "contains_str (env ''APP_DATABASE_PATH'') ''..'' \<Longrightarrow> defect frac env PathWithDots"
| missing: "(prov, vars) \<in> set required_vars \<Longrightarrow> envString env ''APP_AUTH_PROVIDER'' ''cloudflare-access'' = prov
    \<Longrightarrow> key \<in> set vars \<Longrightarrow> env key = '''' \<Longrightarrow> defect frac env (Required key prov)"

inductive_simps defect_simps:
  "defect frac env (BadDuration k v e)" "defect frac env EmptyAddr" "defect frac env (InvalidAddr a)"
  "defect frac env (AddrWithoutPort a)" "defect frac env EmptyPath" "defect frac env PathWithDots"
  "defect frac env (Required k p)"

lemma duration_problem:
  "p \<in> set (left_problem (envDuration frac env key fallback)) \<longleftrightarrow>
     env key \<noteq> '''' \<and> (\<exists>e. ParseDuration frac (env key) = Inl e \<and> p = BadDuration key (env key) e)"
  by (auto simp: envDuration_def left_problem_def Let_def split: sum.splits)

lemma default_addr: "SplitHostPort '':8080'' = Inr ('''', ''8080'')"
  by (simp add: SplitHostPort_def last_index_def)

lemma addr_problem:
  "p \<in> set (some_problem (validateHTTPAddr (envString env ''APP_HTTP_ADDR'' '':8080''))) \<longleftrightarrow>
     (\<exists>e. env ''APP_HTTP_ADDR'' \<noteq> '''' \<and> SplitHostPort (env ''APP_HTTP_ADDR'') = Inl e \<and> p = InvalidAddr (env ''APP_HTTP_ADDR'')) \<or>
     (\<exists>host. SplitHostPort (env ''APP_HTTP_ADDR'') = Inr (host, '''') \<and> p = AddrWithoutPort (env ''APP_HTTP_ADDR''))"
proof -
  have "SplitHostPort '''' = Inl MissingPort" by (simp add: SplitHostPort_def last_index_def)
  then show ?thesis
    by (auto simp: envString_def validateHTTPAddr_eq default_addr some_problem_def split: sum.splits if_splits)
qed

lemma path_problem:
  "p \<in> set (some_problem (validateDatabasePath (envString env ''APP_DATABASE_PATH'' ''app.db''))) \<longleftrightarrow>
     p = PathWithDots \<and> contains_str (env ''APP_DATABASE_PATH'') ''..''"
  by (auto simp: envString_def validateDatabasePath_def some_problem_def has_prefix_def)

lemma required_problem:
  "p \<in> set (auth_problems (load_auth env)) \<longleftrightarrow>
     (\<exists>prov vars key. (prov, vars) \<in> set required_vars \<and> envString env ''APP_AUTH_PROVIDER'' ''cloudflare-access'' = prov
       \<and> key \<in> set vars \<and> env key = '''' \<and> p = Required key prov)"
  (is "_ \<longleftrightarrow> (\<exists>prov vars key. _ \<and> ?sel = prov \<and> _)")
proof -
  have req: "p \<in> set (required prov name v) \<longleftrightarrow> v = '''' \<and> p = Required name prov" for prov name v
    by (auto simp: required_def)
  consider "?sel = ''cloudflare-access''" | "?sel = ''local''" | "?sel = ''pomerium''"
    | "?sel \<notin> {''cloudflare-access'', ''local'', ''pomerium''}" by blast
  then show ?thesis
    by cases (simp add: auth_problems_def load_auth_def req required_vars_def; blast)+
qed

text \<open>The problems \<open>Load\<close> collects, in its order.\<close>

definition all_problems :: "(nat \<Rightarrow> nat \<Rightarrow> nat \<Rightarrow> nat) \<Rightarrow> environ \<Rightarrow> problem list" where
  "all_problems frac env =
     concat (map (\<lambda>(key, d). left_problem (envDuration frac env key d)) duration_vars)
     @ some_problem (validateHTTPAddr (envString env ''APP_HTTP_ADDR'' '':8080''))
     @ some_problem (validateDatabasePath (envString env ''APP_DATABASE_PATH'' ''app.db''))
     @ auth_problems (load_auth env)"

lemma Load_problems:
  "(\<exists>conf. Load frac env = Inr conf) \<longleftrightarrow> all_problems frac env = []"
  "Load frac env = Inl ps \<longleftrightarrow> ps \<noteq> [] \<and> ps = all_problems frac env"
  by (auto simp: Load_def Let_def all_problems_def duration_vars_def)

lemma all_problems_defects: "p \<in> set (all_problems frac env) \<longleftrightarrow> defect frac env p"
proof -
  have "p \<in> set (concat (map (\<lambda>(key, d). left_problem (envDuration frac env key d)) duration_vars)) \<longleftrightarrow>
      (\<exists>key \<in> fst ` set duration_vars. env key \<noteq> '''' \<and> (\<exists>e. ParseDuration frac (env key) = Inl e \<and> p = BadDuration key (env key) e))"
    by (force simp: duration_problem)
  then have "p \<in> set (all_problems frac env) \<longleftrightarrow>
      (\<exists>key \<in> fst ` set duration_vars. env key \<noteq> '''' \<and> (\<exists>e. ParseDuration frac (env key) = Inl e \<and> p = BadDuration key (env key) e))
      \<or> (\<exists>e. env ''APP_HTTP_ADDR'' \<noteq> '''' \<and> SplitHostPort (env ''APP_HTTP_ADDR'') = Inl e \<and> p = InvalidAddr (env ''APP_HTTP_ADDR''))
      \<or> (\<exists>host. SplitHostPort (env ''APP_HTTP_ADDR'') = Inr (host, '''') \<and> p = AddrWithoutPort (env ''APP_HTTP_ADDR''))
      \<or> (p = PathWithDots \<and> contains_str (env ''APP_DATABASE_PATH'') ''..'')
      \<or> (\<exists>prov vars key. (prov, vars) \<in> set required_vars \<and> envString env ''APP_AUTH_PROVIDER'' ''cloudflare-access'' = prov
           \<and> key \<in> set vars \<and> env key = '''' \<and> p = Required key prov)"
    by (simp only: all_problems_def set_append Un_iff addr_problem path_problem required_problem disj_assoc)
  then show ?thesis by (subst defect.simps) blast
qed

lemma distinct_problems: "distinct (all_problems frac env)"
proof -
  have one: "left_problem (envDuration frac env key d) = [] \<or>
      (\<exists>e. left_problem (envDuration frac env key d) = [BadDuration key (env key) e])" for key d
    by (auto simp: left_problem_def envDuration_def Let_def split: sum.split)
  have parts_distinct: "distinct (concat (map (\<lambda>(key, d). left_problem (envDuration frac env key d)) kds))"
    if "distinct (map fst kds)" for kds
    using that
  proof (induction kds)
    case (Cons x kds)
    obtain key d where x: "x = (key, d)" by fastforce
    have "distinct (left_problem (envDuration frac env key d))" using one [of key d] by auto
    moreover have "q \<notin> set (concat (map (\<lambda>(key, d). left_problem (envDuration frac env key d)) kds))"
      if "q \<in> set (left_problem (envDuration frac env key d))" for q
      using that Cons.prems by (force simp: x duration_problem)
    ultimately show ?case using Cons by (auto simp: x)
  qed simp
  have "distinct (concat (map (\<lambda>(key, d). left_problem (envDuration frac env key d)) duration_vars))"
    by (rule parts_distinct) (simp add: duration_vars_def)
  moreover have "distinct (some_problem x)" for x by (simp add: some_problem_def split: option.split)
  moreover have "distinct (auth_problems (load_auth env))"
    by (simp add: auth_problems_def required_def)
  ultimately show ?thesis
    by (auto simp: all_problems_def duration_problem addr_problem path_problem required_problem)
qed

text \<open>C13: \<open>Load\<close> reports every problem, once: when it fails the list it fails with has exactly the defects
  of the environment (a duration that does not parse, an address without a port, a database path with
  two dots in a row, a variable the chosen provider needs and that is not set), and when it returns a
  configuration there is none.\<close>

theorem Load_reports_all:
  "case Load frac env of
     Inl ps \<Rightarrow> ps \<noteq> [] \<and> distinct ps \<and> (\<forall>p. p \<in> set ps \<longleftrightarrow> defect frac env p)
   | Inr conf \<Rightarrow> (\<forall>p. \<not> defect frac env p)"
proof (cases "Load frac env")
  case (Inl ps)
  show ?thesis
  proof -
    have ps: "ps \<noteq> []" "ps = all_problems frac env" using Inl Load_problems(2) [of frac env ps] by blast+
    show ?thesis
      unfolding Inl sum.case ps(2) using ps distinct_problems [of frac env] all_problems_defects [of _ frac env] by blast
  qed
next
  case (Inr conf)
  then have "all_problems frac env = []" using Load_problems(1) [of frac env] by simp
  then show ?thesis using Inr all_problems_defects [of _ frac env] by simp
qed

text \<open>The duration fields, each with its variable and its default.\<close>

definition duration_fields :: "(string \<times> duration \<times> (Config \<Rightarrow> duration)) list" where
  "duration_fields =
     [(''APP_HTTP_READ_HEADER_TIMEOUT'', 5 * second, ReadHeaderTimeout), (''APP_HTTP_READ_TIMEOUT'', 10 * second, ReadTimeout),
      (''APP_HTTP_WRITE_TIMEOUT'', 30 * second, WriteTimeout), (''APP_HTTP_IDLE_TIMEOUT'', 60 * second, IdleTimeout),
      (''APP_HTTP_SHUTDOWN_TIMEOUT'', 15 * second, ShutdownTimeout)]"

lemma envDuration_value:
  assumes "left_problem (envDuration frac env key d) = []" and "in_int64 d"
  shows "in_int64 (right_or_zero (envDuration frac env key d))
    \<and> (if env key = '''' then right_or_zero (envDuration frac env key d) = d
       else ParseDuration frac (env key) = Inr (right_or_zero (envDuration frac env key d)))"
  using assms
  by (cases "env key = ''''"; cases "ParseDuration frac (env key)")
    (auto simp: left_problem_def envDuration_def Let_def right_or_zero_def dest: ParseDuration_in)

lemma Load_Inr:
  assumes "Load frac env = Inr conf"
  shows "all_problems frac env = []" and "Auth conf = load_auth env"
    and "HTTPAddr conf = envString env ''APP_HTTP_ADDR'' '':8080''"
    and "DatabasePath conf = envString env ''APP_DATABASE_PATH'' ''app.db''"
    and "LogLevel conf = envString env ''APP_LOG_LEVEL'' ''info''"
    and "\<forall>(key, d, field) \<in> set duration_fields. field conf = right_or_zero (envDuration frac env key d)"
  using assms Load_problems(1) [of frac env]
  by (auto simp: Load_def Let_def duration_fields_def split: if_splits)

text \<open>C17: A configuration that \<open>Load\<close> returns is well formed: each timeout is an int64 of nanoseconds,
  the default if its variable is not set and what the variable says if it is; the address has a
  port; the database path is not empty and has no two dots in a row; no setting that has a default is
  empty, and neither is one that the chosen provider requires.\<close>

theorem Load_well_formed:
  assumes "Load frac env = Inr conf"
  shows "(\<forall>(key, d, field) \<in> set duration_fields. in_int64 (field conf) \<and>
       (if env key = '''' then field conf = d else ParseDuration frac (env key) = Inr (field conf)))
    \<and> (\<exists>host port. SplitHostPort (HTTPAddr conf) = Inr (host, port) \<and> port \<noteq> '''')
    \<and> DatabasePath conf \<noteq> '''' \<and> \<not> contains_str (DatabasePath conf) ''..''
    \<and> LogLevel conf \<noteq> '''' \<and> ac_Provider (Auth conf) \<noteq> '''' \<and> auth_problems (Auth conf) = []"
proof -
  note L = Load_Inr [OF assms]
  have p: "\<And>key d. (key, d) \<in> set duration_vars \<Longrightarrow> left_problem (envDuration frac env key d) = []"
    "validateHTTPAddr (HTTPAddr conf) = None" "validateDatabasePath (DatabasePath conf) = None"
    using L(1) by (auto simp: all_problems_def some_problem_def L(3,4) split: option.splits)
  have "in_int64 (field conf) \<and> (if env key = '''' then field conf = d else ParseDuration frac (env key) = Inr (field conf))"
    if f: "(key, d, field) \<in> set duration_fields" for key d field
  proof -
    have "(key, d) \<in> set duration_vars" "in_int64 d" "field conf = right_or_zero (envDuration frac env key d)"
      using f L(6) by (auto simp: duration_fields_def duration_vars_def second_def int64_defs)
    then show ?thesis using envDuration_value [OF p(1)] by simp
  qed
  moreover have "\<exists>host port. SplitHostPort (HTTPAddr conf) = Inr (host, port) \<and> port \<noteq> ''''"
    using p(2) by (auto simp: validateHTTPAddr_eq split: if_splits sum.splits)
  moreover have "DatabasePath conf \<noteq> '''' \<and> \<not> contains_str (DatabasePath conf) ''..''"
    using p(3) by (auto simp: validateDatabasePath_def split: if_splits)
  moreover have "LogLevel conf \<noteq> '''' \<and> ac_Provider (Auth conf) \<noteq> ''''"
    by (simp add: L(2,5) load_auth_def envString_def)
  moreover have "auth_problems (Auth conf) = []" using L(1,2) by (simp add: all_problems_def)
  ultimately show ?thesis by blast
qed

text \<open>C39: A timeout is what its variable says: \<open>envDuration\<close> yields the default when the variable is not
  set, the sum in nanoseconds when it holds numbers with known units, behind a minus the negation (a
  negative timeout is not refused), and for a number without a unit an error that names the variable
  and its text; and each of the five fields of a loaded configuration is what \<open>envDuration\<close> yields for
  its own variable and default.\<close>

theorem envDuration_roundtrip:
  assumes "known_units ts" and "ts \<noteq> []" and "int (duration_value ts) \<le> max_int64" and "0 < n" and "n \<le> two63"
  shows "(env key = [] \<longrightarrow> envDuration frac env key d = Inr d)
    \<and> (env key = duration_text ts \<longrightarrow> envDuration frac env key d = Inr (int (duration_value ts)))
    \<and> (env key = CHR ''-'' # duration_text ts \<longrightarrow> envDuration frac env key d = Inr (- int (duration_value ts)))
    \<and> (env key = itoa_digits n \<longrightarrow> envDuration frac env key d = Inl (BadDuration key (itoa_digits n) MissingUnit))
    \<and> (\<forall>conf. Load frac env = Inr conf \<longrightarrow>
         (\<forall>(k, fallback, field) \<in> set duration_fields. envDuration frac env k fallback = Inr (field conf)))"
proof -
  have ne: "duration_text ts \<noteq> []"
  proof (cases ts)
    case (Cons t ts')
    then show ?thesis using itoa_digits_cons [of "fst t"] by (cases t) (auto simp: duration_text_Cons)
  qed (use assms(2) in simp)
  have "itoa_digits n \<noteq> []" using itoa_digits_cons [of n] by auto
  moreover have "envDuration frac env k fallback = Inr (field conf)"
    if "Load frac env = Inr conf" and f: "(k, fallback, field) \<in> set duration_fields" for conf k fallback field
  proof -
    note L = Load_Inr [OF that(1)]
    have "(k, fallback) \<in> set duration_vars" using f by (auto simp: duration_fields_def duration_vars_def)
    then have "left_problem (envDuration frac env k fallback) = []" using L(1) by (auto simp: all_problems_def)
    moreover have "field conf = right_or_zero (envDuration frac env k fallback)" using L(6) f by blast
    ultimately show ?thesis by (auto simp: left_problem_def right_or_zero_def split: sum.splits)
  qed
  ultimately show ?thesis
    using ne ParseDuration_text [OF assms(1-3)] ParseDuration_bare [OF assms(4,5)] by (auto simp: envDuration_def)
qed

section \<open>Concrete inputs\<close>

definition no_frac :: "nat \<Rightarrow> nat \<Rightarrow> nat \<Rightarrow> nat" where "no_frac f n unit = f * unit div 10 ^ n"

definition pomerium_environ :: environ where
  "pomerium_environ =
     (\<lambda>_. '''')(''APP_AUTH_PROVIDER'' := ''pomerium'', ''APP_AUTH_POMERIUM_JWKS_URL'' := ''https://app.example.com/jwks.json'',
       ''APP_AUTH_POMERIUM_ISSUER'' := ''app.example.com'', ''APP_AUTH_POMERIUM_AUDIENCE'' := ''app.example.com'',
       ''APP_HTTP_SHUTDOWN_TIMEOUT'' := ''3s'')"

lemma three_seconds: "ParseDuration no_frac ''3s'' = Inr (3 * second)"
  by (simp add: ParseDuration_def duration_loop.simps duration_item_def is_unit_char_def is_digit_def less_eq_char_def
      digit_value_def byte_of_def unitMap_def add64u_def two63_def second_def Let_def)

lemma pomerium_loads: "\<exists>conf. Load no_frac pomerium_environ = Inr conf"
proof -
  have "left_problem (envDuration no_frac pomerium_environ key d) = []" if "(key, d) \<in> set duration_vars" for key d
    using that by (auto simp: duration_vars_def left_problem_def envDuration_def pomerium_environ_def three_seconds)
  moreover have "auth_problems (load_auth pomerium_environ) = []"
    by (simp add: auth_problems_def load_auth_def required_def envString_def pomerium_environ_def)
  moreover have "some_problem (validateHTTPAddr (envString pomerium_environ ''APP_HTTP_ADDR'' '':8080'')) = []"
    by (simp add: envString_def pomerium_environ_def validateHTTPAddr_def default_addr some_problem_def)
  moreover have "some_problem (validateDatabasePath (envString pomerium_environ ''APP_DATABASE_PATH'' ''app.db'')) = []"
    by (simp add: envString_def pomerium_environ_def validateDatabasePath_def has_prefix_def some_problem_def)
  ultimately have "all_problems no_frac pomerium_environ = []" by (auto simp: all_problems_def)
  then show ?thesis using Load_problems(1) by blast
qed

theorem envDuration_roundtrip_witness:
  "envDuration no_frac (\<lambda>_. duration_text [(1, ''h''), (30, ''m'')]) ''APP_HTTP_READ_TIMEOUT'' second = Inr (90 * minute)
    \<and> envDuration no_frac (\<lambda>_. itoa_digits 30) ''APP_HTTP_READ_TIMEOUT'' second
        = Inl (BadDuration ''APP_HTTP_READ_TIMEOUT'' (itoa_digits 30) MissingUnit)
    \<and> envDuration no_frac pomerium_environ ''APP_HTTP_SHUTDOWN_TIMEOUT'' (15 * second)
        = Inr (ShutdownTimeout (projr (Load no_frac pomerium_environ)))"
proof -
  have t: "known_units [(1, ''h''), (30, ''m'')]" "int (duration_value [(1, ''h''), (30, ''m'')]) \<le> max_int64"
      "int (duration_value [(1, ''h''), (30, ''m'')]) = 90 * minute"
    by (simp_all add: known_units_def duration_value_def unitMap_def max_int64_def duration_defs)
  obtain conf where "Load no_frac pomerium_environ = Inr conf" using pomerium_loads by blast
  then show ?thesis
    using envDuration_roundtrip [OF t(1) _ t(2), of 30 "\<lambda>_. duration_text [(1, ''h''), (30, ''m'')]"]
      envDuration_roundtrip [OF t(1) _ t(2), of 30 "\<lambda>_. itoa_digits 30"]
      envDuration_roundtrip [OF t(1) _ t(2), of 30 pomerium_environ] t(3)
    by (auto simp: two63_def duration_fields_def)
qed

theorem Load_well_formed_witness:
  "\<exists>conf. Load no_frac pomerium_environ = Inr conf \<and> ShutdownTimeout conf = 3 * second \<and> ReadTimeout conf = 10 * second"
proof -
  obtain conf where conf: "Load no_frac pomerium_environ = Inr conf" using pomerium_loads by blast
  from Load_well_formed [OF conf] show ?thesis
    using conf by (auto simp: duration_fields_def pomerium_environ_def three_seconds)
qed

end
