(* ===== verification/Logger.thy ===== *)
theory Logger
  imports GoHttp
begin

text \<open>
  internal/logger/logger.go: the level of the application logger, read with log/slog's
  \<open>Level.UnmarshalText\<close>, and what a logger of that level writes of the lines it is handed.
\<close>

section \<open>strconv.Atoi\<close>

fun digits_value :: "nat \<Rightarrow> string \<Rightarrow> nat option" where
  "digits_value x [] = Some x"
| "digits_value x (c # cs) = (if is_digit c then digits_value (10 * x + (byte_of c - 48)) cs else None)"

text \<open>An optional sign and at least one digit; a value that is not an int64 is an error.\<close>

definition Atoi :: "string \<Rightarrow> int option" where
  "Atoi s =
     (let t = (if s \<noteq> '''' \<and> (hd s = CHR ''-'' \<or> hd s = CHR ''+'') then tl s else s)
      in if t = '''' then None
         else case digits_value 0 t of
           None \<Rightarrow> None
         | Some n \<Rightarrow>
             let v = (if hd s = CHR ''-'' then - int n else int n)
             in if in_int64 v then Some v else None)"

section \<open>slog levels\<close>

text \<open>
  A level is an int. \<open>upper_name\<close> is \<open>strings.ToUpper\<close> up to what a comparison with an ASCII word can
  see: besides the ASCII letters two code points have an ASCII upper case, dotless i and long s.
\<close>

fun level_value :: "level \<Rightarrow> int" where
  "level_value Debug = -4"
| "level_value Info = 0"
| "level_value Warn = 4"
| "level_value Error = 8"

fun upper_name :: "string \<Rightarrow> string" where
  "upper_name [] = []"
| "upper_name [c] = [to_upper_char c]"
| "upper_name (c # d # cs) =
     (if c = CHR 0xC4 \<and> d = CHR 0xB1 then CHR ''I'' # upper_name cs
      else if c = CHR 0xC5 \<and> d = CHR 0xBF then CHR ''S'' # upper_name cs
      else to_upper_char c # upper_name (d # cs))"

definition level_named :: "string \<Rightarrow> level option" where
  "level_named n =
     (if n = ''DEBUG'' then Some Debug else if n = ''INFO'' then Some Info
      else if n = ''WARN'' then Some Warn else if n = ''ERROR'' then Some Error else None)"

datatype level_error = BadOffset string | UnknownLevel string

definition is_sign :: "char \<Rightarrow> bool" where
  "is_sign c \<longleftrightarrow> c = CHR ''+'' \<or> c = CHR ''-''"

text \<open>\<open>*l += Level(offset)\<close> is 64-bit addition.\<close>

definition UnmarshalText :: "string \<Rightarrow> level_error + int" where
  "UnmarshalText s =
     (let name = takeWhile (\<lambda>c. \<not> is_sign c) s; off = dropWhile (\<lambda>c. \<not> is_sign c) s in
      case (if off = '''' then Some 0 else Atoi off) of
        None \<Rightarrow> Inl (BadOffset s)
      | Some offset \<Rightarrow>
          (case level_named (upper_name name) of
             None \<Rightarrow> Inl (UnknownLevel s)
           | Some lv \<Rightarrow> Inr (add64 (level_value lv) offset)))"

text \<open>The levels in their order.\<close>

lemma level_value_inject: "level_value a = level_value b \<longleftrightarrow> a = b"
  by (cases a; cases b) simp_all

instantiation level :: linorder
begin

definition less_eq_level :: "level \<Rightarrow> level \<Rightarrow> bool" where
  "less_eq_level a b \<longleftrightarrow> level_value a \<le> level_value b"

definition less_level :: "level \<Rightarrow> level \<Rightarrow> bool" where
  "less_level a b \<longleftrightarrow> level_value a < level_value b"

instance
  by standard (auto simp: less_eq_level_def less_level_def level_value_inject)

end

text \<open>A logger is the level of its handler; it writes the lines at or above it.\<close>

definition New :: "string \<Rightarrow> level_error + int" where
  "New lv = UnmarshalText lv"

definition written :: "int \<Rightarrow> log_line list \<Rightarrow> log_line list" where
  "written l lns = filter (\<lambda>x. l \<le> level_value (log_level x)) lns"

section \<open>Lemmas\<close>

lemma written_append [simp]: "written l (xs @ ys) = written l xs @ written l ys"
  by (simp add: written_def)

lemma written_at: "written (level_value lv) lns = filter (\<lambda>x. lv \<le> log_level x) lns"
  by (simp add: written_def less_eq_level_def)

lemma written_more: "l \<le> l' \<Longrightarrow> written l' (written l lns) = written l' lns"
  by (auto simp: written_def intro!: filter_cong)

lemma upper_ascii:
  assumes "\<forall>c \<in> set s. byte_of c < 128"
  shows "upper_name s = map to_upper_char s"
  using assms by (induction s rule: upper_name.induct) (auto simp: byte_of_def)

lemma digits_value_itoa: "digits_value 0 (itoa_digits n @ t) = digits_value n t"
proof (induction n arbitrary: t rule: itoa_digits.induct)
  case (1 n)
  have d: "is_digit (char_of (48 + k)) \<and> byte_of (char_of (48 + k)) - 48 = k" if "k < 10" for k
    using that by (simp add: char_bytes)
  show ?case
    using 1 d [of n] d [of "n mod 10"] by (cases "n < 10") (simp_all add: itoa_digits.simps [of n])
qed

lemma itoa_not_empty [simp]: "itoa_digits n \<noteq> []"
  by (simp add: itoa_digits.simps [of n])

lemma New_info: "New ''info'' = Inr 0"
  by code_simp

lemma Atoi_sign:
  "int n \<le> max_int64 \<Longrightarrow> Atoi (CHR ''+'' # itoa_digits n) = Some (int n)"
  "int n \<le> max_int64 \<Longrightarrow> Atoi (CHR ''-'' # itoa_digits n) = Some (- int n)"
  using digits_value_itoa [of n "[]"] by (auto simp: Atoi_def int64_defs)

text \<open>An offset as it is written behind a name.\<close>

definition offset_text :: "int option \<Rightarrow> string" where
  "offset_text off =
     (case off of None \<Rightarrow> ''''
      | Some k \<Rightarrow> (if k < 0 then CHR ''-'' else CHR ''+'') # itoa_digits (nat \<bar>k\<bar>))"

text \<open>The level setting: one of the four names in any letter case, alone or with a signed decimal
  offset; the level of the logger is the name's plus the offset. Any other name without a sign in it
  is an error, which stops the program at its start.\<close>

theorem New_levels:
  assumes "\<forall>c \<in> set name. byte_of c < 128 \<and> \<not> is_sign c"
    and "case off of None \<Rightarrow> True | Some k \<Rightarrow> \<bar>k\<bar> \<le> max_int64 - 8"
  shows "New (name @ offset_text off) =
    (case level_named (map to_upper_char name) of
       None \<Rightarrow> Inl (UnknownLevel (name @ offset_text off))
     | Some lv \<Rightarrow> Inr (level_value lv + (case off of None \<Rightarrow> 0 | Some k \<Rightarrow> k)))"
proof -
  have sign: "off = None \<or> (\<exists>c cs. offset_text off = c # cs \<and> is_sign c)"
    by (auto simp: offset_text_def is_sign_def split: option.split)
  have split: "takeWhile (\<lambda>c. \<not> is_sign c) (name @ offset_text off) = name"
      "dropWhile (\<lambda>c. \<not> is_sign c) (name @ offset_text off) = offset_text off"
    using sign assms(1) by (auto simp: offset_text_def)
  have off: "(if offset_text off = '''' then Some 0 else Atoi (offset_text off))
      = Some (case off of None \<Rightarrow> 0 | Some k \<Rightarrow> k)"
    using assms(2) Atoi_sign by (auto simp: offset_text_def split: option.split)
  have "add64 (level_value lv) k = level_value lv + k" if "\<bar>k\<bar> \<le> max_int64 - 8" for lv k
    by (rule add64_exact) (use that in \<open>cases lv; auto simp: int64_defs\<close>)
  then have "add64 (level_value lv) (case off of None \<Rightarrow> 0 | Some k \<Rightarrow> k) = level_value lv + (case off of None \<Rightarrow> 0 | Some k \<Rightarrow> k)" for lv
    using assms(2) by (cases off) (auto simp: max_int64_def)
  moreover have "upper_name name = map to_upper_char name" using assms(1) by (intro upper_ascii) simp
  ultimately show ?thesis by (simp add: New_def UnmarshalText_def split off Let_def split: option.split)
qed

theorem New_levels_witness:
  "New ''Warn-2'' = Inr 2 \<and> New ''notice'' = Inl (UnknownLevel ''notice'')"
proof -
  have "offset_text (Some (-2)) = ''-2''" "offset_text None = ''''"
    by (simp_all add: offset_text_def itoa_digits.simps [of 2] char_eq_byte byte_of_def)
  moreover have "\<forall>c \<in> set ''Warn''. byte_of c < 128 \<and> \<not> is_sign c" "\<forall>c \<in> set ''notice''. byte_of c < 128 \<and> \<not> is_sign c"
    by (simp_all add: byte_of_def is_sign_def)
  moreover have "map to_upper_char ''Warn'' = ''WARN''" "map to_upper_char ''notice'' = ''NOTICE''" by code_simp+
  ultimately show ?thesis
    using New_levels [of "''Warn''" "Some (-2)"] New_levels [of "''notice''" None]
    by (simp add: level_named_def max_int64_def)
qed

end
