(* ===== verification/Startup.thy ===== *)
theory Startup
  imports RouteProperties Config Logger
begin

text \<open>
  cmd/app/main.go and internal/api/server.go: the wiring of the program, its life from the
  environment variables to the exit code, and the end of the server as a transition system.

  Not part of the repository, and therefore arguments (\<open>runtime\<close>): the database driver, the
  verifier's library, the floats, the codecs, the embedded files and templates, the link-time build
  metadata, and how serving ends: the listener's failure, or a signal and what \<open>Server.Shutdown\<close> answers within
  a time.
\<close>

section \<open>internal/api/server.go\<close>

record ServerConfig =
  sc_Addr :: string
  sc_ReadHeaderTimeout :: duration
  sc_ReadTimeout :: duration
  sc_WriteTimeout :: duration
  sc_IdleTimeout :: duration

record 'h Server =
  srv_Addr :: string
  srv_Handler :: 'h
  srv_ReadHeaderTimeout :: duration
  srv_ReadTimeout :: duration
  srv_WriteTimeout :: duration
  srv_IdleTimeout :: duration

definition NewServer :: "ServerConfig \<Rightarrow> 'h \<Rightarrow> 'h Server" where
  "NewServer c h =
     \<lparr>srv_Addr = sc_Addr c, srv_Handler = h, srv_ReadHeaderTimeout = sc_ReadHeaderTimeout c,
      srv_ReadTimeout = sc_ReadTimeout c, srv_WriteTimeout = sc_WriteTimeout c,
      srv_IdleTimeout = sc_IdleTimeout c\<rparr>"

section \<open>How serving ends\<close>

datatype run_error =
    BadConfig "problem list"
  | BadLogLevel level_error
  | StoreError store_error
  | ProviderError config_error
  | RoutesError string
  | ListenError string
  | ShutdownError string
  | CloseError string

text \<open>What \<open>ListenAndServe\<close> returned, and what the goroutine sends.\<close>

datatype listen_result = ListenNil | ErrServerClosed | ListenFailed string

fun listen_error :: "listen_result \<Rightarrow> run_error option" where
  "listen_error (ListenFailed e) = Some (ListenError e)"
| "listen_error ListenNil = None"
| "listen_error ErrServerClosed = None"

text \<open>
  The goroutine and the main function after it was started. \<open>errCh\<close> and \<open>sigCh\<close> have room for one
  value. \<open>Server.Shutdown\<close> closes the listener before it waits for the requests.
\<close>

datatype listener = Listening | Sending "run_error option" | Finished

datatype waiter = Selecting | ShuttingDown | Draining | Returned "run_error option"

record serving =
  goroutine :: listener
  main_at :: waiter
  errCh :: "run_error option option"
  sigCh :: bool
  shutdown_called :: bool

definition serving_init :: serving where
  "serving_init = \<lparr>goroutine = Listening, main_at = Selecting, errCh = None, sigCh = False, shutdown_called = False\<rparr>"

text \<open>\<open>ListenAndServe\<close> returns \<open>ErrServerClosed\<close> only after \<open>Shutdown\<close>, and never nil: its documentation.\<close>

inductive serving_step :: "serving \<Rightarrow> serving \<Rightarrow> bool" where
  listen_fails: "goroutine s = Listening \<Longrightarrow> serving_step s (s\<lparr>goroutine := Sending (listen_error (ListenFailed e))\<rparr>)"
| listen_closed: "goroutine s = Listening \<Longrightarrow> shutdown_called s
    \<Longrightarrow> serving_step s (s\<lparr>goroutine := Sending (listen_error ErrServerClosed)\<rparr>)"
| send: "goroutine s = Sending e \<Longrightarrow> errCh s = None \<Longrightarrow> serving_step s (s\<lparr>goroutine := Finished, errCh := Some e\<rparr>)"
| signal: "serving_step s (s\<lparr>sigCh := True\<rparr>)"
| receive_error: "main_at s = Selecting \<Longrightarrow> errCh s = Some e
    \<Longrightarrow> serving_step s (s\<lparr>main_at := Returned e, errCh := None\<rparr>)"
| receive_signal: "main_at s = Selecting \<Longrightarrow> sigCh s
    \<Longrightarrow> serving_step s (s\<lparr>main_at := ShuttingDown, sigCh := False, shutdown_called := True\<rparr>)"
| shutdown_fails: "main_at s = ShuttingDown \<Longrightarrow> serving_step s (s\<lparr>main_at := Returned (Some (ShutdownError e))\<rparr>)"
| shutdown_done: "main_at s = ShuttingDown \<Longrightarrow> serving_step s (s\<lparr>main_at := Draining\<rparr>)"
| drain: "main_at s = Draining \<Longrightarrow> errCh s = Some e \<Longrightarrow> serving_step s (s\<lparr>main_at := Returned e, errCh := None\<rparr>)"

text \<open>The same seen from \<open>main\<close>: what happened first, and what followed.\<close>

datatype ending = Ended listen_result | Signalled "string option" listen_result

fun await :: "ending \<Rightarrow> run_error option" where
  "await (Ended r) = listen_error r"
| "await (Signalled (Some e) r) = Some (ShutdownError e)"
| "await (Signalled None r) = listen_error r"

text \<open>
  How a process can end: the listener fails, or a signal comes. Then \<open>Shutdown\<close> answers within the time
  it is given, and \<open>ListenAndServe\<close> returns \<open>ErrServerClosed\<close>, or the error it had failed with before.
\<close>

datatype serving_end = ListenerFails string | SignalCame string "duration \<Rightarrow> string option" "string option"

fun ending_of :: "serving_end \<Rightarrow> duration \<Rightarrow> ending" where
  "ending_of (ListenerFails e) t = Ended (ListenFailed e)"
| "ending_of (SignalCame sig sh None) t = Signalled (sh t) ErrServerClosed"
| "ending_of (SignalCame sig sh (Some e)) t = Signalled (sh t) (ListenFailed e)"

fun log_ending :: "serving_end \<Rightarrow> ('d, 'f) world \<Rightarrow> ('d, 'f) world" where
  "log_ending (SignalCame sig sh l) w = log_to Info ''shutting down'' [(''signal'', sig)] w"
| "log_ending (ListenerFails e) w = w"

section \<open>run and main\<close>

record ('d, 'f) runtime =
  rt_environ :: environ
  rt_frac :: "nat \<Rightarrow> nat \<Rightarrow> nat \<Rightarrow> nat"
  rt_driver :: "'d driver"
  rt_lib :: jwt_lib
  rt_floats :: "'f float_ops"
  rt_codecs :: codecs
  rt_files :: "('d, 'f) world handler"
  rt_templates :: "string option"
  rt_build :: build
  rt_mux :: mux_env
  rt_requests :: "('f env \<times> request) list"
  rt_end :: serving_end

definition settings :: "Config \<Rightarrow> Settings" where
  "settings conf =
     \<lparr>TeamDomain = cf_TeamDomain (ac_Cloudflare (Auth conf)), Audience = cf_Audience (ac_Cloudflare (Auth conf)),
      LocalIssuer = lc_Issuer (ac_Local (Auth conf)), LocalAudience = lc_Audience (ac_Local (Auth conf)),
      JWKSURL = lc_JWKSURL (ac_Local (Auth conf)), LocalHeader = lc_Header (ac_Local (Auth conf)),
      LocalAlgorithm = lc_Algorithm (ac_Local (Auth conf)),
      PomeriumJWKSURL = pc_JWKSURL (ac_Pomerium (Auth conf)), PomeriumIssuer = pc_Issuer (ac_Pomerium (Auth conf)),
      PomeriumAudience = pc_Audience (ac_Pomerium (Auth conf)), PomeriumHeader = pc_Header (ac_Pomerium (Auth conf)),
      PomeriumAlgorithm = pc_Algorithm (ac_Pomerium (Auth conf)),
      PomeriumRolePrefix = pc_RolePrefix (ac_Pomerium (Auth conf)), set_HTTPClient = None\<rparr>"

text \<open>
  The requests between the start and the signal. net/http would recover the panic of a handler and
  go on; here it ends the run, so that a run that ends well shows that no request panicked.
\<close>

fun serve_requests ::
  "('f env \<Rightarrow> ('d, 'f) world handler) \<Rightarrow> ('f env \<times> request) list \<Rightarrow> ('d, 'f) world \<Rightarrow> ('d, 'f) world outcome" where
  "serve_requests h [] w = Return w"
| "serve_requests h ((E, r) # reqs) w =
     (case h E r (next_request w) of
        Done r' w' \<Rightarrow> serve_requests h reqs w'
      | Panicked e r' w' \<Rightarrow> Panic e)"

definition the_app :: "('d, 'f) runtime \<Rightarrow> Config \<Rightarrow> jwtProvider \<Rightarrow> httpMetricsSet \<Rightarrow> ('d, 'f) app" where
  "the_app R conf p m =
     \<lparr>app_driver = rt_driver R, app_model = storePageModel (rt_driver R),
      app_auth = authenticate_world (rt_lib R) p, app_codecs = rt_codecs R, app_floats = rt_floats R,
      app_metrics = m, app_static = StaticHandler (rt_files R), app_build = rt_build R, app_mux = rt_mux R,
      app_disableHSTS = DisableHSTS conf\<rparr>"

definition server_of :: "Config \<Rightarrow> 'h \<Rightarrow> 'h Server" where
  "server_of conf h =
     NewServer \<lparr>sc_Addr = HTTPAddr conf, sc_ReadHeaderTimeout = ReadHeaderTimeout conf, sc_ReadTimeout = ReadTimeout conf,
       sc_WriteTimeout = WriteTimeout conf, sc_IdleTimeout = IdleTimeout conf\<rparr> h"

text \<open>From the provider on: the error (of the select at the end), the driver as the requests left it, the log.\<close>

definition serve_until_end ::
  "('d, 'f) runtime \<Rightarrow> Config \<Rightarrow> 'd \<Rightarrow> (run_error option \<times> 'd \<times> log_line list) outcome" where
  "serve_until_end R conf d =
     (case NewProvider (ac_Provider (Auth conf)) (settings conf) of
        Inl e \<Rightarrow> Return (Some (ProviderError e), d, [])
      | Inr (p, j) \<Rightarrow>
          let warned = (if ac_Provider (Auth conf) = ''local''
            then [\<lparr>log_level = Warn, log_msg = ''local auth provider is enabled; do not use in production'', log_attrs = []\<rparr>]
            else [])
          in case rt_templates R of
               Some e \<Rightarrow> Return (Some (RoutesError e), d, warned)
             | None \<Rightarrow>
                 bind_outcome (initial_world (rt_floats R) j d) (\<lambda>(m, w).
                   let server = server_of conf (Routes (the_app R conf p m));
                       w = log_to Info ''listening'' [(''addr'', srv_Addr server)] (w\<lparr>logs := warned\<rparr>)
                   in bind_outcome (serve_requests (srv_Handler server) (rt_requests R) w) (\<lambda>w.
                     Return (await (ending_of (rt_end R) (ShutdownTimeout conf)), database w,
                       logs (log_ending (rt_end R) w)))))"

text \<open>The deferred \<open>Close\<close>: its error counts when there is no other.\<close>

definition close_store :: "'d driver \<Rightarrow> run_error option \<times> 'd \<Rightarrow> run_error option" where
  "close_store D = (\<lambda>(err, d).
     case fst (d_close D d) of
       Some ce \<Rightarrow> if err = None then Some (CloseError ce) else err
     | None \<Rightarrow> err)"

text \<open>The result of \<open>run\<close>, and the lines the default logger writes to the standard error.\<close>

definition run :: "('d, 'f) runtime \<Rightarrow> (run_error option \<times> log_line list) outcome" where
  "run R =
     (case Load (rt_frac R) (rt_environ R) of
        Inl ps \<Rightarrow> Return (Some (BadConfig ps), [])
      | Inr conf \<Rightarrow>
          case New (LogLevel conf) of
            Inl e \<Rightarrow> Return (Some (BadLogLevel e), [])
          | Inr l \<Rightarrow>
              case Open (rt_driver R) (DatabasePath conf) of
                Inl e \<Rightarrow> Return (Some (StoreError e), [])
              | Inr d \<Rightarrow>
                  map_outcome (\<lambda>(err, d, lns). (close_store (rt_driver R) (err, d), written l lns))
                    (serve_until_end R conf d))"

text \<open>The whole program: the arguments, what it prints, and its exit code.\<close>

definition version_line :: "build \<Rightarrow> string" where
  "version_line b =
     (case version_Info b of i \<Rightarrow> the (map_of i ''version'') @ '' '' @ the (map_of i ''commit'') @ '' (''
        @ the (map_of i ''build_time'') @ '')'' @ [CHR 0x0A])"

definition main_program :: "string list \<Rightarrow> ('d, 'f) runtime \<Rightarrow> (string \<times> nat) outcome" where
  "main_program args R =
     (if length args > 1 \<and> (args ! 1 = ''-version'' \<or> args ! 1 = ''--version'')
      then Return (version_line (rt_build R), 0)
      else map_outcome (\<lambda>(err, lns). ('''', if err = None then 0 else 1)) (run R))"

section \<open>The end of the server: lemmas\<close>

inductive_cases serving_stepE: "serving_step s s'"

abbreviation reachable_serving :: "serving \<Rightarrow> bool" where
  "reachable_serving s \<equiv> serving_step\<^sup>*\<^sup>* serving_init s"

fun sends :: "serving \<Rightarrow> run_error option \<Rightarrow> bool" where
  "sends s e \<longleftrightarrow> goroutine s = Sending e \<or> errCh s = Some e"

text \<open>
  A value is on its way at most once; it is nil only after \<open>Shutdown\<close> and otherwise the listener's
  error; as long as \<open>main\<close> has not returned it can still be received.
\<close>

definition serving_ok :: "serving \<Rightarrow> bool" where
  "serving_ok s \<longleftrightarrow>
     (goroutine s \<noteq> Finished \<longrightarrow> errCh s = None) \<and>

     (\<forall>e. sends s e \<longrightarrow> (case e of None \<Rightarrow> shutdown_called s | Some x \<Rightarrow> \<exists>t. x = ListenError t)) \<and>
     (goroutine s = Finished \<longrightarrow> errCh s \<noteq> None \<or> (\<exists>r. main_at s = Returned r)) \<and>
     (case main_at s of
        Selecting \<Rightarrow> \<not> shutdown_called s
      | Returned None \<Rightarrow> shutdown_called s \<and> goroutine s = Finished
      | Returned (Some x) \<Rightarrow> (\<exists>t. x = ListenError t) \<or> shutdown_called s \<and> (\<exists>t. x = ShutdownError t)
      | _ \<Rightarrow> shutdown_called s)"

lemma serving_init_ok: "serving_ok serving_init"
  by (simp add: serving_ok_def serving_init_def)

lemma serving_step_ok: "serving_step s s' \<Longrightarrow> serving_ok s \<Longrightarrow> serving_ok s'"
proof (induction rule: serving_step.induct)
  case (receive_error s e)
  then show ?case by (cases e) (auto simp: serving_ok_def)
next
  case (drain s e)
  then show ?case by (cases e) (auto simp: serving_ok_def)
qed (auto simp: serving_ok_def split: waiter.splits option.splits)

lemma reachable_serving_ok: "reachable_serving s \<Longrightarrow> serving_ok s"
  by (induction rule: rtranclp_induct) (use serving_init_ok serving_step_ok in blast)+

text \<open>What is left to do, signals apart.\<close>

fun work :: "serving \<Rightarrow> nat" where
  "work s = (case goroutine s of Listening \<Rightarrow> 2 | Sending _ \<Rightarrow> 1 | Finished \<Rightarrow> 0)
     + (case main_at s of Selecting \<Rightarrow> 3 | ShuttingDown \<Rightarrow> 2 | Draining \<Rightarrow> 1 | Returned _ \<Rightarrow> 0)"

lemma step_works: "serving_step s s' \<Longrightarrow> work s' < work s \<or> s' = s\<lparr>sigCh := True\<rparr>"
  by (induction rule: serving_step.induct) auto

lemma step_while_waiting:
  assumes "serving_ok s" and "sigCh s \<or> shutdown_called s" and "\<nexists>r. main_at s = Returned r"
  shows "\<exists>s'. serving_step s s' \<and> work s' < work s"
proof -
  have drains: "\<exists>s'. serving_step s s' \<and> work s' < work s" if d: "main_at s = Draining"
  proof (cases "goroutine s")
    case Listening
    with d assms(1) have "serving_step s (s\<lparr>goroutine := Sending (listen_error ErrServerClosed)\<rparr>)"
      by (intro listen_closed) (auto simp: serving_ok_def)
    then show ?thesis using Listening by force
  next
    case (Sending e)
    with assms(1) have "serving_step s (s\<lparr>goroutine := Finished, errCh := Some e\<rparr>)"
      by (intro send) (auto simp: serving_ok_def)
    then show ?thesis using Sending by force
  next
    case Finished
    with d assms(1) obtain e where "errCh s = Some e" by (auto simp: serving_ok_def)
    then have "serving_step s (s\<lparr>main_at := Returned e, errCh := None\<rparr>)" using d by (intro drain)
    then show ?thesis using d by force
  qed
  show ?thesis
  proof (cases "main_at s")
    case Selecting
    then have "sigCh s" using assms(1,2) by (simp add: serving_ok_def)
    then have "serving_step s (s\<lparr>main_at := ShuttingDown, sigCh := False, shutdown_called := True\<rparr>)"
      using Selecting by (intro receive_signal)
    then show ?thesis using Selecting by force
  next
    case ShuttingDown
    then have "serving_step s (s\<lparr>main_at := Draining\<rparr>)" by (rule shutdown_done)
    then show ?thesis using ShuttingDown by force
  qed (use drains assms(3) in auto)
qed

section \<open>The end of the server: properties\<close>

text \<open>The results \<open>main\<close> can return with, by a run of the system each.\<close>

lemma reach_step: "reachable_serving s \<Longrightarrow> serving_step s s' \<Longrightarrow> reachable_serving s'"
  by (rule rtranclp.rtrancl_into_rtrancl)

lemma returned_by: "reachable_serving s \<Longrightarrow> main_at s = Returned r \<Longrightarrow> \<exists>s. reachable_serving s \<and> main_at s = Returned r"
  by blast

definition stopping :: serving where
  "stopping = serving_init\<lparr>main_at := ShuttingDown, shutdown_called := True\<rparr>"

lemma stopping_fields [simp]:
  "main_at stopping = ShuttingDown" "shutdown_called stopping" "goroutine stopping = Listening" "errCh stopping = None"
  by (simp_all add: stopping_def serving_init_def)

lemma stopping_reachable: "reachable_serving stopping"
proof -
  have "serving_step serving_init (serving_init\<lparr>sigCh := True\<rparr>)" by (rule serving_step.signal)
  moreover have "serving_step (serving_init\<lparr>sigCh := True\<rparr>) stopping"
    using receive_signal [of "serving_init\<lparr>sigCh := True\<rparr>"] by (simp add: serving_init_def stopping_def)
  ultimately show ?thesis by (meson rtranclp.rtrancl_refl reach_step)
qed

lemma listener_error_reached: "\<exists>s. reachable_serving s \<and> main_at s = Returned (Some (ListenError e))"
proof -
  let ?s1 = "serving_init\<lparr>goroutine := Sending (Some (ListenError e))\<rparr>"
  let ?s2 = "?s1\<lparr>goroutine := Finished, errCh := Some (Some (ListenError e))\<rparr>"
  have 1: "serving_step serving_init ?s1" using listen_fails [of serving_init e] by (simp add: serving_init_def)
  have 2: "serving_step ?s1 ?s2" by (rule send) (simp_all add: serving_init_def)
  have 3: "serving_step ?s2 (?s2\<lparr>main_at := Returned (Some (ListenError e)), errCh := None\<rparr>)"
    by (rule receive_error) (simp_all add: serving_init_def)
  from reach_step [OF reach_step [OF reach_step [OF rtranclp.rtrancl_refl 1] 2] 3] show ?thesis
    by (rule returned_by) simp
qed

lemma shutdown_error_reached: "\<exists>s. reachable_serving s \<and> main_at s = Returned (Some (ShutdownError e))"
  by (rule returned_by [OF reach_step [OF stopping_reachable shutdown_fails [of stopping e]]]) simp_all

lemma nil_reached: "\<exists>s. reachable_serving s \<and> main_at s = Returned None"
proof -
  let ?s1 = "stopping\<lparr>main_at := Draining\<rparr>"
  let ?s2 = "?s1\<lparr>goroutine := Sending None\<rparr>"
  let ?s3 = "?s2\<lparr>goroutine := Finished, errCh := Some None\<rparr>"
  have 1: "serving_step stopping ?s1" by (rule shutdown_done) simp
  have 2: "serving_step ?s1 ?s2" using listen_closed [of ?s1] by simp
  have 3: "serving_step ?s2 ?s3" by (rule send) simp_all
  have 4: "serving_step ?s3 (?s3\<lparr>main_at := Returned None, errCh := None\<rparr>)" by (rule drain) simp_all
  from reach_step [OF reach_step [OF reach_step [OF reach_step [OF stopping_reachable 1] 2] 3] 4] show ?thesis
    by (rule returned_by) simp
qed

definition endings :: "ending set" where
  "endings = range (\<lambda>e. Ended (ListenFailed e)) \<union> {Signalled sh r | sh r. r \<noteq> ListenNil}"

lemma await_endings: "r \<in> await ` endings \<longleftrightarrow>
    (\<exists>e. r = Some (ListenError e)) \<or> r = None \<or> (\<exists>e. r = Some (ShutdownError e))"
proof
  assume "r \<in> await ` endings"
  then consider e where "r = await (Ended (ListenFailed e))"
    | sh l where "r = await (Signalled sh l)" "l \<noteq> ListenNil" by (auto simp: endings_def)
  then show "(\<exists>e. r = Some (ListenError e)) \<or> r = None \<or> (\<exists>e. r = Some (ShutdownError e))"
  proof cases
    case (2 sh l)
    then show ?thesis by (cases sh; cases l) auto
  qed simp
next
  have "Ended (ListenFailed e) \<in> endings" "Signalled sh ErrServerClosed \<in> endings" for e sh
    by (auto simp: endings_def)
  then have "await (Ended (ListenFailed e)) \<in> await ` endings" "await (Signalled sh ErrServerClosed) \<in> await ` endings" for e sh
    by blast+
  note in_image = this(1) this(2) [of None] this(2) [of "Some e" for e]
  assume "(\<exists>e. r = Some (ListenError e)) \<or> r = None \<or> (\<exists>e. r = Some (ShutdownError e))"
  then show "r \<in> await ` endings" using in_image by auto
qed

text \<open>C19: How the server can end, whatever the scheduler does and whenever signals arrive: the values
  \<open>main\<close> can return with are the three of the sequential reading, the listener's error, the error of a
  shutdown that did not finish in time, and what the goroutine sends once it did. In particular the
  result is nil only after a signal and a complete shutdown, with the goroutine gone; and the
  goroutine never blocks on its channel.\<close>

theorem await_refined:
  "{r. \<exists>s. reachable_serving s \<and> main_at s = Returned r} = await ` endings
   \<and> (\<forall>s. reachable_serving s \<longrightarrow> (main_at s = Returned None \<longrightarrow> shutdown_called s \<and> goroutine s = Finished)
        \<and> (goroutine s \<noteq> Finished \<longrightarrow> errCh s = None))"
proof -
  have "r \<in> await ` endings" if "reachable_serving s" "main_at s = Returned r" for s r
    using reachable_serving_ok [OF that(1)] that(2) unfolding await_endings
    by (cases r) (auto simp: serving_ok_def)
  moreover have "\<exists>s. reachable_serving s \<and> main_at s = Returned r" if "r \<in> await ` endings" for r
    using that listener_error_reached shutdown_error_reached nil_reached unfolding await_endings by blast
  moreover have "(main_at s = Returned None \<longrightarrow> shutdown_called s \<and> goroutine s = Finished)
        \<and> (goroutine s \<noteq> Finished \<longrightarrow> errCh s = None)" if "reachable_serving s" for s
    using reachable_serving_ok [OF that] by (auto simp: serving_ok_def)
  ultimately show ?thesis by blast
qed

theorem await_refined_witness:
  "(\<exists>s. reachable_serving s \<and> main_at s = Returned None \<and> shutdown_called s)
    \<and> \<not> (\<exists>s. reachable_serving s \<and> main_at s = Returned (Some (CloseError ''x'')))"
proof -
  have "None \<in> await ` endings" "Some (CloseError ''x'') \<notin> await ` endings" by (simp_all add: await_endings)
  then show ?thesis using await_refined by blast
qed

text \<open>C20: A signal ends the program: from any reachable state in which one has arrived, as long as \<open>main\<close>
  has not returned there is a step to take that uses up work, of which at most five units are left,
  and no step but a further signal adds to it; so every fair run returns.\<close>

theorem signal_ends_serving:
  assumes "reachable_serving s" and "sigCh s \<or> shutdown_called s"
  shows "work s \<le> 5 \<and> ((\<exists>r. main_at s = Returned r) \<or> (\<exists>s'. serving_step s s' \<and> work s' < work s))
    \<and> (\<forall>s'. serving_step s s' \<longrightarrow> (sigCh s' \<or> shutdown_called s') \<and> (work s' < work s \<or> s' = s\<lparr>sigCh := True\<rparr>))"
proof -
  have "work s \<le> 5" by (cases "goroutine s"; cases "main_at s") simp_all
  moreover have "sigCh s' \<or> shutdown_called s'" if "serving_step s s'" for s'
    using that by (rule serving_stepE) (use assms(2) in auto)
  ultimately show ?thesis
    using step_while_waiting [OF reachable_serving_ok [OF assms(1)] assms(2)] step_works by blast
qed

theorem signal_ends_serving_witness:
  "reachable_serving (serving_init\<lparr>sigCh := True\<rparr>)
    \<and> (\<exists>s'. serving_step (serving_init\<lparr>sigCh := True\<rparr>) s' \<and> work s' < work (serving_init\<lparr>sigCh := True\<rparr>))"
proof -
  have r: "reachable_serving (serving_init\<lparr>sigCh := True\<rparr>)" using serving_step.signal [of serving_init] by blast
  show ?thesis using signal_ends_serving [OF r] r by (auto simp: serving_init_def)
qed

section \<open>run: lemmas\<close>

lemma serve_requests_log: "serve_requests (Routes A) reqs w = serve_log A reqs w"
  by (induction reqs w rule: serve_log.induct) (auto split: run.split)

text \<open>What \<open>run\<close> needs of the outside: a file server that serves files, requests at non-decreasing
  times with random bytes for their ids, and outcomes within the contracts.\<close>

definition runtime_ok :: "('d, 'f) runtime \<Rightarrow> bool" where
  "runtime_ok R \<longleftrightarrow> static_ok (rt_files R) \<and> in_order 0 (rt_requests R) \<and>
     (\<forall>(E, r) \<in> set (rt_requests R). env_ok E \<and> env_rand E \<noteq> None)"

lemma initial_world_provider:
  assumes "NewProvider name s = Inr (p, j)"
  shows "\<exists>m w. initial_world F j d = Return (m, w) \<and> world_ok m 0 w \<and> logs w = []"
proof -
  obtain c where "NewJWTProvider c = Inr (p, j)" using NewProvider_new [OF assms] by blast
  then obtain url hc where j: "j = newJWKSClient url hc" by (auto simp: NewJWTProvider_Inr)
  obtain m reg where "newHTTPMetrics F = Return (m, reg)" using newHTTPMetrics_returns by blast
  then obtain w where "initial_world F j d = Return (m, w)" "logs w = []" by (simp add: initial_world_def)
  then show ?thesis using initial_world_ok(1) [of F url hc d m w] unfolding j by metis
qed

text \<open>Serving from a provider to the end: the requests are answered and the log has their lines.\<close>

lemma serve_until_end_provider:
  assumes R: "runtime_ok R" and p: "NewProvider (ac_Provider (Auth conf)) (settings conf) = Inr (p, j)"
    and T: "rt_templates R = None"
  shows "\<exists>err d' lns. serve_until_end R conf d = Return (err, d', lns)
    \<and> err = await (ending_of (rt_end R) (ShutdownTimeout conf))
    \<and> map log_level (filter (\<lambda>l. log_msg l = ''request'') lns) = map request_level (rt_requests R)"
proof -
  let ?warned = "if ac_Provider (Auth conf) = ''local''
    then [\<lparr>log_level = Warn, log_msg = ''local auth provider is enabled; do not use in production'', log_attrs = []\<rparr>] else []"
  obtain m w where w: "initial_world (rt_floats R) j d = Return (m, w)" "world_ok m 0 w"
    using initial_world_provider [OF p, of "rt_floats R" d] by metis
  let ?A = "the_app R conf p m"
  let ?w = "log_to Info ''listening'' [(''addr'', HTTPAddr conf)] (w\<lparr>logs := ?warned\<rparr>)"
  have A: "app_ok (rt_lib R) p ?A"
    using R p by (auto simp: app_ok_def the_app_def registered_def runtime_ok_def)
  have "world_ok (app_metrics ?A) 0 ?w" using w(2) by (simp add: world_ok_def the_app_def)
  moreover have "lines_with ''request'' ?w = []" by (simp add: lines_with_def log_to_def)
  ultimately obtain w' where w': "serve_log ?A (rt_requests R) ?w = Return w'"
      "map log_level (lines_with ''request'' w') = map request_level (rt_requests R)"
    using serve_log_ok [OF A, of 0 "rt_requests R" ?w] R by (auto simp: runtime_ok_def)
  show ?thesis
    using p T w(1) w' by (cases "rt_end R")
      (auto simp: serve_until_end_def server_of_def NewServer_def serve_requests_log lines_with_def log_to_def)
qed

lemma serve_until_end_cases:
  assumes R: "runtime_ok R"
  obtains (refused) e lns where "serve_until_end R conf d = Return (Some e, d, lns)"
      "filter (\<lambda>l. log_msg l = ''request'') lns = []"
  | (served) p j err d' lns where "NewProvider (ac_Provider (Auth conf)) (settings conf) = Inr (p, j)"
      "rt_templates R = None" "serve_until_end R conf d = Return (err, d', lns)"
      "err = await (ending_of (rt_end R) (ShutdownTimeout conf))"
      "map log_level (filter (\<lambda>l. log_msg l = ''request'') lns) = map request_level (rt_requests R)"
proof (cases "NewProvider (ac_Provider (Auth conf)) (settings conf)")
  case (Inl e)
  then show thesis by (intro refused [of "ProviderError e" "[]"]) (simp_all add: serve_until_end_def)
next
  case (Inr pj)
  obtain p j where pj: "pj = (p, j)" by fastforce
  show thesis
  proof (cases "rt_templates R")
    case None
    then show thesis using serve_until_end_provider [OF R Inr [unfolded pj] None] served Inr pj by blast
  next
    case (Some e)
    then show thesis
      using Inr pj refused [of "RoutesError e"] by (auto simp: serve_until_end_def)
  qed
qed

section \<open>run and main: properties\<close>

lemma auth_settings:
  assumes "auth_problems a = []"
  shows "ac_Provider a = ''cloudflare-access'' \<Longrightarrow> cf_TeamDomain (ac_Cloudflare a) \<noteq> '''' \<and> cf_Audience (ac_Cloudflare a) \<noteq> ''''"
    and "ac_Provider a = ''local'' \<Longrightarrow> lc_Issuer (ac_Local a) \<noteq> '''' \<and> lc_Audience (ac_Local a) \<noteq> '''' \<and> lc_JWKSURL (ac_Local a) \<noteq> ''''"
    and "ac_Provider a = ''pomerium'' \<Longrightarrow> pc_JWKSURL (ac_Pomerium a) \<noteq> '''' \<and> pc_Issuer (ac_Pomerium a) \<noteq> '''' \<and> pc_Audience (ac_Pomerium a) \<noteq> ''''"
  using assms by (auto simp: auth_problems_def required_def split: if_splits)

text \<open>C18: The checks of \<open>Load\<close> and of the provider constructors fit together: with a loaded configuration no
  provider is refused for a missing setting. What is left to be refused, after the store has been
  opened, is a provider name that is not registered, a team domain that is not a host name, and an
  algorithm other than the two.\<close>

theorem loaded_provider:
  assumes "Load fr environ = Inr conf"
  shows "NewProvider (ac_Provider (Auth conf)) (settings conf) = Inl e \<longleftrightarrow>
      (ac_Provider (Auth conf) \<notin> {''cloudflare-access'', ''local'', ''pomerium''}
         \<and> e = UnknownProvider (ac_Provider (Auth conf)))
    \<or> (ac_Provider (Auth conf) = ''cloudflare-access'' \<and> \<not> isValidTeamDomain (cf_TeamDomain (ac_Cloudflare (Auth conf)))
         \<and> e = InvalidTeamDomain (cf_TeamDomain (ac_Cloudflare (Auth conf))))
    \<or> (ac_Provider (Auth conf) = ''local'' \<and> lc_Algorithm (ac_Local (Auth conf)) \<notin> {AlgRS256, AlgES256}
         \<and> e = UnsupportedAlgorithm (lc_Algorithm (ac_Local (Auth conf))))
    \<or> (ac_Provider (Auth conf) = ''pomerium'' \<and> pc_Algorithm (ac_Pomerium (Auth conf)) \<notin> {AlgRS256, AlgES256}
         \<and> e = UnsupportedAlgorithm (pc_Algorithm (ac_Pomerium (Auth conf))))"
proof -
  have a: "auth_problems (Auth conf) = []" using Load_Inr(1,2) [OF assms] by (simp add: all_problems_def)
  have h: "lc_Header (ac_Local (Auth conf)) \<noteq> ''''" "lc_Algorithm (ac_Local (Auth conf)) \<noteq> ''''"
      "pc_Header (ac_Pomerium (Auth conf)) \<noteq> ''''" "pc_Algorithm (ac_Pomerium (Auth conf)) \<noteq> ''''"
    by (simp_all add: Load_Inr(2) [OF assms] load_auth_def envString_def)
  consider "ac_Provider (Auth conf) = ''cloudflare-access''" | "ac_Provider (Auth conf) = ''local''"
    | "ac_Provider (Auth conf) = ''pomerium''"
    | "ac_Provider (Auth conf) \<notin> {''cloudflare-access'', ''local'', ''pomerium''}" by blast
  then show ?thesis
  proof cases
    case 1
    then show ?thesis using auth_settings(1) [OF a]
      by (auto simp: NewProvider_def registry_lookup settings_def NewCloudflare_def Let_def NewJWTProvider_def)
  next
    case 2
    then show ?thesis using auth_settings(2) [OF a] h
      by (auto simp: NewProvider_def registry_lookup settings_def newLocalJWTProvider_def Let_def NewJWTProvider_def)
  next
    case 3
    then show ?thesis using auth_settings(3) [OF a] h
      by (auto simp: NewProvider_def registry_lookup settings_def newPomeriumProvider_def Let_def NewJWTProvider_def)
  next
    case 4
    then show ?thesis by (auto simp: NewProvider_def registry_lookup)
  qed
qed

lemma run_cases:
  assumes R: "runtime_ok R"
  obtains (failed) e lns where "run R = Return (Some e, lns)" "filter (\<lambda>l. log_msg l = ''request'') lns = []"
  | (ran) conf l d p j err d' lns where
      "Load (rt_frac R) (rt_environ R) = Inr conf" "New (LogLevel conf) = Inr l"
      "Open (rt_driver R) (DatabasePath conf) = Inr d"
      "NewProvider (ac_Provider (Auth conf)) (settings conf) = Inr (p, j)" "rt_templates R = None"
      "err = await (ending_of (rt_end R) (ShutdownTimeout conf))"
      "run R = Return (close_store (rt_driver R) (err, d'), written l lns)"
      "map log_level (filter (\<lambda>l. log_msg l = ''request'') lns) = map request_level (rt_requests R)"
proof (cases "Load (rt_frac R) (rt_environ R)")
  case (Inl ps)
  then show thesis by (intro failed [of "BadConfig ps" "[]"]) (simp_all add: run_def)
next
  case conf: (Inr conf)
  show thesis
  proof (cases "New (LogLevel conf)")
    case (Inl e)
    then show thesis using conf by (intro failed [of "BadLogLevel e" "[]"]) (simp_all add: run_def)
  next
    case l: (Inr l)
    show thesis
    proof (cases "Open (rt_driver R) (DatabasePath conf)")
      case (Inl e)
      then show thesis using conf l by (intro failed [of "StoreError e" "[]"]) (simp_all add: run_def)
    next
      case d: (Inr d)
      show thesis
      proof (cases rule: serve_until_end_cases [OF R, of conf d, case_names refused served])
        case (refused e lns)
        then have "filter (\<lambda>l. log_msg l = ''request'') (written l lns) = []"
          by (simp add: written_def filter_empty_conv)
        then show thesis
          using refused conf l d by (intro failed [of e "written l lns"])
            (simp_all add: run_def close_store_def split: option.split)
      next
        case (served p j err d' lns)
        then show thesis using conf l d by (intro ran [of conf l d p j err d' lns]) (simp_all add: run_def)
      qed
    qed
  qed
qed

lemma close_store_None: "close_store D (err, d) = None \<Longrightarrow> err = None"
  by (auto simp: close_store_def split: option.splits if_splits)

lemma await_None:
  "await (ending_of e t) = None \<longleftrightarrow> (\<exists>sig sh. e = SignalCame sig sh None \<and> sh t = None)"
proof (cases e)
  case (SignalCame sig sh l)
  then show ?thesis by (cases l; cases "sh t") simp_all
qed simp

text \<open>The ends of a process are those of the transition system.\<close>

lemma ending_of_reached: "\<exists>s. reachable_serving s \<and> main_at s = Returned (await (ending_of e t))"
proof -
  have "ending_of e t \<in> endings"
    by (cases "(e, t)" rule: ending_of.cases) (auto simp: endings_def)
  then have r: "await (ending_of e t) \<in> await ` endings" by blast
  show ?thesis
    using r [unfolded await_endings] listener_error_reached nil_reached shutdown_error_reached by auto
qed

text \<open>C9: The program ends with exit code 0 or 1 and never with a panic, whatever the environment, the
  database, the requests and the signals are. It is 0 for the version flag, and otherwise only when the
  configuration loaded, the log level was understood, the store opened and migrated, the provider and
  the routes were built, and a signal ended the serving, the listener had not failed before, and the
  shutdown was complete within its time.\<close>

theorem main_exit_code:
  assumes "runtime_ok R"
  shows "\<exists>out code. main_program args R = Return (out, code) \<and> code \<le> 1 \<and>
    (length args > 1 \<and> args ! 1 \<in> {''-version'', ''--version''} \<longrightarrow> code = 0 \<and>
       out = Version (rt_build R) @ '' '' @ Commit (rt_build R) @ '' ('' @ BuildTime (rt_build R) @ '')'' @ [CHR 0x0A]) \<and>
    (code = 0 \<and> \<not> (length args > 1 \<and> args ! 1 \<in> {''-version'', ''--version''}) \<longrightarrow>
       (\<exists>conf l d pj. Load (rt_frac R) (rt_environ R) = Inr conf \<and> New (LogLevel conf) = Inr l
          \<and> Open (rt_driver R) (DatabasePath conf) = Inr d
          \<and> NewProvider (ac_Provider (Auth conf)) (settings conf) = Inr pj \<and> rt_templates R = None
          \<and> (\<exists>sig sh. rt_end R = SignalCame sig sh None \<and> sh (ShutdownTimeout conf) = None)))"
proof (cases "length args > 1 \<and> args ! 1 \<in> {''-version'', ''--version''}")
  case True
  then show ?thesis by (auto simp: main_program_def version_line_def version_Info_def)
next
  case flag: False
  show ?thesis
  proof (cases rule: run_cases [OF assms, case_names failed ran])
    case (failed e lns)
    then show ?thesis using flag by (auto simp: main_program_def)
  next
    case (ran conf l d p j err d' lns)
    have "\<exists>sig sh. rt_end R = SignalCame sig sh None \<and> sh (ShutdownTimeout conf) = None"
      if "close_store (rt_driver R) (err, d') = None"
      using close_store_None [OF that] ran(6) by (simp add: await_None)
    then show ?thesis using flag ran by (auto simp: main_program_def)
  qed
qed

text \<open>What the access log holds when the program has served: of the lines of the requests, in order,
  those whose level the setting lets through. Without a setting the level is INFO, so a probe leaves
  no line and every other request one.\<close>

theorem run_access_log:
  assumes "runtime_ok R" and "Load (rt_frac R) (rt_environ R) = Inr conf" and "New (LogLevel conf) = Inr l"
    and "Open (rt_driver R) (DatabasePath conf) = Inr d"
    and "NewProvider (ac_Provider (Auth conf)) (settings conf) = Inr (p, j)" and "rt_templates R = None"
  shows "\<exists>err lns. run R = Return (err, lns)
    \<and> map log_level (filter (\<lambda>x. log_msg x = ''request'') lns)
        = filter (\<lambda>lv. l \<le> level_value lv) (map request_level (rt_requests R))
    \<and> (rt_environ R ''APP_LOG_LEVEL'' = '''' \<longrightarrow> l = 0)"
proof -
  obtain err d' lns where s: "serve_until_end R conf d = Return (err, d', lns)"
      "map log_level (filter (\<lambda>l. log_msg l = ''request'') lns) = map request_level (rt_requests R)"
    using serve_until_end_provider [OF assms(1,5,6)] by blast
  have "rt_environ R ''APP_LOG_LEVEL'' = '''' \<longrightarrow> l = 0"
    using assms(3) by (auto simp: Load_Inr(5) [OF assms(2)] envString_def New_info)
  moreover have "map log_level (filter (\<lambda>x. log_msg x = ''request'') (written l lns))
      = filter (\<lambda>lv. l \<le> level_value lv) (map request_level (rt_requests R))"
    unfolding s(2) [symmetric] by (simp add: written_def filter_map o_def conj_commute)
  ultimately show ?thesis using assms s(1) by (simp add: run_def)
qed

section \<open>A concrete runtime\<close>

definition pomerium_runtime :: "(mem, rat) runtime" where
  "pomerium_runtime =
     \<lparr>rt_environ = pomerium_environ, rt_frac = no_frac, rt_driver = mem_driver, rt_lib = sample_lib, rt_floats = rat_ops,
      rt_codecs = no_codecs, rt_files = no_files, rt_templates = None, rt_build = default_build,
      rt_mux = \<lparr>redirect_status = 307, url_string = (\<lambda>path _. path)\<rparr>,
      rt_requests = [(web_env, web_request ''GET'' ''/healthz'' ''''), (web_env, web_request ''GET'' ''/api/me'' '''')],
      rt_end = SignalCame ''terminated'' (\<lambda>d. if d < second then Some ''context deadline exceeded'' else None) None\<rparr>"

lemma pomerium_runtime_ok: "runtime_ok pomerium_runtime"
  using web_env_ok no_files_ok by (simp add: runtime_ok_def pomerium_runtime_def)

definition pomerium_conf :: Config where
  "pomerium_conf = projr (Load no_frac pomerium_environ)"

lemma pomerium_conf_loads: "Load no_frac pomerium_environ = Inr pomerium_conf"
  using pomerium_loads by (auto simp: pomerium_conf_def)

lemma pomerium_conf_auth: "Auth pomerium_conf = load_auth pomerium_environ" "LogLevel pomerium_conf = ''info''"
  using Load_Inr(2,5) [OF pomerium_conf_loads] by (simp_all add: envString_def pomerium_environ_def)

lemma mem_opens: "\<exists>d. Open mem_driver p = Inr d"
proof -
  obtain sql where fs: "migrationsFS = [(''migrations/0001_config.up.sql'', sql)]" and ne: "sql \<noteq> insert_version_sql"
    using migration_sql by (auto simp: migrationsFS_def)
  have "\<exists>d. migrate mem_driver migrationsFS (fresh_mem []) = (None, d)" using ne unfolding fs by (simp add: mem_eval)
  moreover have "d_exec mem_driver wal_sql [] (fresh_mem []) = (None, fresh_mem [])"
    by (simp add: mem_driver_def mem_exec_def fresh_mem_def mem_fails_def mem_tick_def wal_sql_def create_sql_def
        upsert_sql_def lines_def)
  ultimately show ?thesis
    by (auto simp: Open_def mem_driver_def fresh_mem_def)
qed

lemma pomerium_conf_provider: "ac_Provider (Auth pomerium_conf) = ''pomerium''"
  by (simp add: pomerium_conf_auth load_auth_def envString_def pomerium_environ_def)

lemma pomerium_conf_builds: "\<exists>p j. NewProvider (ac_Provider (Auth pomerium_conf)) (settings pomerium_conf) = Inr (p, j)"
  unfolding pomerium_conf_provider
  by (simp add: NewProvider_def registry_lookup newPomeriumProvider_def settings_def pomerium_conf_auth load_auth_def
      envString_def pomerium_environ_def NewJWTProvider_def AlgES256_def)

lemma pomerium_runtime_fields [simp]:
  "rt_frac pomerium_runtime = no_frac" "rt_environ pomerium_runtime = pomerium_environ"
  "rt_driver pomerium_runtime = mem_driver" "rt_templates pomerium_runtime = None"
  by (simp_all add: pomerium_runtime_def)

text \<open>It serves its requests, a signal comes, and the shutdown is complete: exit code 0.\<close>

lemma pomerium_conf_shutdown: "second \<le> ShutdownTimeout pomerium_conf"
proof -
  have "ShutdownTimeout pomerium_conf = right_or_zero (envDuration no_frac pomerium_environ ''APP_HTTP_SHUTDOWN_TIMEOUT'' (15 * second))"
    using Load_Inr(6) [OF pomerium_conf_loads] by (simp add: duration_fields_def)
  then show ?thesis by (simp add: envDuration_def pomerium_environ_def right_or_zero_def three_seconds Let_def second_def)
qed

lemma pomerium_exits: "main_program [''app''] pomerium_runtime = Return ('''', 0)"
proof -
  obtain p j where p: "NewProvider (ac_Provider (Auth pomerium_conf)) (settings pomerium_conf) = Inr (p, j)"
    using pomerium_conf_builds by blast
  obtain d where d: "Open mem_driver (DatabasePath pomerium_conf) = Inr d" using mem_opens by blast
  have l: "New (LogLevel pomerium_conf) = Inr 0" by (simp add: pomerium_conf_auth New_info)
  obtain d' lns where s: "serve_until_end pomerium_runtime pomerium_conf d
      = Return (await (ending_of (rt_end pomerium_runtime) (ShutdownTimeout pomerium_conf)), d', lns)"
    using serve_until_end_provider [OF pomerium_runtime_ok p] by force
  have "await (ending_of (rt_end pomerium_runtime) (ShutdownTimeout pomerium_conf)) = None"
    using pomerium_conf_shutdown by (simp add: pomerium_runtime_def)
  then have "run pomerium_runtime = Return (None, written 0 lns)"
    using s d l by (simp add: run_def pomerium_conf_loads close_store_def) (simp add: mem_driver_def)
  then show ?thesis by (simp add: main_program_def)
qed

theorem main_exit_code_witness:
  "main_program [''app''] pomerium_runtime = Return ('''', 0)
    \<and> (\<exists>conf sig sh. Load no_frac pomerium_environ = Inr conf
        \<and> rt_end pomerium_runtime = SignalCame sig sh None \<and> sh (ShutdownTimeout conf) = None)"
  using main_exit_code [OF pomerium_runtime_ok, of "[''app'']"] pomerium_exits by auto

theorem loaded_provider_witness:
  "\<forall>e. NewProvider ''pomerium'' (settings pomerium_conf) \<noteq> Inl e"
proof -
  have "pc_Algorithm (ac_Pomerium (Auth pomerium_conf)) = AlgES256"
    by (simp add: pomerium_conf_auth load_auth_def envString_def pomerium_environ_def AlgES256_def)
  with loaded_provider [OF pomerium_conf_loads] pomerium_conf_provider show ?thesis by simp
qed

theorem run_access_log_witness:
  "\<exists>err lns. run pomerium_runtime = Return (err, lns)
    \<and> map log_level (filter (\<lambda>x. log_msg x = ''request'') lns) = [Info]"
proof -
  obtain p j where p: "NewProvider (ac_Provider (Auth pomerium_conf)) (settings pomerium_conf) = Inr (p, j)"
    using pomerium_conf_builds by blast
  obtain d where d: "Open mem_driver (DatabasePath pomerium_conf) = Inr d" using mem_opens by blast
  have l: "New (LogLevel pomerium_conf) = Inr 0" by (simp add: pomerium_conf_auth New_info)
  have reqs: "map request_level (rt_requests pomerium_runtime) = [Debug, Info]"
    by (simp add: pomerium_runtime_def request_level_def web_request_def sample_request_def)
  have "\<exists>err lns. run pomerium_runtime = Return (err, lns)
    \<and> map log_level (filter (\<lambda>x. log_msg x = ''request'') lns)
        = filter (\<lambda>lv. 0 \<le> level_value lv) (map request_level (rt_requests pomerium_runtime))
    \<and> (rt_environ pomerium_runtime ''APP_LOG_LEVEL'' = '''' \<longrightarrow> (0::int) = 0)"
    by (rule run_access_log [OF pomerium_runtime_ok _ l _ p]) (simp_all add: pomerium_conf_loads d)
  then show ?thesis unfolding reqs by simp
qed

end
