(* ===== verification/Mutation.thy ===== *)
theory Mutation
  imports RouteProperties
begin

text \<open>
  The two mutations of the program, \<open>PUT /api/config/{key}\<close> and \<open>PUT /ui/config/{key}\<close>, pass the same
  guards. Here is what they share: the paths of a key, how the muxes match them, the decision table of
  the guards, and the locale \<open>mutation\<close>, which proves once that the tree of Routes.thy computes that
  table around whatever the handler of the route answers.
\<close>

section \<open>Routing a key\<close>

definition mutation_path :: "string \<Rightarrow> string \<Rightarrow> string" where
  "mutation_path pre key = CHR ''/'' # pre @ ''/config/'' @ key"

text \<open>A key is one path segment that needs no escaping and no cleaning.\<close>

lemma key_chars:
  assumes "ValidConfigKey key"
  shows "key \<noteq> ''''" "CHR ''/'' \<notin> set key" "CHR ''%'' \<notin> set key" "CHR ''.'' \<notin> set key" "last key \<noteq> CHR ''/''"
proof -
  show ne: "key \<noteq> ''''" and slash: "CHR ''/'' \<notin> set key" and "CHR ''%'' \<notin> set key" and "CHR ''.'' \<notin> set key"
    using assms by (auto simp: ValidConfigKey_def list_all_iff is_key_char_def char_bytes byte_of_def)
  show "last key \<noteq> CHR ''/''" using last_in_set [OF ne] slash by metis
qed

lemma percent_decode_plain: "CHR ''%'' \<notin> set s \<Longrightarrow> percent_decode s = Some s"
  by (induction s) auto

lemma split_slash_plain: "CHR ''/'' \<notin> set s \<Longrightarrow> split_slash s = [s]"
  by (induction s) auto

lemma no_slash_while:
  assumes "CHR ''/'' \<notin> set s"
  shows "takeWhile (\<lambda>c. c \<noteq> CHR ''/'') s = s" "dropWhile (\<lambda>c. c \<noteq> CHR ''/'') s = []"
  using assms by (induction s) auto

text \<open>Below \<open>pre\<close>, which is \<open>api\<close> or \<open>ui\<close>.\<close>

lemma mutation_segments:
  assumes "ValidConfigKey key" and "pre \<in> {''api'', ''ui''}"
  shows "firstSegment (mutation_path pre key) = (pre, ''/config/'' @ key)"
    "firstSegment (mutation_path pre key @ ''/'') = (pre, ''/config/'' @ key @ ''/'')"
    "firstSegment (''/config/'' @ key) = (''config'', CHR ''/'' # key)"
    "firstSegment (CHR ''/'' # key) = (key, '''')"
  using key_chars [OF assms(1)] assms(2)
  by (auto simp: firstSegment_def mutation_path_def path_unescape_def percent_decode_plain no_slash_while)

lemma clean_mutation_path:
  assumes "ValidConfigKey key" and "pre \<in> {''api'', ''ui''}"
  shows "cleanPath (mutation_path pre key) = mutation_path pre key"
proof -
  note k = key_chars [OF assms(1)]
  have "key \<noteq> ''.''" "key \<noteq> ''..''" using k(4) by auto
  moreover have "split_slash (mutation_path pre key) = ['''', pre, ''config'', key]"
    using k(2) assms(2) by (auto simp: mutation_path_def split_slash_plain)
  moreover have "last (mutation_path pre key) \<noteq> CHR ''/''"
    using k(1,5) by (simp add: mutation_path_def)
  ultimately show ?thesis using k(1) assms(2) by (auto simp: cleanPath_def mutation_path_def)
qed

section \<open>Matching\<close>

lemma match_path_empty [simp]: "match_path [] path ms = None"
  by (simp add: match_path.simps)

text \<open>One step down a literal or a wildcard, and the end.\<close>

lemma match_path_lit:
  "path \<noteq> '''' \<Longrightarrow> match_path (below (Lit (fst (firstSegment path))) n) (snd (firstSegment path)) ms = Some x
    \<Longrightarrow> match_path n path ms = Some x"
  by (cases "n = []") (simp_all add: match_path.simps [of n path])

lemma match_path_wild:
  "path \<noteq> '''' \<Longrightarrow> below (Lit (fst (firstSegment path))) n = [] \<Longrightarrow> fst (firstSegment path) \<noteq> ''/'' \<Longrightarrow>
    match_path (below (Wild '''') n) (snd (firstSegment path)) (ms @ [fst (firstSegment path)]) = Some x
    \<Longrightarrow> match_path n path ms = Some x"
  by (cases "n = []") (simp_all add: match_path.simps [of n path])

lemma match_path_rest:
  "n \<noteq> [] \<Longrightarrow> path \<noteq> '''' \<Longrightarrow> below (Lit (fst (firstSegment path))) n = [] \<Longrightarrow> below (Wild '''') n = []
    \<Longrightarrow> multi n = Some ('''', p) \<Longrightarrow> match_path n path ms = Some (p, ms)"
  by (simp add: match_path.simps [of n path])

lemma match_path_leaf: "leaf n = Some p \<Longrightarrow> match_path n '''' ms = Some (p, ms)"
  by (cases "n = []") (simp_all add: match_path.simps [of n "''''"])

text \<open>Down to the last segment of a key's path.\<close>

lemma match_key:
  assumes key: "ValidConfigKey key" and pre: "pre \<in> {''api'', ''ui''}"
  shows "match_path [([Lit pre, Lit ''config'', Wild ''key''], p)] (mutation_path pre key) [] = Some (p, [key])"
proof -
  note s = mutation_segments [OF key pre]
  have "key \<noteq> ''/''" using key_chars(2) [OF key] by auto
  then have "match_path [([Wild ''key''], p)] (CHR ''/'' # key) [] = Some (p, [key])"
    using match_path_wild [of "CHR ''/'' # key" "[([Wild ''key''], p)]" "[]"] by (simp add: s match_path_leaf)
  then have "match_path [([Lit ''config'', Wild ''key''], p)] (''/config/'' @ key) [] = Some (p, [key])"
    using match_path_lit [of "''/config/'' @ key" "[([Lit ''config'', Wild ''key''], p)]" "[]"]
    unfolding s fst_conv snd_conv by simp
  then show ?thesis
    using match_path_lit [of "mutation_path pre key" "[([Lit pre, Lit ''config'', Wild ''key''], p)]" "[]"]
    unfolding s fst_conv snd_conv by (simp add: mutation_path_def)
qed

text \<open>A match that is not redirected is served.\<close>

lemma mux_serve_match:
  assumes "RawPath r \<noteq> ''*''" and "cleanPath (RawPath r) = RawPath r" and "Method r \<noteq> ''CONNECT''"
    and "trailing_redirect mx (Method r) (RawPath r) = None"
    and "match_method mx (Method r) (RawPath r) = Some (q, ms)"
  shows "mux_serve U mx r w = pat_handler q (r\<lparr>Pattern := pat_str q, PathValues := zip (wild_names (pat_segs q)) ms\<rparr>) w"
  using assms by (simp add: mux_serve_def findHandler_def found_of_def Let_def)

lemma root_nodes:
  "root_node (root_mux A E) ''PUT'' = []"
  "root_node (root_mux A E) '''' = [([Lit ''static'', Rest ''''], mk_pattern ''/static/'' (app_static A)),
     ([Rest ''''], mk_pattern ''/'' (authed_chain A E))]"
  by (simp_all add: root_node_def root_mux_def)

text \<open>What is not a static file goes to the chain.\<close>

lemma put_match_root:
  assumes seg: "fst (firstSegment path) \<in> {''api'', ''ui''}" and "path \<noteq> ''''"
  shows "match_method (root_mux A E) ''PUT'' path = Some (mk_pattern ''/'' (authed_chain A E), [])"
proof -
  have "match_path (root_node (root_mux A E) '''') path [] = Some (mk_pattern ''/'' (authed_chain A E), [])"
    unfolding root_nodes using assms by (intro match_path_rest) auto
  then show ?thesis by (simp add: match_method_def root_nodes)
qed

definition mutation_request :: "string \<Rightarrow> string \<Rightarrow> request \<Rightarrow> bool" where
  "mutation_request pre key r \<longleftrightarrow> ValidConfigKey key \<and> Method r = ''PUT'' \<and> RawPath r = mutation_path pre key"

lemma mutation_request_parts [simp]:
  "mutation_request pre key (r\<lparr>Body := b\<rparr>) = mutation_request pre key r"
  "mutation_request pre key (r\<lparr>Ctx := c\<rparr>) = mutation_request pre key r"
  "mutation_request pre key (r\<lparr>Pattern := pat, PathValues := vals\<rparr>) = mutation_request pre key r"
  "mutation_request pre key (with_id buf r) = mutation_request pre key r"
  by (simp_all add: mutation_request_def)

lemma mutation_root:
  assumes "mutation_request pre key r" and pre: "pre \<in> {''api'', ''ui''}"
  shows "mux_serve U (root_mux A E) r w = authed_chain A E (r\<lparr>Pattern := ''/'', PathValues := []\<rparr>) w"
proof -
  have key: "ValidConfigKey key" and r: "Method r = ''PUT''" "RawPath r = mutation_path pre key"
    using assms(1) by (simp_all add: mutation_request_def)
  note s = mutation_segments [OF key pre]
  have ne: "mutation_path pre key \<noteq> ''''" "last (mutation_path pre key) \<noteq> CHR ''/''"
    using key_chars(1,5) [OF key] by (simp_all add: mutation_path_def)
  have m: "match_method (root_mux A E) ''PUT'' (mutation_path pre key) = Some (mk_pattern ''/'' (authed_chain A E), [])"
    "match_method (root_mux A E) ''PUT'' (mutation_path pre key @ ''/'') = Some (mk_pattern ''/'' (authed_chain A E), [])"
    using put_match_root [of "mutation_path pre key" A E] put_match_root [of "mutation_path pre key @ ''/''" A E] ne pre
    unfolding s by auto
  have "filter (\<lambda>c. c = CHR ''/'') (mutation_path pre key @ ''/'') = ''////''"
    using key_chars(2) [OF key] pre by (auto simp: mutation_path_def filter_empty_conv)
  then have "trailing_redirect (root_mux A E) ''PUT'' (mutation_path pre key) = None"
    using m ne by (simp add: trailing_redirect_def exactMatch_def is_multi_def)
  then show ?thesis
    using m clean_mutation_path [OF key pre] r
    by (subst mux_serve_match) (auto simp: mutation_path_def)
qed

section \<open>The decision table\<close>

text \<open>
  The status and the database after the request. \<open>who\<close> is the provider's answer, \<open>admit\<close> the rate
  limiter's, and \<open>tab\<close> the table of the handler, for a principal with the role.
\<close>

definition mutation_answer ::
  "(principal \<Rightarrow> request \<Rightarrow> 'd \<Rightarrow> nat \<times> 'd) \<Rightarrow> request \<Rightarrow> auth_error + principal \<Rightarrow> bool \<Rightarrow> 'd \<Rightarrow> nat \<times> 'd" where
  "mutation_answer tab r who admit d =
     (if \<not> csrf_passes r then (403, d)
      else case who of
        Inl _ \<Rightarrow> (401, d)
      | Inr q \<Rightarrow>
          if \<not> admit then (429, d)
          else if \<not> HasRole q ''admin'' then (403, d)
          else tab q (r\<lparr>Body := MaxBytesReader maxRequestBodyBytes (Body r)\<rparr>) d)"

text \<open>What a world shows of the answer, and that the metrics and the keys have not been touched meanwhile.\<close>

definition answered :: "nat \<times> 'd \<Rightarrow> ('d, 'f) world \<Rightarrow> ('d, 'f) world \<Rightarrow> bool" where
  "answered x w w' \<longleftrightarrow> (\<exists>h. wrote w' = Some (fst x, h)) \<and> database w' = snd x \<and> metrics w' = metrics w
     \<and> key_cache w' = key_cache w"

lemma answered_problem [simp]:
  "wrote w = None \<Longrightarrow> answered x w0 (WriteProblem st t det w) \<longleftrightarrow>
     st = fst x \<and> database w = snd x \<and> metrics w = metrics w0 \<and> key_cache w = key_cache w0"
  by (auto simp: answered_def)

section \<open>Through the middlewares\<close>

text \<open>The two verdicts exist: neither the provider nor the limiter panics.\<close>

lemma put_verdicts:
  assumes A: "app_ok L p A" and E: "env_ok E" and w: "world_ok (app_metrics A) (env_rl_now E) w"
  obtains who c admit where "Authenticate L p (env_auth E) r (key_cache w) = Return (who, c)"
    "\<forall>q. who = Inr q \<longrightarrow> (\<exists>rl. allow (env_rl_order E) (env_rl_now E) (Subject q) (limiter w) = Return (admit, rl))"
proof -
  have ok: "rely (ae_key (env_auth E))" "client_ok (key_cache w) \<and> registered p" "range_order (env_rl_order E)"
      "0 < env_rl_now E" "rl_ok (env_rl_now E) (limiter w)"
    using A E w by (simp_all add: env_ok_def app_ok_def world_ok_def)
  obtain who c where who: "Authenticate L p (env_auth E) r (key_cache w) = Return (who, c)"
    using jwt.auth_returns [OF ok(1,2)] by blast
  show thesis
  proof (cases who)
    case (Inl e)
    then show thesis using that who by auto
  next
    case (Inr q)
    have s: "Subject q \<noteq> ''''" using jwt.auth_subject [OF ok(1,2)] who Inr by blast
    obtain admit rl where "allow (env_rl_order E) (env_rl_now E) (Subject q) (limiter w) = Return (admit, rl)"
      by (rule allow_ok [OF ok(3,5) order_refl ok(4) s])
    with Inr who show thesis by (intro that [of who c admit]) auto
  qed
qed

text \<open>
  A mutation: requests that the muxes lead to a handler behind the admin guards, and what that handler
  answers, as a function of the head and the body of the request.
\<close>

locale mutation =
  fixes A :: "('d, 'f) app" and E :: "'f env" and req :: "request \<Rightarrow> bool"
    and pat :: string and vals :: "(string \<times> string) list"
    and h :: "('d, 'f) world handler" and tab :: "principal \<Rightarrow> request \<Rightarrow> 'd \<Rightarrow> nat \<times> 'd"
  assumes put: "req r \<Longrightarrow> Method r = ''PUT''"
    and head: "Method r' = Method r \<Longrightarrow> RawPath r' = RawPath r \<Longrightarrow> req r' = req r"
    and root: "req r \<Longrightarrow> mux_serve (app_mux A) (root_mux A E) r w = authed_chain A E (r\<lparr>Pattern := ''/'', PathValues := []\<rparr>) w"
    and authed: "req r \<Longrightarrow> authed_handler A E r w = admin_chain E h (r\<lparr>Pattern := pat, PathValues := vals\<rparr>) w"
    and tab_head: "Method r' = Method r \<Longrightarrow> Header r' = Header r \<Longrightarrow> RawQuery r' = RawQuery r \<Longrightarrow> Body r' = Body r
      \<Longrightarrow> tab q r' = tab q r"
    and handles: "req r \<Longrightarrow> PrincipalFromContext (Ctx r) = Some q \<Longrightarrow> wrote w = None \<Longrightarrow>
      \<exists>w'. h (r\<lparr>Pattern := pat, PathValues := vals\<rparr>) w = Done (r\<lparr>Pattern := pat, PathValues := vals\<rparr>) w'
        \<and> answered (tab q r (database w)) w w'"
begin

lemma req_parts [simp]:
  "req (r\<lparr>Body := b\<rparr>) = req r" "req (r\<lparr>Ctx := c\<rparr>) = req r" "req (with_id buf r) = req r"
  "req (r\<lparr>Pattern := p, PathValues := vs\<rparr>) = req r"
  by (rule head; simp)+

lemma admin_answer:
  assumes r: "req r" and p: "PrincipalFromContext (Ctx r) = Some q" and fresh: "wrote w = None"
    and rl: "allow (env_rl_order E) (env_rl_now E) (Subject q) (limiter w) = Return (admit, rl)"
  shows "\<exists>r' w'. authed_handler A E r w = Done r' w' \<and> answered
    (if \<not> admit then (429, database w) else if \<not> HasRole q ''admin'' then (403, database w)
     else tab q r (database w)) w w'"
proof -
  let ?r = "r\<lparr>Pattern := pat, PathValues := vals\<rparr>" and ?w = "w\<lparr>limiter := rl\<rparr>"
  have h: "authed_handler A E r w = (if \<not> admit then Done ?r (WriteProblem 429 (StatusText 429) '''' ?w)
      else RequireRole ''admin'' h ?r ?w)"
    unfolding authed [OF r] by (simp add: admin_chain_def adminMiddleware_def p rl)
  have role: "has_role_in ''admin'' ?r \<longleftrightarrow> HasRole q ''admin''" by (simp add: has_role_in_def p)
  have fresh': "wrote ?w = None" using fresh by simp
  obtain w' where "h ?r ?w = Done ?r w'" "answered (tab q r (database ?w)) ?w w'"
    using handles [OF r p fresh'] by blast
  then show ?thesis
    using fresh by (cases "HasRole q ''admin''") (auto simp: h role.pass role.stop role answered_def)
qed

lemma auth_answer:
  assumes r: "req r" and fresh: "wrote w = None"
    and who: "Authenticate L p (env_auth E) r (key_cache w) = Return (who, c)"
    and rl: "\<And>q. who = Inr q \<Longrightarrow> \<exists>rl. allow (env_rl_order E) (env_rl_now E) (Subject q) (limiter w) = Return (admit, rl)"
  shows "\<exists>r' w'. Middleware (authenticate_world L p (env_auth E)) (authed_handler A E) r w = Done r' w' \<and> answered
    (case who of Inl _ \<Rightarrow> (401, database w)
     | Inr q \<Rightarrow> if \<not> admit then (429, database w) else if \<not> HasRole q ''admin'' then (403, database w)
         else tab q r (database w)) (w\<lparr>key_cache := c\<rparr>) w'"
proof -
  have a: "authenticate_world L p (env_auth E) r w = Return (who, w\<lparr>key_cache := c\<rparr>)"
    using who by (simp add: authenticate_world_def)
  show ?thesis
  proof (cases who)
    case (Inl e)
    then show ?thesis using a fresh by (auto simp: Middleware_def auth_refusal_def answered_def)
  next
    case (Inr q)
    obtain rl' where rl': "allow (env_rl_order E) (env_rl_now E) (Subject q) (limiter (w\<lparr>key_cache := c\<rparr>)) = Return (admit, rl')"
      using rl [OF Inr] by auto
    let ?r = "r\<lparr>Ctx := WithPrincipal (Ctx r) q\<rparr>"
    have "req ?r" "PrincipalFromContext (Ctx ?r) = Some q" "wrote (w\<lparr>key_cache := c\<rparr>) = None"
      using r fresh by simp_all
    moreover have "tab q ?r = tab q r" by (rule tab_head) simp_all
    ultimately show ?thesis using admin_answer [of ?r q "w\<lparr>key_cache := c\<rparr>", OF _ _ _ rl'] Inr a
      by (auto simp: Middleware_def serve_with_ctx_def answered_def)
  qed
qed

lemma answer_head:
  assumes "Method r' = Method r" "Header r' = Header r" "RawQuery r' = RawQuery r" "Body r' = Body r"
  shows "mutation_answer tab r' = mutation_answer tab r"
proof (intro ext)
  fix who admit d
  let ?b = "\<lambda>r :: request. r\<lparr>Body := MaxBytesReader maxRequestBodyBytes (Body r)\<rparr>"
  have "csrf_passes r' = csrf_passes r" using assms by (simp add: csrf_passes_def)
  moreover have "tab q (?b r') = tab q (?b r)" for q using assms by (intro tab_head) simp_all
  ultimately show "mutation_answer tab r' who admit d = mutation_answer tab r who admit d"
    by (simp add: mutation_answer_def split: sum.split)
qed

lemma chain_answer:
  assumes A: "app_ok L p A" and w: "world_ok (app_metrics A) t w"
    and r: "req r" and pat: "Pattern r = ''/''" and fresh: "wrote w = None"
    and who: "Authenticate L p (env_auth E) r (key_cache w) = Return (who, c)"
    and rl: "\<And>q. who = Inr q \<Longrightarrow> \<exists>rl. allow (env_rl_order E) (env_rl_now E) (Subject q) (limiter w) = Return (admit, rl)"
  shows "\<exists>r' w'. authed_chain A E r w = Done r' w' \<and> status_of w' = fst (mutation_answer tab r who admit (database w))
    \<and> database w' = snd (mutation_answer tab r who admit (database w)) \<and> key_cache w' \<in> {key_cache w, c}"
proof -
  let ?nxt = "maxBody (csrf (Middleware (app_auth A (env_auth E)) (authed_handler A E)))"
  let ?ans = "mutation_answer tab r who admit (database w)"
  let ?r = "r\<lparr>Body := MaxBytesReader maxRequestBodyBytes (Body r)\<rparr>"
  have m: "http_metrics_ok (app_metrics A) (metrics w)" using w by (simp add: world_ok_def)
  have auth: "app_auth A = authenticate_world L p" using A by (simp add: app_ok_def)
  have put: "\<not> is_read_method (Method r)" using put [OF r] by (simp add: is_read_method_def)
  have csrf': "csrf_passes ?r = csrf_passes r" by (simp add: csrf_passes_def)
  obtain reg reg' r2 w2 where q: "\<exists>h. wrote w2 = Some (fst ?ans, h)" "database w2 = snd ?ans" "key_cache w2 \<in> {key_cache w, c}"
      "metricsMiddleware (app_floats A) (app_metrics A) E ?nxt r w = Done r2 ((pop_recorder w2)\<lparr>metrics := reg'\<rparr>)"
  proof (rule metrics_run [OF m, of ?nxt r "\<lambda>reg r2 w2. (\<exists>h. wrote w2 = Some (fst ?ans, h)) \<and> database w2 = snd ?ans
        \<and> key_cache w2 \<in> {key_cache w, c}" "app_floats A" E])
    fix reg :: "'f registry" assume reg: "http_metrics_ok (app_metrics A) reg"
    let ?w = "push_recorder (w\<lparr>metrics := reg\<rparr>)"
    have "\<exists>r2 w2 c'. ?nxt r ?w = Done r2 w2 \<and> answered ?ans (?w\<lparr>key_cache := c'\<rparr>) w2 \<and> c' \<in> {key_cache w, c}"
    proof (cases "csrf_passes r")
      case False
      then show ?thesis using put fresh csrf'
        by (intro exI [of _ ?r] exI [of _ "WriteProblem 403 (StatusText 403) '''' ?w"] exI [of _ "key_cache w"])
          (auto simp: maxBody_def csrf.stop mutation_answer_def)
    next
      case True
      have "Authenticate L p (env_auth E) ?r (key_cache ?w) = Return (who, c)"
        using who Authenticate_head [of ?r r] by simp
      from auth_answer [OF _ _ this, of admit] r fresh rl put True csrf'
      show ?thesis by (auto simp: maxBody_def csrf.pass mutation_answer_def auth split: sum.splits)
    qed
    then obtain r2 w2 c' where h: "?nxt r ?w = Done r2 w2" "answered ?ans (?w\<lparr>key_cache := c'\<rparr>) w2" "c' \<in> {key_cache w, c}"
      by blast
    have "Pattern r2 = ''/''" using chain_pattern [OF h(1)] pat by simp
    then show "\<exists>r2 w2. ?nxt r ?w = Done r2 w2 \<and> Pattern r2 = ''/'' \<and> http_metrics_ok (app_metrics A) (metrics w2)
        \<and> (\<exists>h. wrote w2 = Some (fst ?ans, h)) \<and> database w2 = snd ?ans \<and> key_cache w2 \<in> {key_cache w, c}"
      using h reg by (auto simp: answered_def)
  qed blast
  then show ?thesis by (auto simp: authed_chain_def status_of_def)
qed

lemma routes_answer:
  assumes A: "app_ok L p A" and w: "world_ok (app_metrics A) t w"
    and fresh: "wrote w = None" and rand: "env_rand E \<noteq> None" and r: "req r"
    and who: "Authenticate L p (env_auth E) r (key_cache w) = Return (who, c)"
    and rl: "\<forall>q. who = Inr q \<longrightarrow> (\<exists>rl. allow (env_rl_order E) (env_rl_now E) (Subject q) (limiter w) = Return (admit, rl))"
  shows "\<exists>w'. Routes A E r w = Done r w' \<and> (status_of w', database w') = mutation_answer tab r who admit (database w)
    \<and> key_cache w' \<in> {key_cache w, c}"
proof -
  obtain buf where buf: "env_rand E = Some buf" using rand by auto
  let ?r = "(with_id buf r)\<lparr>Pattern := ''/'', PathValues := []\<rparr>" and ?w = "prepared A buf r w"
  have pre: "wrote ?w = None" "database ?w = database w" "limiter ?w = limiter w"
      "world_ok (app_metrics A) t ?w" "key_cache ?w = key_cache w"
    using fresh prepared_shared [where A = A and buf = buf and r = r and w = w] world_ok_shared [OF w prepared_shared(1)]
    by (simp_all add: same_shared_def)
  have who': "Authenticate L p (env_auth E) ?r (key_cache ?w) = Return (who, c)"
    using who Authenticate_head [of ?r r] pre(5) by simp
  obtain r' w' where h: "authed_chain A E ?r ?w = Done r' w'"
      "status_of w' = fst (mutation_answer tab ?r who admit (database ?w))" "database w' = snd (mutation_answer tab ?r who admit (database ?w))"
      "key_cache w' \<in> {key_cache w, c}"
    using chain_answer [OF A pre(4) _ _ pre(1) who', of admit] r rl pre(3,5) by auto
  have "mux_serve (app_mux A) (root_mux A E) (with_id buf r) ?w = Done r' w'"
    using root [of "with_id buf r" ?w] r h(1) by simp
  from Routes_outer [OF buf this] obtain lv where
    "Routes A E r w = Done r (log_to lv ''request'' (access_attrs E r' (recorded_status w')) (pop_recorder w'))" by blast
  moreover have "mutation_answer tab ?r = mutation_answer tab r" by (rule answer_head) (simp_all add: with_id_def)
  ultimately show ?thesis using h(2-4) pre(2) by (auto simp: status_of_def)
qed

text \<open>The whole decision, with the two verdicts.\<close>

lemma decided:
  assumes A: "app_ok L p A" and E: "env_ok E" and w: "world_ok (app_metrics A) (env_rl_now E) w"
    and fresh: "wrote w = None" and rand: "env_rand E \<noteq> None" and r: "req r"
  shows "\<exists>who c admit w'. Authenticate L p (env_auth E) r (key_cache w) = Return (who, c)
    \<and> (\<forall>q. who = Inr q \<longrightarrow> (\<exists>rl. allow (env_rl_order E) (env_rl_now E) (Subject q) (limiter w) = Return (admit, rl)))
    \<and> Routes A E r w = Done r w'
    \<and> (status_of w', database w') = mutation_answer tab r who admit (database w)"
proof -
  obtain who c admit where v: "Authenticate L p (env_auth E) r (key_cache w) = Return (who, c)"
      "\<forall>q. who = Inr q \<longrightarrow> (\<exists>rl. allow (env_rl_order E) (env_rl_now E) (Subject q) (limiter w) = Return (admit, rl))"
    by (rule put_verdicts [OF A E w, of r])
  with routes_answer [OF A w fresh rand r v] show ?thesis by blast
qed

end

end
