(* ===== verification/PutConfig.thy ===== *)
theory PutConfig
  imports Mutation
begin

text \<open>
  The mutations from end to end: what a request for \<open>PUT /api/config/{key}\<close> or \<open>PUT /ui/config/{key}\<close> is
  answered and what it does to the database, as one decision table each, and the interpretations of
  the locale \<open>mutation\<close> by which the whole tree of Routes.thy (two or three muxes, eight middlewares and
  the handler) computes them.
\<close>

section \<open>The JSON route\<close>

definition put_request :: "string \<Rightarrow> request \<Rightarrow> bool" where
  "put_request = mutation_request ''api''"

lemma authed_put_nodes:
  "root_node (authed_mux A E) ''PUT'' = [([Lit ''api'', Lit ''config'', Wild ''key''],
     mk_pattern ''PUT /api/config/{key}'' (admin_chain E (putConfig (app_driver A) (app_codecs A))))]"
  "root_node (authed_mux A E) '''' = [([Rest ''''], mk_pattern ''/'' (mux_serve (app_mux A) (ui_mux A E)))]"
  by (simp_all add: root_node_def authed_mux_def)

text \<open>A mux whose table for the method holds the key's pattern serves its handler.\<close>

lemma mux_serve_key:
  assumes key: "mutation_request pre key r" and pre: "pre \<in> {''api'', ''ui''}"
    and node: "root_node mx ''PUT'' = [([Lit pre, Lit ''config'', Wild ''key''], q)]"
    and q: "pat_segs q = [Lit pre, Lit ''config'', Wild ''key'']"
  shows "mux_serve U mx r w = pat_handler q (r\<lparr>Pattern := pat_str q, PathValues := [(''key'', key)]\<rparr>) w"
proof -
  have k: "ValidConfigKey key" and r: "Method r = ''PUT''" "RawPath r = mutation_path pre key"
    using key by (simp_all add: mutation_request_def)
  have m: "match_method mx ''PUT'' (mutation_path pre key) = Some (q, [key])"
    by (simp add: match_method_def node match_key [OF k pre])
  then have "trailing_redirect mx ''PUT'' (mutation_path pre key) = None"
    by (simp add: trailing_redirect_def exactMatch_def is_multi_def q)
  then show ?thesis
    using m clean_mutation_path [OF k pre] r q by (subst mux_serve_match) (auto simp: mutation_path_def)
qed

lemma put_authed:
  assumes "put_request key r"
  shows "authed_handler A E r w = admin_chain E (putConfig (app_driver A) (app_codecs A))
    (r\<lparr>Pattern := ''PUT /api/config/{key}'', PathValues := [(''key'', key)]\<rparr>) w"
  using assms unfolding authed_handler_def put_request_def
  by (subst mux_serve_key [OF _ _ authed_put_nodes(1)]) simp_all

text \<open>The table of the handler, and of the route.\<close>

definition put_store :: "'d driver \<Rightarrow> codecs \<Rightarrow> string \<Rightarrow> header \<Rightarrow> body \<Rightarrow> 'd \<Rightarrow> nat \<times> 'd" where
  "put_store D C key hs b d =
     (if snd (media_type C (header_get hs ''Content-Type''))
         \<or> fst (media_type C (header_get hs ''Content-Type'')) \<noteq> ''application/json'' then (415, d)
      else case decode_setConfigBody C b of
        Inl MaxBytesError \<Rightarrow> (413, d)
      | Inl OtherReadError \<Rightarrow> (400, d)
      | Inr v \<Rightarrow> (case SetConfig D key v d of (Some _, d') \<Rightarrow> (500, d') | (None, d') \<Rightarrow> (200, d')))"

definition put_answer ::
  "('d, 'f) app \<Rightarrow> string \<Rightarrow> request \<Rightarrow> auth_error + principal \<Rightarrow> bool \<Rightarrow> 'd \<Rightarrow> nat \<times> 'd" where
  "put_answer A key = mutation_answer (\<lambda>q r. put_store (app_driver A) (app_codecs A) key (Header r) (Body r))"

lemma putConfig_answer:
  assumes "PathValue r ''key'' = key" and "ValidConfigKey key" and fresh: "wrote w = None"
  shows "\<exists>w'. putConfig D C r w = Done r w' \<and> answered (put_store D C key (Header r) (Body r) (database w)) w w'"
proof (cases "snd (media_type C (header_get (Header r) ''Content-Type''))
    \<or> fst (media_type C (header_get (Header r) ''Content-Type'')) \<noteq> ''application/json''")
  case True
  then show ?thesis using assms
    by (auto simp: putConfig_def put_store_def problem_def case_prod_beta)
next
  case media: False
  show ?thesis
  proof (cases "decode_setConfigBody C (Body r)")
    case (Inl e)
    then show ?thesis using assms media
      by (cases e) (auto simp: putConfig_def put_store_def problem_def case_prod_beta log_error_def IsRequestEntityTooLarge_def)
  next
    case (Inr v)
    obtain e d where "SetConfig D key v (database w) = (e, d)" by fastforce
    then show ?thesis using assms media Inr
      by (cases e) (auto simp: putConfig_def put_store_def problem_def case_prod_beta log_error_def log_changed_def
          on_database_def writeJSON_def answered_def)
  qed
qed

interpretation api_put: mutation A E "put_request key" "''PUT /api/config/{key}''" "[(''key'', key)]"
  "putConfig (app_driver A) (app_codecs A)" "\<lambda>q r. put_store (app_driver A) (app_codecs A) key (Header r) (Body r)"
  for A E key
proof unfold_locales
  fix r :: request and q :: principal and w :: "('a, 'b) world"
  assume r: "put_request key r" and "wrote w = None"
  let ?r = "r\<lparr>Pattern := ''PUT /api/config/{key}'', PathValues := [(''key'', key)]\<rparr>"
  have "PathValue ?r ''key'' = key" "ValidConfigKey key"
    using r by (simp_all add: PathValue_def put_request_def mutation_request_def)
  from putConfig_answer [OF this \<open>wrote w = None\<close>]
  show "\<exists>w'. putConfig (app_driver A) (app_codecs A) ?r w = Done ?r w'
      \<and> answered (put_store (app_driver A) (app_codecs A) key (Header r) (Body r) (database w)) w w'"
    by simp
qed (auto simp: put_authed put_request_def mutation_request_def intro!: mutation_root)

section \<open>The form route\<close>

definition ui_put_request :: "string \<Rightarrow> request \<Rightarrow> bool" where
  "ui_put_request = mutation_request ''ui''"

lemma ui_authed:
  assumes "ui_put_request key r"
  shows "authed_handler A E r w = admin_chain E (ui_putConfig (app_codecs A) (app_model A))
    (r\<lparr>Pattern := ''PUT /ui/config/{key}'', PathValues := [(''key'', key)]\<rparr>) w"
proof -
  have key: "ValidConfigKey key" and r: "Method r = ''PUT''" "RawPath r = mutation_path ''ui'' key"
    using assms by (simp_all add: ui_put_request_def mutation_request_def)
  note s = mutation_segments [OF key, of "''ui''"]
  have ne: "mutation_path ''ui'' key \<noteq> ''''" by (simp add: mutation_path_def)
  have lit: "match_path (root_node (authed_mux A E) ''PUT'') path [] = None" if "fst (firstSegment path) = ''ui''" "path \<noteq> ''''" for path
    unfolding authed_put_nodes using that by (simp add: match_path.simps [of "_ # _" path])
  have m: "match_method (authed_mux A E) ''PUT'' path = Some (mk_pattern ''/'' (mux_serve (app_mux A) (ui_mux A E)), [])"
    if "fst (firstSegment path) = ''ui''" "path \<noteq> ''''" for path
  proof -
    have "match_path (root_node (authed_mux A E) '''') path [] = Some (mk_pattern ''/'' (mux_serve (app_mux A) (ui_mux A E)), [])"
      unfolding authed_put_nodes using that by (intro match_path_rest) auto
    then show ?thesis using lit [OF that] by (simp add: match_method_def)
  qed
  have "filter (\<lambda>c. c = CHR ''/'') (mutation_path ''ui'' key @ ''/'') = ''////''"
    using key_chars(2) [OF key] by (auto simp: mutation_path_def filter_empty_conv)
  moreover have m': "match_method (authed_mux A E) ''PUT'' (mutation_path ''ui'' key)
      = Some (mk_pattern ''/'' (mux_serve (app_mux A) (ui_mux A E)), [])"
    "match_method (authed_mux A E) ''PUT'' (mutation_path ''ui'' key @ ''/'')
      = Some (mk_pattern ''/'' (mux_serve (app_mux A) (ui_mux A E)), [])"
    using ne by (simp_all add: m s)
  ultimately have "trailing_redirect (authed_mux A E) ''PUT'' (mutation_path ''ui'' key) = None"
    using ne by (simp add: trailing_redirect_def exactMatch_def is_multi_def)
  moreover have "mutation_path ''ui'' key \<noteq> ''*''" by (simp add: mutation_path_def)
  ultimately have "authed_handler A E r w = mux_serve (app_mux A) (ui_mux A E) (r\<lparr>Pattern := ''/'', PathValues := []\<rparr>) w"
    unfolding authed_handler_def using m'(1) clean_mutation_path [OF key, of "''ui''"] r
    by (subst mux_serve_match) auto
  also have "\<dots> = admin_chain E (ui_putConfig (app_codecs A) (app_model A))
      (r\<lparr>Pattern := ''PUT /ui/config/{key}'', PathValues := [(''key'', key)]\<rparr>) w"
  proof -
    have "root_node (ui_mux A E) ''PUT'' = [([Lit ''ui'', Lit ''config'', Wild ''key''],
        mk_pattern ''PUT /ui/config/{key}'' (admin_chain E (ui_putConfig (app_codecs A) (app_model A))))]"
      by (simp add: root_node_def ui_mux_def)
    from mux_serve_key [OF _ _ this] assms show ?thesis by (simp add: ui_put_request_def)
  qed
  finally show ?thesis .
qed

text \<open>
  The table: the value is what the form has under \<open>value\<close>, empty when it has nothing, and a page that
  cannot be loaded after the value was stored is a 500 with the value stored.
\<close>

definition ui_store :: "codecs \<Rightarrow> 'd PageModel \<Rightarrow> string \<Rightarrow> principal \<Rightarrow> request \<Rightarrow> 'd \<Rightarrow> nat \<times> 'd" where
  "ui_store C M key q r d =
     (case ParseForm C r of
        Inl _ \<Rightarrow> (400, d)
      | Inr vs \<Rightarrow>
          (case pm_SetConfig M key (form_value vs ''value'') d of
             (Some _, d') \<Rightarrow> (500, d')
           | (None, d') \<Rightarrow>
               (case LoadPageData M q d' of (Inl _, d'') \<Rightarrow> (500, d'') | (Inr _, d'') \<Rightarrow> (200, d''))))"

definition ui_put_answer ::
  "('d, 'f) app \<Rightarrow> string \<Rightarrow> request \<Rightarrow> auth_error + principal \<Rightarrow> bool \<Rightarrow> 'd \<Rightarrow> nat \<times> 'd" where
  "ui_put_answer A key = mutation_answer (ui_store (app_codecs A) (app_model A) key)"

lemma ui_store_head:
  assumes "Method r' = Method r" "Header r' = Header r" "RawQuery r' = RawQuery r" "Body r' = Body r"
  shows "ui_store C M key q r' = ui_store C M key q r"
proof -
  have "ParseForm C r' = ParseForm C r"
    unfolding ParseForm_def parse_post_form_def assms ..
  then show ?thesis by (intro ext) (simp add: ui_store_def)
qed

lemma ui_render_answer:
  assumes p: "PrincipalFromContext (Ctx r) = Some q" and fresh: "wrote w = None"
  shows "\<exists>w'. ui_render C M page r w = Done r w' \<and> answered
    (case LoadPageData M q (database w) of (Inl _, d) \<Rightarrow> (500, d) | (Inr _, d) \<Rightarrow> (200, d)) w w'"
proof -
  obtain x d where "LoadPageData M q (database w) = (x, d)" by fastforce
  then show ?thesis using p fresh
    by (cases x) (auto simp: ui_render_def ui_data_def on_database_def problem_def log_error_def answered_def Let_def
        write_chunk_def case_prod_beta split: option.split)
qed

lemma ui_putConfig_answer:
  assumes "PathValue r ''key'' = key" and "ValidConfigKey key" and fresh: "wrote w = None"
    and p: "PrincipalFromContext (Ctx r) = Some q"
  shows "\<exists>w'. ui_putConfig C M r w = Done r w' \<and> answered (ui_store C M key q r (database w)) w w'"
proof (cases "ParseForm C r")
  case (Inl u)
  then show ?thesis using assms by (auto simp: ui_putConfig_def ui_store_def problem_def)
next
  case (Inr vs)
  obtain e d where s: "pm_SetConfig M key (form_value vs ''value'') (database w) = (e, d)" by fastforce
  show ?thesis
  proof (cases e)
    case (Some x)
    then show ?thesis using assms Inr s
      by (auto simp: ui_putConfig_def ui_store_def problem_def log_error_def on_database_def)
  next
    case None
    let ?w = "log_changed key r (w\<lparr>database := d\<rparr>)"
    have w: "wrote ?w = None" "database ?w = d" "metrics ?w = metrics w" "key_cache ?w = key_cache w"
      using fresh by (simp_all add: log_changed_def)
    have "ui_putConfig C M r w = ui_render C M ''home'' r ?w"
      using assms(1,2) Inr s None by (simp add: ui_putConfig_def on_database_def)
    with ui_render_answer [OF p w(1), of C M "''home''"] w(2-4) Inr s None show ?thesis
      by (auto simp: ui_store_def answered_def)
  qed
qed

interpretation ui_put: mutation A E "ui_put_request key" "''PUT /ui/config/{key}''" "[(''key'', key)]"
  "ui_putConfig (app_codecs A) (app_model A)" "ui_store (app_codecs A) (app_model A) key"
  for A E key
proof unfold_locales
  fix r :: request and q :: principal and w :: "('a, 'b) world"
  assume r: "ui_put_request key r" and h: "PrincipalFromContext (Ctx r) = Some q" "wrote w = None"
  let ?r = "r\<lparr>Pattern := ''PUT /ui/config/{key}'', PathValues := [(''key'', key)]\<rparr>"
  have "PathValue ?r ''key'' = key" "ValidConfigKey key" "PrincipalFromContext (Ctx ?r) = Some q"
    using r h by (simp_all add: PathValue_def ui_put_request_def mutation_request_def)
  moreover have "ui_store C M key q ?r = ui_store C M key q r" for C and M :: "'a PageModel"
    by (rule ui_store_head) simp_all
  ultimately show "\<exists>w'. ui_putConfig (app_codecs A) (app_model A) ?r w = Done ?r w'
      \<and> answered (ui_store (app_codecs A) (app_model A) key q r (database w)) w w'"
    using ui_putConfig_answer [of ?r key w q "app_codecs A" "app_model A"] h(2) by simp
qed (auto simp: ui_authed ui_put_request_def mutation_request_def intro!: mutation_root ui_store_head)

section \<open>Properties\<close>

text \<open>C4: \<open>PUT /api/config/{key}\<close> for a valid key does what the decision table says, whatever else the
  request carries and whatever state the server is in: 403 for a request another site could have
  sent, then 401 when the provider rejects it, 429 when the caller's bucket is empty (a caller without
  the role uses up tokens too), 403 without the role, 415 for another media type, 413 or 400 for a
  body that is too large or malformed, all with the database as it was; and otherwise the outcome of
  \<open>SetConfig\<close> with the value of the body, 200 or 500.\<close>

theorem put_config_decided:
  assumes A: "app_ok L p A" and E: "env_ok E" and w: "world_ok (app_metrics A) (env_rl_now E) w"
    and fresh: "wrote w = None" "recorders w = []" and rand: "env_rand E \<noteq> None"
    and req: "put_request key r"
  shows "\<exists>who c admit w'. Authenticate L p (env_auth E) r (key_cache w) = Return (who, c)
    \<and> (\<forall>q. who = Inr q \<longrightarrow> (\<exists>rl. allow (env_rl_order E) (env_rl_now E) (Subject q) (limiter w) = Return (admit, rl)))
    \<and> Routes A E r w = Done r w'
    \<and> (status_of w', database w') = put_answer A key r who admit (database w)"
  using api_put.decided [OF A E w fresh(1) rand req] by (simp only: put_answer_def)

section \<open>A concrete request\<close>

definition put_app :: "(mem, rat) app" where
  "put_app = sample_app\<lparr>app_codecs := no_codecs\<lparr>json_stream := (\<lambda>_ _. JsonValue (JObject [(''value'', JString ''Hi'')])),
     parse_query := (\<lambda>_. ([''value'' \<mapsto> [''Hi'']], False))\<rparr>\<rparr>"

definition put_world :: "(mem, rat) world" where
  "put_world = sample_world\<lparr>key_cache := warm_client\<rparr>"

definition put_motd :: request where
  "put_motd = (web_request ''PUT'' ''/api/config/motd'' ''good'')
     \<lparr>Header := header_set ''Content-Type'' ''application/json'' (Header (web_request ''PUT'' ''/api/config/motd'' ''good''))\<rparr>"

lemma put_app_ok: "app_ok sample_lib (fst cloudflare_provider) put_app"
  using sample_app_ok by (simp add: app_ok_def put_app_def)

lemma put_world_ok: "world_ok (app_metrics put_app) (env_rl_now web_env) put_world"
  using sample_world_ok warm_client_ok by (simp add: world_ok_def put_world_def put_app_def)

lemma put_headers:
  "header_get (Header put_motd) ''Cf-Access-Jwt-Assertion'' = ''good''" "header_get (Header put_motd) ''X-Requested-With'' = ''fetch''"
  "header_get (Header put_motd) ''Sec-Fetch-Site'' = ''''" "header_get (Header put_motd) ''Content-Type'' = ''application/json''"
proof -
  have "map canonical_key [''Cf-Access-Jwt-Assertion'', ''X-Requested-With'', ''Sec-Fetch-Site'', ''Content-Type'']
      = [''Cf-Access-Jwt-Assertion'', ''X-Requested-With'', ''Sec-Fetch-Site'', ''Content-Type'']" by code_simp
  then show "header_get (Header put_motd) ''Cf-Access-Jwt-Assertion'' = ''good''" "header_get (Header put_motd) ''X-Requested-With'' = ''fetch''"
    "header_get (Header put_motd) ''Sec-Fetch-Site'' = ''''" "header_get (Header put_motd) ''Content-Type'' = ''application/json''"
    by (simp_all add: put_motd_def web_request_def sample_request_def header_get_def header_set_def)
qed

lemma put_cloudflare:
  "NewJWTProvider (cfg (fst cloudflare_provider)) = Inr cloudflare_provider"
  "cfg_Header (cfg (fst cloudflare_provider)) = ''Cf-Access-Jwt-Assertion''"
  "cfg_Algorithm (cfg (fst cloudflare_provider)) = AlgRS256"
  "jparser (fst cloudflare_provider) = jparser sample_provider"
  "mapFn (fst cloudflare_provider) cl = Inr (mapCloudflareClaims cl IdentityRoleMapper)"
  using valid_team unfolding cloudflare_provider_def sample_provider_def
  by (simp_all add: NewCloudflare_def Let_def NewJWTProvider_def cloudflare_suffix_def trim_suffix_def has_suffix_def)

lemma put_authenticated:
  "\<exists>q. Authenticate sample_lib (fst cloudflare_provider) (env_auth web_env) put_motd (key_cache put_world) = Return (Inr q, warm_client)
    \<and> HasRole q ''admin''"
proof -
  let ?cl = "\<lparr>c_sub = ''alice'', c_iss = ''https://team.cloudflareaccess.com'', c_aud = [''app''], c_exp = 100,
      c_nbf = 0, c_iat = 0, Custom = sample_claims\<rparr>"
  have "Authenticate sample_lib (fst cloudflare_provider) sample_env put_motd warm_client
      = Return (mapFn (fst cloudflare_provider) ?cl, warm_client)"
    by (rule authenticate_warm [where c = "cfg (fst cloudflare_provider)" and j = "snd cloudflare_provider"
          and token = "''good''" and key = sample_key and kid = "''k1''" and k = sample_keyfunc and m = sample_claims
          and t = "\<lparr>tok_alg = AlgRS256, tok_header = [''kid'' \<mapsto> JString ''k1'']\<rparr>"])
      (simp_all add: put_cloudflare put_headers sample_step_good [simplified] sample_kid [simplified] sample_key_rsa sample_sub
        sample_cl sample_keyfunc_def)
  moreover have "HasRole (mapCloudflareClaims ?cl IdentityRoleMapper) ''admin''"
    by (simp add: HasRole_def claim_roles_def get_array_def sample_claims_def IdentityRoleMapper_def)
  ultimately show ?thesis by (simp add: put_cloudflare web_env_def put_world_def)
qed

lemma put_admitted:
  assumes "s \<noteq> ''''"
  shows "\<exists>rl. allow (env_rl_order web_env) (env_rl_now web_env) s (limiter put_world) = Return (True, rl)"
proof -
  have e: "range_order (env_rl_order web_env)" "0 < env_rl_now web_env" "rl_ok (env_rl_now web_env) (limiter put_world)"
    using web_env_ok(1) put_world_ok by (simp_all add: env_ok_def world_ok_def)
  have "limiter put_world = newRateLimiter rateLimitRate rateLimitBurst"
  proof -
    obtain reg where "\<lparr>hdr = (\<lambda>_. None), wrote = None, chunks = [], recorders = [], logs = [],
        limiter = newRateLimiter rateLimitRate rateLimitBurst, key_cache = newJWKSClient '''' \<lparr>hc_timeout = 0\<rparr>,
        database = config_mem [], metrics = reg\<rparr> = sample_world"
      using sample_initial by (auto simp: initial_world_def map_outcome_Return)
    from arg_cong [OF this, of limiter] show ?thesis by (simp add: put_world_def)
  qed
  then have "0 < virtual_tokens (env_rl_now web_env) (limiter put_world) s"
    by (simp add: virtual_tokens_def newRateLimiter_def rateLimitBurst_def)
  then show ?thesis using allow_eq [OF e(1,3) order_refl e(2), of s] by (auto simp: Let_def)
qed

text \<open>What the table says for it.\<close>

lemma put_motd_request: "put_request ''motd'' put_motd"
  by (simp add: put_request_def mutation_request_def mutation_path_def put_motd_def web_request_def sample_request_def ValidConfigKey_def
      is_key_char_def is_lower_def less_eq_char_def)

lemma put_motd_stored: "\<exists>d. SetConfig mem_driver ''motd'' ''Hi'' (config_mem []) = (None, d)"
  by (simp add: SetConfig_def mem_driver_def mem_exec_def config_mem_def mem_fails_def mem_tick_def)

lemma put_motd_answer:
  assumes "HasRole q ''admin''" and "SetConfig mem_driver ''motd'' ''Hi'' (config_mem []) = (None, d)"
  shows "put_answer put_app ''motd'' put_motd (Inr q) True (config_mem []) = (200, d)"
proof -
  have "csrf_passes put_motd" using put_headers by (simp add: csrf_passes_def)
  moreover have "decode_setConfigBody (app_codecs put_app) b = Inr ''Hi''" for b
    by (simp add: decode_setConfigBody_def decode_body_def put_app_def)
  moreover have "media_type (app_codecs put_app) ''application/json'' = (''application/json'', False)"
    by (simp add: put_app_def no_codecs_def)
  ultimately show ?thesis
    using assms put_headers(4) by (simp add: put_answer_def mutation_answer_def put_store_def put_app_def)
qed

lemma put_world_fields [simp]:
  "wrote put_world = None" "recorders put_world = []" "database put_world = config_mem []" "key_cache put_world = warm_client"
  by (simp_all add: put_world_def)

lemma put_motd_admitted:
  assumes "Authenticate sample_lib (fst cloudflare_provider) (env_auth web_env) put_motd (key_cache put_world) = Return (Inr q, c)"
  shows "\<exists>rl. allow (env_rl_order web_env) (env_rl_now web_env) (Subject q) (limiter put_world) = Return (True, rl)"
proof (rule put_admitted)
  show "Subject q \<noteq> ''''"
    using jwt.auth_subject [of "env_auth web_env" "key_cache put_world"] assms put_world_ok put_app_ok web_env_ok(1)
    by (auto simp: world_ok_def app_ok_def env_ok_def)
qed

theorem put_config_decided_witness:
  "\<exists>w'. Routes put_app web_env put_motd put_world = Done put_motd w' \<and> status_of w' = 200
    \<and> SetConfig mem_driver ''motd'' ''Hi'' (config_mem []) = (None, database w')"
proof -
  have rand: "env_rand web_env \<noteq> None" using web_env_ok(2) by simp
  obtain q where q: "Authenticate sample_lib (fst cloudflare_provider) (env_auth web_env) put_motd (key_cache put_world)
      = Return (Inr q, warm_client)" "HasRole q ''admin''" using put_authenticated by blast
  obtain d where d: "SetConfig mem_driver ''motd'' ''Hi'' (config_mem []) = (None, d)" using put_motd_stored by blast
  obtain who c admit w' where t: "Authenticate sample_lib (fst cloudflare_provider) (env_auth web_env) put_motd (key_cache put_world) = Return (who, c)"
      "\<forall>q. who = Inr q \<longrightarrow> (\<exists>rl. allow (env_rl_order web_env) (env_rl_now web_env) (Subject q) (limiter put_world) = Return (admit, rl))"
      "Routes put_app web_env put_motd put_world = Done put_motd w'"
      "(status_of w', database w') = put_answer put_app ''motd'' put_motd who admit (database put_world)"
    using put_config_decided [OF put_app_ok web_env_ok(1) put_world_ok _ _ rand put_motd_request] by auto
  have who: "who = Inr q" using t(1) q(1) by simp
  have admit using t(2) who put_motd_admitted [OF q(1)] by fastforce
  then show ?thesis using t(3,4) who put_motd_answer [OF q(2) d] d by simp
qed

end

