(* ===== verification/ReadBack.thy ===== *)
theory ReadBack
  imports PutConfig
begin

text \<open>
  A mutation and the listing after it, over HTTP: \<open>PUT /api/config/{key}\<close>, then \<open>GET /api/config\<close>.
\<close>

section \<open>The listing, through the tree\<close>

definition list_request :: "request \<Rightarrow> bool" where
  "list_request r \<longleftrightarrow> Method r = ''GET'' \<and> RawPath r = ''/api/config''"

lemma list_segments:
  "firstSegment ''/api/config'' = (''api'', ''/config'')" "firstSegment ''/config'' = (''config'', '''')"
  "firstSegment ''/api/config/'' = (''api'', ''/config/'')"
  by (simp_all add: firstSegment_def path_unescape_def)

lemma list_clean: "cleanPath ''/api/config'' = ''/api/config''"
  by (simp add: cleanPath_def)

lemma get_nodes:
  "root_node (root_mux A E) ''GET'' = [([Lit ''healthz''], mk_pattern ''GET /healthz'' healthz),
     ([Lit ''readyz''], mk_pattern ''GET /readyz'' (readyz (app_driver A))),
     ([Lit ''metrics''], mk_pattern ''GET /metrics'' (registryHandler (app_floats A) E))]"
  "root_node (authed_mux A E) ''GET'' = [([Lit ''api'', Lit ''me''], mk_pattern ''GET /api/me'' me),
     ([Lit ''api'', Lit ''version''], mk_pattern ''GET /api/version'' (versionHandler (app_build A))),
     ([Lit ''api'', Lit ''config''], mk_pattern ''GET /api/config'' (listConfig (app_driver A)))]"
  by (simp_all add: root_node_def root_mux_def authed_mux_def)

lemma get_match_root:
  assumes seg: "fst (firstSegment path) = ''api''" and "path \<noteq> ''''"
  shows "match_method (root_mux A E) ''GET'' path = Some (mk_pattern ''/'' (authed_chain A E), [])"
proof -
  have "match_path (root_node (root_mux A E) ''GET'') path [] = None"
    unfolding get_nodes using assms by (simp add: match_path.simps [of "_ # _" path])
  moreover have "match_path (root_node (root_mux A E) '''') path [] = Some (mk_pattern ''/'' (authed_chain A E), [])"
    unfolding root_nodes by (rule match_path_rest) (simp_all add: assms)
  ultimately show ?thesis by (simp add: match_method_def)
qed

lemma get_match_authed:
  "match_method (authed_mux A E) ''GET'' ''/api/config'' = Some (mk_pattern ''GET /api/config'' (listConfig (app_driver A)), [])"
proof -
  let ?q = "mk_pattern ''GET /api/config'' (listConfig (app_driver A))"
  let ?n = "[([Lit ''me''], mk_pattern ''GET /api/me'' me), ([Lit ''version''], mk_pattern ''GET /api/version'' (versionHandler (app_build A))),
      ([Lit ''config''], ?q)]"
  have "match_path [([], ?q)] '''' [] = Some (?q, [])" by (simp add: match_path_leaf)
  then have "match_path ?n ''/config'' [] = Some (?q, [])"
    using match_path_lit [of "''/config''" ?n "[]"] unfolding list_segments by simp
  then have "match_path (root_node (authed_mux A E) ''GET'') ''/api/config'' [] = Some (?q, [])"
    using match_path_lit [of "''/api/config''" "root_node (authed_mux A E) ''GET''" "[]"]
    unfolding list_segments get_nodes by simp
  then show ?thesis by (simp add: match_method_def)
qed

lemma list_root:
  assumes "list_request r"
  shows "mux_serve U (root_mux A E) r w = authed_chain A E (r\<lparr>Pattern := ''/'', PathValues := []\<rparr>) w"
proof -
  have "trailing_redirect (root_mux A E) ''GET'' ''/api/config'' = None"
    using get_match_root [of "''/api/config''" A E] get_match_root [of "''/api/config/''" A E]
    by (simp add: trailing_redirect_def exactMatch_def is_multi_def list_segments)
  then show ?thesis
    using get_match_root [of "''/api/config''" A E] list_clean assms
    by (subst mux_serve_match) (auto simp: list_request_def list_segments)
qed

lemma list_authed:
  assumes "list_request r"
  shows "authed_handler A E r w = listConfig (app_driver A) (r\<lparr>Pattern := ''GET /api/config'', PathValues := []\<rparr>) w"
proof -
  have "trailing_redirect (authed_mux A E) ''GET'' ''/api/config'' = None"
    using get_match_authed [of A E] by (simp add: trailing_redirect_def exactMatch_def is_multi_def)
  then show ?thesis
    using get_match_authed [of A E] list_clean assms unfolding authed_handler_def list_request_def
    by (subst mux_serve_match) auto
qed

text \<open>What the listing answers with, for the database it finds.\<close>

definition list_answer :: "'d driver \<Rightarrow> 'd \<Rightarrow> nat \<times> chunk \<times> 'd" where
  "list_answer D d =
     (case ListConfig D d of
        (Inl _, d') \<Rightarrow> (500, JsonBody (problem_json 500 (StatusText 500) ''''), d')
      | (Inr es, d') \<Rightarrow> (200, JsonBody (JArray (map entry_json es)), d'))"

definition listed_in :: "nat \<times> chunk \<times> 'd \<Rightarrow> ('d, 'f) world \<Rightarrow> ('d, 'f) world \<Rightarrow> bool" where
  "listed_in x w w' \<longleftrightarrow> (\<exists>h. wrote w' = Some (fst x, h)) \<and> chunks w' = chunks w @ [fst (snd x)]
     \<and> database w' = snd (snd x) \<and> metrics w' = metrics w"

lemma listConfig_answer:
  assumes "wrote w = None"
  shows "\<exists>w'. listConfig D r w = Done r w' \<and> listed_in (list_answer D (database w)) w w'"
proof -
  obtain x d where "ListConfig D (database w) = (x, d)" by fastforce
  then show ?thesis using assms
    by (cases x) (auto simp: listConfig_def on_database_def list_answer_def listed_in_def problem_def log_error_def writeJSON_def)
qed

lemma chain_list:
  assumes A: "app_ok L p A" and w: "world_ok (app_metrics A) t w"
    and req: "list_request r" and pat: "Pattern r = ''/''" and fresh: "wrote w = None"
    and who: "Authenticate L p (env_auth E) r (key_cache w) = Return (Inr q, c)"
  shows "\<exists>r' w' reg. authed_chain A E r w = Done r' w' \<and> listed_in (list_answer (app_driver A) (database w)) w (w'\<lparr>metrics := metrics w\<rparr>)"
proof -
  let ?nxt = "maxBody (csrf (Middleware (app_auth A (env_auth E)) (authed_handler A E)))"
  let ?ans = "list_answer (app_driver A) (database w)"
  have m: "http_metrics_ok (app_metrics A) (metrics w)" using w by (simp add: world_ok_def)
  have auth: "app_auth A = authenticate_world L p" using A by (simp add: app_ok_def)
  have get: "is_read_method (Method r)" using req by (simp add: list_request_def is_read_method_def)
  obtain reg reg' r2 w2 where q: "\<exists>h. wrote w2 = Some (fst ?ans, h)" "chunks w2 = chunks w @ [fst (snd ?ans)]"
      "database w2 = snd (snd ?ans)"
      "metricsMiddleware (app_floats A) (app_metrics A) E ?nxt r w = Done r2 ((pop_recorder w2)\<lparr>metrics := reg'\<rparr>)"
  proof (rule metrics_run [OF m, of ?nxt r "\<lambda>reg r2 w2. (\<exists>h. wrote w2 = Some (fst ?ans, h))
        \<and> chunks w2 = chunks w @ [fst (snd ?ans)] \<and> database w2 = snd (snd ?ans)" "app_floats A" E])
    fix reg :: "'b registry" assume reg: "http_metrics_ok (app_metrics A) reg"
    let ?w = "push_recorder (w\<lparr>metrics := reg\<rparr>)" and ?r = "r\<lparr>Ctx := WithPrincipal (Ctx r) q\<rparr>"
    have "csrf_passes r" using get by (simp add: csrf_passes_def)
    then have run: "?nxt r ?w = with_request r (authed_handler A E ?r (?w\<lparr>key_cache := c\<rparr>))"
      using get who by (simp add: maxBody_def csrf.pass auth Middleware_def authenticate_world_def serve_with_ctx_def)
    have lr: "list_request ?r" and fresh': "wrote (?w\<lparr>key_cache := c\<rparr>) = None"
      using req fresh by (simp_all add: list_request_def)
    obtain w2 where w2: "listConfig (app_driver A) (?r\<lparr>Pattern := ''GET /api/config'', PathValues := []\<rparr>) (?w\<lparr>key_cache := c\<rparr>)
        = Done (?r\<lparr>Pattern := ''GET /api/config'', PathValues := []\<rparr>) w2"
        "listed_in (list_answer (app_driver A) (database (?w\<lparr>key_cache := c\<rparr>))) (?w\<lparr>key_cache := c\<rparr>) w2"
      using listConfig_answer [OF fresh', of "app_driver A"] by blast
    then have h: "?nxt r ?w = Done r w2" "listed_in ?ans (?w\<lparr>key_cache := c\<rparr>) w2"
      unfolding run list_authed [OF lr] by simp_all
    then show "\<exists>r2 w2. ?nxt r ?w = Done r2 w2 \<and> Pattern r2 = ''/'' \<and> http_metrics_ok (app_metrics A) (metrics w2)
        \<and> (\<exists>h. wrote w2 = Some (fst ?ans, h)) \<and> chunks w2 = chunks w @ [fst (snd ?ans)] \<and> database w2 = snd (snd ?ans)"
      using reg pat by (auto simp: listed_in_def)
  qed blast
  then show ?thesis by (auto simp: authed_chain_def listed_in_def)
qed

lemma routes_list:
  assumes A: "app_ok L p A" and w: "world_ok (app_metrics A) t w"
    and fresh: "wrote w = None" "chunks w = []" and rand: "env_rand E \<noteq> None" and req: "list_request r"
    and who: "Authenticate L p (env_auth E) r (key_cache w) = Return (Inr q, c)"
  shows "\<exists>w'. Routes A E r w = Done r w' \<and> (status_of w', chunks w', database w')
    = (fst (list_answer (app_driver A) (database w)), [fst (snd (list_answer (app_driver A) (database w)))],
       snd (snd (list_answer (app_driver A) (database w))))"
proof -
  obtain buf where buf: "env_rand E = Some buf" using rand by auto
  let ?r = "(with_id buf r)\<lparr>Pattern := ''/'', PathValues := []\<rparr>" and ?w = "prepared A buf r w"
  have pre: "wrote ?w = None" "chunks ?w = []" "database ?w = database w" "world_ok (app_metrics A) t ?w" "key_cache ?w = key_cache w"
    using fresh prepared_shared [where A = A and buf = buf and r = r and w = w] world_ok_shared [OF w prepared_shared(1)]
    by (simp_all add: same_shared_def)
  have req': "list_request (with_id buf r)" "list_request ?r" using req by (simp_all add: list_request_def)
  have "Authenticate L p (env_auth E) ?r (key_cache ?w) = Return (Inr q, c)"
    using who Authenticate_head [of ?r r] pre(5) by simp
  from chain_list [OF A pre(4) req'(2) _ pre(1) this]
  obtain r' w' where h: "authed_chain A E ?r ?w = Done r' w'"
      "listed_in (list_answer (app_driver A) (database w)) ?w (w'\<lparr>metrics := metrics ?w\<rparr>)"
    using pre(3) by auto
  have "mux_serve (app_mux A) (root_mux A E) (with_id buf r) ?w = Done r' w'"
    unfolding list_root [OF req'(1)] by (rule h(1))
  from Routes_outer [OF buf this] obtain lv where
    "Routes A E r w = Done r (log_to lv ''request'' (access_attrs E r' (recorded_status w')) (pop_recorder w'))" by blast
  then show ?thesis using h(2) pre(2) by (auto simp: listed_in_def status_of_def)
qed

section \<open>Properties\<close>

text \<open>C5: What an admin puts is what everybody then gets: after a \<open>PUT /api/config/{key}\<close> that was
  answered 200, the next request finds the configuration with the value of the body under the key and
  every other entry as before, and if it is an authenticated \<open>GET /api/config\<close>, it is answered with 200 and
  exactly that configuration, in the order of the keys, if the rows of the query can be read, and with
  500 and no entry only if the database fails to deliver them.\<close>

theorem put_then_listed:
  assumes A: "app_ok L p A" and E: "env_ok E" and w: "world_ok (app_metrics A) (env_rl_now E) w"
    and fresh: "wrote w = None" "recorders w = []" and rand: "env_rand E \<noteq> None" "env_rand E' \<noteq> None"
    and D: "driver_ok (app_driver A) V" "tx V (database w) = None"
    and put: "put_request key r" "Routes A E r w = Done r w1" "status_of w1 = 200"
    and get: "list_request r'" "Authenticate L p (env_auth E') r' (key_cache w1) = Return (Inr q, c)"
  shows "\<exists>v. decode_setConfigBody (app_codecs A) (MaxBytesReader maxRequestBodyBytes (Body r)) = Inr v \<and>
    (\<exists>w2. Routes A E' r' (next_request w1) = Done r' w2 \<and> view V w2 = (view V w)(key \<mapsto> v) \<and>
      (status_of w2, chunks w2) =
        (if rows_readable (app_driver A) list_sql (database w1)
         then (200, [JsonBody (JArray (map entry_json (entries_of ((view V w)(key \<mapsto> v)))))])
         else (500, [JsonBody (problem_json 500 (StatusText 500) '''')])))"
proof -
  obtain who c0 admit where v: "Authenticate L p (env_auth E) r (key_cache w) = Return (who, c0)"
      "\<forall>q. who = Inr q \<longrightarrow> (\<exists>rl. allow (env_rl_order E) (env_rl_now E) (Subject q) (limiter w) = Return (admit, rl))"
    by (rule put_verdicts [OF A E w, of r]) blast
  have "put_answer A key r who admit (database w) = (200, database w1)"
    using api_put.routes_answer [OF A w fresh(1) rand(1) put(1) v] put(2,3) by (auto simp: put_answer_def)
  then obtain val where val: "decode_setConfigBody (app_codecs A) (MaxBytesReader maxRequestBodyBytes (Body r)) = Inr val"
      "SetConfig (app_driver A) key val (database w) = (None, database w1)"
    by (auto simp: put_answer_def mutation_answer_def put_store_def split: if_splits sum.splits read_error.splits prod.splits option.splits)
  have w1: "driver_ok (app_driver A) V \<and> tx V (database w1) = None" "view V w1 = (view V w)(key \<mapsto> val)"
    using db.set_done [OF conjI [OF D] val(2)] by (simp_all add: view_def)
  obtain buf where buf: "env_rand E = Some buf" using rand(1) by auto
  have "world_ok (app_metrics A) (env_rl_now E) w1"
    by (rule routes_run [OF A E w fresh buf, of r]) (use put(2) in simp)
  then have next_ok: "world_ok (app_metrics A) (env_rl_now E) (next_request w1)" by (rule world_ok_later) simp
  let ?a = "list_answer (app_driver A) (database w1)"
  obtain w2 where w2: "Routes A E' r' (next_request w1) = Done r' w2"
      "status_of w2 = fst ?a" "chunks w2 = [fst (snd ?a)]" "database w2 = snd (snd ?a)"
    using routes_list [OF A next_ok _ _ rand(2) get(1), of q c] get(2) by auto
  obtain res d where res: "ListConfig (app_driver A) (database w1) = (res, d)" by fastforce
  have same: "view V w2 = view V w1"
    using db.list_keeps [OF w1(1) res] w2(4) by (cases res) (simp_all add: list_answer_def res view_def)
  have es: "es = entries_of (view V w1)" if "res = Inr es" for es
    using db.list_entries [OF w1(1), of es d] res that by (simp add: view_def)
  show ?thesis
    using val(1) w2 same es w1(2) res ListConfig_rows_readable [of "app_driver A" "database w1"]
    by (cases res) (auto simp: list_answer_def)
qed

lemma put_motd_done: "\<exists>w1. Routes put_app web_env put_motd put_world = Done put_motd w1 \<and> status_of w1 = 200
    \<and> key_cache w1 = warm_client \<and> SetConfig mem_driver ''motd'' ''Hi'' (config_mem []) = (None, database w1)"
proof -
  obtain q where q: "Authenticate sample_lib (fst cloudflare_provider) (env_auth web_env) put_motd (key_cache put_world)
      = Return (Inr q, warm_client)" "HasRole q ''admin''" using put_authenticated by blast
  obtain d where d: "SetConfig mem_driver ''motd'' ''Hi'' (config_mem []) = (None, d)" using put_motd_stored by blast
  have rand: "env_rand web_env \<noteq> None" using web_env_ok(2) by simp
  have "\<forall>q'. Inr q = Inr q' \<longrightarrow> (\<exists>rl. allow (env_rl_order web_env) (env_rl_now web_env) (Subject q') (limiter put_world) = Return (True, rl))"
    using put_motd_admitted [OF q(1)] by simp
  from api_put.routes_answer [OF put_app_ok put_world_ok _ rand put_motd_request q(1) this] show ?thesis
    using put_motd_answer [OF q(2) d] d by (auto simp: put_answer_def)
qed

lemma get_authenticated:
  "\<exists>q. Authenticate sample_lib (fst cloudflare_provider) (env_auth web_env) (sample_request ''GET'' ''/api/config'' ''good'') warm_client
    = Return (Inr q, warm_client)"
proof -
  have "header_get (Header (sample_request ''GET'' ''/api/config'' ''good'')) ''Cf-Access-Jwt-Assertion'' = ''good''"
    by (simp add: sample_request_def header_get_set)
  then have "header_get (Header (sample_request ''GET'' ''/api/config'' ''good'')) ''Cf-Access-Jwt-Assertion''
      = header_get (Header put_motd) ''Cf-Access-Jwt-Assertion''" using put_headers(1) by simp
  then have "Authenticate sample_lib (fst cloudflare_provider) E (sample_request ''GET'' ''/api/config'' ''good'') s
      = Authenticate sample_lib (fst cloudflare_provider) E put_motd s" for E s
    by (simp add: Authenticate_def put_cloudflare)
  then show ?thesis using put_authenticated by auto
qed

lemma put_motd_readable:
  assumes "SetConfig mem_driver ''motd'' ''Hi'' (config_mem []) = (None, d)"
  shows "rows_readable mem_driver list_sql d"
  using assms
  by (auto simp: SetConfig_def mem_driver_def mem_exec_def config_mem_def mem_fails_def mem_tick_def rows_readable_def mem_query_def)

lemma put_motd_entries: "entries_of ((view mem_view put_world)(''motd'' \<mapsto> ''Hi''))
    = [\<lparr>Key = ''motd'', Value = ''Hi''\<rparr>, \<lparr>Key = ''site_name'', Value = ''Web App Template''\<rparr>]"
proof -
  have v: "(view mem_view put_world)(''motd'' \<mapsto> ''Hi'') = [''site_name'' \<mapsto> ''Web App Template'', ''motd'' \<mapsto> ''Hi'']"
    by (simp add: view_def mem_view_def config_mem_def finite_map_def)
  have "sorted_list_of_set {''motd'', ''site_name''} = [''motd'', ''site_name'']"
    using sorted_list_of_set_sort_remdups [of "[''motd'', ''site_name'']"] by (simp add: less_eq_char_def)
  then show ?thesis unfolding v by (simp add: entries_of_def insert_commute)
qed

theorem put_then_listed_witness:
  "\<exists>w1 w2. Routes put_app web_env put_motd put_world = Done put_motd w1
    \<and> Routes put_app web_env (sample_request ''GET'' ''/api/config'' ''good'') (next_request w1)
        = Done (sample_request ''GET'' ''/api/config'' ''good'') w2
    \<and> view mem_view w2 ''motd'' = Some ''Hi'' \<and> status_of w2 = 200
    \<and> chunks w2 = [JsonBody (JArray (map entry_json
        [\<lparr>Key = ''motd'', Value = ''Hi''\<rparr>, \<lparr>Key = ''site_name'', Value = ''Web App Template''\<rparr>]))]"
proof -
  let ?get = "sample_request ''GET'' ''/api/config'' ''good''"
  obtain w1 where w1: "Routes put_app web_env put_motd put_world = Done put_motd w1" "status_of w1 = 200" "key_cache w1 = warm_client"
      "rows_readable mem_driver list_sql (database w1)"
    using put_motd_done put_motd_readable by blast
  obtain q where q: "Authenticate sample_lib (fst cloudflare_provider) (env_auth web_env) ?get (key_cache w1) = Return (Inr q, warm_client)"
    using get_authenticated w1(3) by auto
  have rand: "env_rand web_env \<noteq> None" using web_env_ok(2) by simp
  have D: "driver_ok (app_driver put_app) mem_view" "tx mem_view (database put_world) = None"
    using mem_driver_ok by (simp_all add: put_app_def mem_view_def config_mem_def)
  have get: "list_request ?get" by (simp add: list_request_def sample_request_def)
  have "decode_setConfigBody (app_codecs put_app) b = Inr ''Hi''" for b
    by (simp add: decode_setConfigBody_def decode_body_def put_app_def)
  moreover have "app_driver put_app = mem_driver" by (simp add: put_app_def)
  ultimately show ?thesis
    using put_then_listed [OF put_app_ok web_env_ok(1) put_world_ok _ _ rand rand D put_motd_request w1(1,2) get q] w1(1,4)
      put_motd_entries by (auto simp del: fun_upd_apply) (auto simp del: fun_upd_apply simp: fun_upd_same)
qed

end
