(* ===== verification/RoutesAgree.thy ===== *)
theory RoutesAgree
  imports ReadBack
begin

text \<open>
  The JSON route and the form route are one mutation: the same caller, with the same value, gets the
  same decision from both and leaves the same configuration.
\<close>

section \<open>The tables compared\<close>

text \<open>Two mutations of requests that the guards cannot tell apart differ at most in what their handlers do.\<close>

lemma same_guards:
  assumes "csrf_passes r' = csrf_passes r"
    and "\<And>q. who = Inr q \<Longrightarrow> admit \<Longrightarrow> HasRole q ''admin'' \<Longrightarrow>
      P (tab q (r\<lparr>Body := MaxBytesReader maxRequestBodyBytes (Body r)\<rparr>) d)
        (tab' q (r'\<lparr>Body := MaxBytesReader maxRequestBodyBytes (Body r')\<rparr>) d)"
    and "\<And>st. P (st, d) (st, d)"
  shows "P (mutation_answer tab r who admit d) (mutation_answer tab' r' who admit d)"
  using assms by (auto simp: mutation_answer_def split: sum.split)

text \<open>What the two handlers do with one value.\<close>

definition same_mutation :: "('d \<Rightarrow> string \<rightharpoonup> string) \<Rightarrow> nat \<times> 'd \<Rightarrow> nat \<times> 'd \<Rightarrow> bool" where
  "same_mutation f x y \<longleftrightarrow> f (snd y) = f (snd x) \<and> (fst y = fst x \<or> fst x = 200 \<and> fst y = 500)"

lemma stores_agree:
  assumes D: "driver_ok D V" "tx V d = None"
    and media: "media_type C (header_get (Header r) ''Content-Type'') = (''application/json'', False)"
    and json: "decode_setConfigBody C (Body r) = Inr v"
    and form: "ParseForm C r' = Inr vs" "form_value vs ''value'' = v"
  shows "same_mutation (\<lambda>d. config_of V (tables (com V d)))
    (put_store D C key (Header r) (Body r) d) (ui_store C (storePageModel D) key q r' d)"
proof -
  obtain e d1 where s: "SetConfig D key v d = (e, d1)" by fastforce
  obtain x d2 where l: "ListConfig D d1 = (x, d2)" by fastforce
  have i: "driver_ok D V \<and> tx V d1 = None" using db.set_view [OF conjI [OF D] s] by simp
  have "config_of V (tables (com V d2)) = config_of V (tables (com V d1))"
    using db.list_keeps [OF i l] by simp
  then show ?thesis using s l media json form
    by (cases e; cases x) (simp_all add: same_mutation_def put_store_def ui_store_def storePageModel_def)
qed

section \<open>Properties\<close>

text \<open>C8: The form route and the JSON route are one mutation: when a caller sends the same value for the
  same key to either (the provider and the CSRF guard judge both requests alike, and each body is well
  formed for its route), both are let through or refused with the same status, and both leave the same
  configuration. The only difference is that the form route, which answers with a page, turns into a
  500 when the page cannot be loaded although the value was stored.\<close>

theorem mutation_routes_agree:
  assumes A: "app_ok L p A" and E: "env_ok E" and w: "world_ok (app_metrics A) (env_rl_now E) w"
    and fresh: "wrote w = None" and rand: "env_rand E \<noteq> None"
    and D: "driver_ok (app_driver A) V" "tx V (database w) = None"
    and json: "put_request key r" "media_type (app_codecs A) (header_get (Header r) ''Content-Type'') = (''application/json'', False)"
      "decode_setConfigBody (app_codecs A) (MaxBytesReader maxRequestBodyBytes (Body r)) = Inr v"
    and form: "ui_put_request key r'"
      "ParseForm (app_codecs A) (r'\<lparr>Body := MaxBytesReader maxRequestBodyBytes (Body r')\<rparr>) = Inr vs"
      "form_value vs ''value'' = v"
    and alike: "csrf_passes r' = csrf_passes r"
      "Authenticate L p (env_auth E) r' (key_cache w) = Authenticate L p (env_auth E) r (key_cache w)"
  shows "\<exists>w1 w2. Routes A E r w = Done r w1 \<and> Routes A E r' w = Done r' w2 \<and> view V w2 = view V w1
    \<and> (status_of w2 = status_of w1 \<or> status_of w1 = 200 \<and> status_of w2 = 500)"
proof -
  let ?f = "\<lambda>d. config_of V (tables (com V d))"
  obtain who c admit where v: "Authenticate L p (env_auth E) r (key_cache w) = Return (who, c)"
      "\<forall>q. who = Inr q \<longrightarrow> (\<exists>rl. allow (env_rl_order E) (env_rl_now E) (Subject q) (limiter w) = Return (admit, rl))"
    by (rule put_verdicts [OF A E w, of r])
  obtain w1 where w1: "Routes A E r w = Done r w1" "(status_of w1, database w1) = put_answer A key r who admit (database w)"
    using api_put.routes_answer [OF A w fresh rand json(1) v] by (auto simp: put_answer_def)
  obtain w2 where w2: "Routes A E r' w = Done r' w2" "(status_of w2, database w2) = ui_put_answer A key r' who admit (database w)"
    using ui_put.routes_answer [OF A w fresh rand form(1) _ v(2)] v(1) alike(2) by (auto simp: ui_put_answer_def)
  have model: "app_model A = storePageModel (app_driver A)" using A by (simp add: app_ok_def)
  have "same_mutation ?f (put_answer A key r who admit (database w)) (ui_put_answer A key r' who admit (database w))"
    unfolding put_answer_def ui_put_answer_def
  proof (rule same_guards [OF alike(1)])
    fix q
    show "same_mutation ?f
        (put_store (app_driver A) (app_codecs A) key (Header (r\<lparr>Body := MaxBytesReader maxRequestBodyBytes (Body r)\<rparr>))
          (Body (r\<lparr>Body := MaxBytesReader maxRequestBodyBytes (Body r)\<rparr>)) (database w))
        (ui_store (app_codecs A) (app_model A) key q (r'\<lparr>Body := MaxBytesReader maxRequestBodyBytes (Body r')\<rparr>) (database w))"
      unfolding model by (rule stores_agree [OF D]) (simp_all add: json form)
  qed (simp add: same_mutation_def)
  then show ?thesis using w1 w2 unfolding same_mutation_def view_def by (metis fst_conv snd_conv)
qed

section \<open>A concrete form\<close>

definition form_motd :: request where
  "form_motd = (web_request ''PUT'' ''/ui/config/motd'' ''good'')
     \<lparr>Header := header_set ''Content-Type'' ''application/x-www-form-urlencoded'' (Header (web_request ''PUT'' ''/ui/config/motd'' ''good''))\<rparr>"

lemma form_headers:
  "header_get (Header form_motd) ''Cf-Access-Jwt-Assertion'' = ''good''" "header_get (Header form_motd) ''X-Requested-With'' = ''fetch''"
  "header_get (Header form_motd) ''Sec-Fetch-Site'' = ''''" "header_get (Header form_motd) ''Content-Type'' = ''application/x-www-form-urlencoded''"
proof -
  have "map canonical_key [''Cf-Access-Jwt-Assertion'', ''X-Requested-With'', ''Sec-Fetch-Site'', ''Content-Type'']
      = [''Cf-Access-Jwt-Assertion'', ''X-Requested-With'', ''Sec-Fetch-Site'', ''Content-Type'']" by code_simp
  then show "header_get (Header form_motd) ''Cf-Access-Jwt-Assertion'' = ''good''" "header_get (Header form_motd) ''X-Requested-With'' = ''fetch''"
    "header_get (Header form_motd) ''Sec-Fetch-Site'' = ''''" "header_get (Header form_motd) ''Content-Type'' = ''application/x-www-form-urlencoded''"
    by (simp_all add: form_motd_def web_request_def sample_request_def header_get_def header_set_def)
qed

lemma form_motd_request: "ui_put_request ''motd'' form_motd"
  by (simp add: ui_put_request_def mutation_request_def mutation_path_def form_motd_def web_request_def sample_request_def
      ValidConfigKey_def is_key_char_def is_lower_def less_eq_char_def)

lemma form_motd_value:
  "ParseForm (app_codecs put_app) (form_motd\<lparr>Body := b\<rparr>) = (if too_large b then Inl () else Inr [''value'' \<mapsto> [''Hi'']])"
  using form_headers(4)
  by (simp add: ParseForm_def parse_post_form_def put_app_def no_codecs_def)
    (simp add: form_motd_def web_request_def sample_request_def)

theorem mutation_routes_agree_witness:
  "\<exists>w1 w2. Routes put_app web_env put_motd put_world = Done put_motd w1
    \<and> Routes put_app web_env form_motd put_world = Done form_motd w2
    \<and> view mem_view w2 = view mem_view w1"
proof -
  have rand: "env_rand web_env \<noteq> None" using web_env_ok(2) by simp
  have D: "driver_ok (app_driver put_app) mem_view" "tx mem_view (database put_world) = None"
    using mem_driver_ok by (simp_all add: put_app_def mem_view_def config_mem_def)
  have media: "media_type (app_codecs put_app) (header_get (Header put_motd) ''Content-Type'') = (''application/json'', False)"
    using put_headers(4) by (simp add: put_app_def no_codecs_def)
  have json: "decode_setConfigBody (app_codecs put_app) b = Inr ''Hi''" for b
    by (simp add: decode_setConfigBody_def decode_body_def put_app_def)
  have form: "ParseForm (app_codecs put_app) (form_motd\<lparr>Body := MaxBytesReader maxRequestBodyBytes (Body form_motd)\<rparr>)
      = Inr [''value'' \<mapsto> [''Hi'']]"
    unfolding form_motd_value
    by (simp add: too_large_def MaxBytesReader_def form_motd_def web_request_def sample_request_def)
  have "csrf_passes form_motd = csrf_passes put_motd"
    using put_headers form_headers by (simp add: csrf_passes_def form_motd_def put_motd_def web_request_def sample_request_def)
  moreover have "Authenticate sample_lib (fst cloudflare_provider) E form_motd s
      = Authenticate sample_lib (fst cloudflare_provider) E put_motd s" for E s
    using put_headers(1) form_headers(1) by (simp add: Authenticate_def put_cloudflare)
  ultimately show ?thesis
    using mutation_routes_agree [OF put_app_ok web_env_ok(1) put_world_ok _ rand D put_motd_request media json
        form_motd_request form] by (force simp: form_value_def)
qed

end
