(* ===== verification/WriteRate.thy ===== *)
theory WriteRate
  imports PutConfig
begin

text \<open>
  The rate limit of the whole server: along every path of the tree a request costs at most one call
  of the limiter, by the principal it authenticates as, and changes the configuration only if that
  call was let through. So the bound on the limiter's calls bounds the changes a subject can make.
\<close>

section \<open>What a request costs\<close>

text \<open>Nothing, and then the configuration stays; or one call of the limiter by \<open>p\<close>, which decides.\<close>

definition charge ::
  "'d driver \<Rightarrow> ('d, 'r) db_view \<Rightarrow> 'f env \<Rightarrow> principal option \<Rightarrow> ('d, 'f) world \<Rightarrow> ('d, 'f) world \<Rightarrow> bool" where
  "charge D V E q w w' \<longleftrightarrow>
     (limiter w' = limiter w \<and> cfg_step D V False w w') \<or>
     (\<exists>p ok. q = Some p \<and> cfg_step D V ok w w' \<and>
        allow (env_rl_order E) (env_rl_now E) (Subject p) (limiter w) = Return (ok, limiter w'))"

definition charged ::
  "'d driver \<Rightarrow> ('d, 'r) db_view \<Rightarrow> 'f env \<Rightarrow> (request \<Rightarrow> ('d, 'f) world \<Rightarrow> principal option)
     \<Rightarrow> ('d, 'f) world handler \<Rightarrow> bool" where
  "charged D V E who h \<longleftrightarrow>
     (\<forall>r w r' w'. wrote w = None \<and> h r w = Done r' w' \<longrightarrow> charge D V E (who r w) w w')"

lemma chargedI:
  "(\<And>r w r' w'. wrote w = None \<Longrightarrow> h r w = Done r' w' \<Longrightarrow> charge D V E (who r w) w w') \<Longrightarrow> charged D V E who h"
  by (simp add: charged_def)

lemma chargedD: "charged D V E who h \<Longrightarrow> wrote w = None \<Longrightarrow> h r w = Done r' w' \<Longrightarrow> charge D V E (who r w) w w'"
  unfolding charged_def by blast

lemma charge_free: "limiter w' = limiter w \<Longrightarrow> database w' = database w \<Longrightarrow> charge D V E q w w'"
  by (simp add: charge_def cfg_step_same)

text \<open>Steps before and after that touch neither the limiter nor the database.\<close>

lemma charge_around:
  assumes "charge D V E q w1 w2" and "limiter w1 = limiter w" "database w1 = database w"
    and "limiter w' = limiter w2" "database w' = database w2"
  shows "charge D V E q w w'"
proof -
  have "cfg_step D V ok w w'" if "cfg_step D V ok w1 w2" for ok
    using cfg_step_after [OF cfg_step_before [OF assms(3) that] assms(5)] .
  with assms show ?thesis unfolding charge_def by (metis (no_types, lifting))
qed

section \<open>The tree\<close>

abbreviation in_context :: "request \<Rightarrow> ('d, 'f) world \<Rightarrow> principal option" where
  "in_context r w \<equiv> PrincipalFromContext (Ctx r)"

text \<open>The principal a request authenticates as.\<close>

definition caller :: "jwt_lib \<Rightarrow> jwtProvider \<Rightarrow> 'f env \<Rightarrow> request \<Rightarrow> ('d, 'f) world \<Rightarrow> principal option" where
  "caller L p E r w =
     (case Authenticate L p (env_auth E) r (key_cache w) of Return (Inr q, _) \<Rightarrow> Some q | _ \<Rightarrow> None)"

lemma caller_head: "Header r' = Header r \<Longrightarrow> key_cache w' = key_cache w \<Longrightarrow> caller L p E r' w' = caller L p E r w"
  by (simp add: caller_def Authenticate_head [of r' r])

lemma mux_charged:
  assumes h: "\<And>q. q \<in> set mx \<Longrightarrow> charged D V E who (pat_handler q)"
    and who: "\<And>r w pat vals. who (r\<lparr>Pattern := pat, PathValues := vals\<rparr>) w = who r w"
  shows "charged D V E who (mux_serve U mx)"
proof (rule chargedI)
  fix r w r' w'
  assume fresh: "wrote w = None" and run: "mux_serve U mx r w = Done r' w'"
  show "charge D V E (who r w) w w'"
  proof (cases rule: mux_serve_cases [of mx r U w])
    case (found q ms vals)
    then show ?thesis using chargedD [OF h [OF found(1)] fresh] run who by metis
  next
    case (own r2 w2)
    have "w' = w2" using own(1) run by simp
    moreover have "web.more w2 = web.more w" by (rule own_answer_fields(2) [OF own(2) fresh])
    ultimately show ?thesis by (intro charge_free; cases w; cases w2; simp)
  qed
qed

lemma Middleware_charged:
  assumes "charged D V E in_context nxt"
  shows "charged D V E (caller L p E) (Middleware (authenticate_world L p (env_auth E)) nxt)"
proof (rule chargedI)
  fix r w r' w'
  assume fresh: "wrote w = None" and run: "Middleware (authenticate_world L p (env_auth E)) nxt r w = Done r' w'"
  show "charge D V E (caller L p E r w) w w'"
  proof (cases "Authenticate L p (env_auth E) r (key_cache w)")
    case (Panic e)
    then show ?thesis using run by (simp add: Middleware_def authenticate_world_def)
  next
    case (Return x)
    obtain a c where x: "x = (a, c)" by fastforce
    show ?thesis
    proof (cases a)
      case (Inl e)
      then show ?thesis using run Return x
        by (auto simp: Middleware_def authenticate_world_def auth_refusal_def intro!: charge_free)
    next
      case (Inr q)
      let ?r = "r\<lparr>Ctx := WithPrincipal (Ctx r) q\<rparr>" and ?w = "w\<lparr>key_cache := c\<rparr>"
      have "with_request r (nxt ?r ?w) = Done r' w'"
        using run Return x Inr by (simp add: Middleware_def authenticate_world_def serve_with_ctx_def)
      then obtain r2 where "nxt ?r ?w = Done r2 w'" by (cases "nxt ?r ?w") auto
      from chargedD [OF assms _ this] fresh have "charge D V E (Some q) ?w w'" by simp
      then have "charge D V E (Some q) w w'" by (rule charge_around) simp_all
      then show ?thesis using Return x Inr by (simp add: caller_def)
    qed
  qed
qed

lemma csrf_charged:
  assumes "charged D V E who nxt" shows "charged D V E who (csrf nxt)"
proof (rule chargedI)
  fix r w r' w'
  assume fresh: "wrote w = None" and run: "csrf nxt r w = Done r' w'"
  show "charge D V E (who r w) w w'"
  proof (cases "csrf_passes r")
    case True
    with run show ?thesis by (intro chargedD [OF assms fresh]) (simp add: csrf.pass)
  next
    case False
    with run show ?thesis by (auto simp: csrf.stop intro!: charge_free)
  qed
qed

lemma maxBody_charged:
  assumes "charged D V E who nxt" and "\<And>r b w. who (r\<lparr>Body := b\<rparr>) w = who r w"
  shows "charged D V E who (maxBody nxt)"
proof (rule chargedI)
  fix r w r' w'
  assume fresh: "wrote w = None" and run: "maxBody nxt r w = Done r' w'"
  then obtain b where "nxt (r\<lparr>Body := b\<rparr>) w = Done r' w'"
    by (cases "is_read_method (Method r)") (auto simp: maxBody_def intro: that [of "Body r"])
  from chargedD [OF assms(1) fresh this] show "charge D V E (who r w) w w'" by (simp add: assms(2))
qed

lemma on_metrics_fields:
  assumes "on_metrics op w = Return w'"
  shows "limiter w' = limiter w" "database w' = database w" "key_cache w' = key_cache w" "wrote w' = wrote w"
  using assms by (auto simp: on_metrics_def map_outcome_Return)

lemma metrics_charged:
  assumes nxt: "charged D V E who nxt"
    and who: "\<And>r w w'. key_cache w' = key_cache w \<Longrightarrow> who r w' = who r w"
  shows "charged D V E who (metricsMiddleware F m E' nxt)"
proof (rule chargedI)
  fix r w r' w'
  assume fresh: "wrote w = None" and run: "metricsMiddleware F m E' nxt r w = Done r' w'"
  obtain w1 where w1: "on_metrics (gauge_Inc F (hm_active m)) w = Return w1"
    using run by (cases "on_metrics (gauge_Inc F (hm_active m)) w") (simp_all add: metricsMiddleware_def)
  obtain r2 w2 where w2: "nxt r (push_recorder w1) = Done r2 w2"
    using run w1 by (cases "nxt r (push_recorder w1)") (auto simp: metricsMiddleware_def split: outcome.splits)
  obtain w3 where w3: "record_request F m E' r2 w2 = Return w3"
    using run w1 w2 by (cases "record_request F m E' r2 w2") (auto simp: metricsMiddleware_def split: outcome.splits)
  have w4: "on_metrics (gauge_Dec F (hm_active m)) (pop_recorder w3) = Return w'"
    using run w1 w2 w3 by (auto simp: metricsMiddleware_def split: outcome.splits)
  obtain x op op' where x: "on_metrics op w2 = Return x" "on_metrics op' x = Return w3"
    using w3 by (auto simp: record_request_def Let_def bind_outcome_Return)
  have "limiter w3 = limiter w2 \<and> database w3 = database w2"
    by (simp add: on_metrics_fields [OF x(1)] on_metrics_fields [OF x(2)])
  moreover have "charge D V E (who r (push_recorder w1)) (push_recorder w1) w2"
    by (rule chargedD [OF nxt _ w2]) (simp add: on_metrics_fields [OF w1] fresh)
  ultimately have "charge D V E (who r (push_recorder w1)) w w'"
    by (auto elim!: charge_around simp: on_metrics_fields [OF w1] on_metrics_fields [OF w4])
  then show "charge D V E (who r w) w w'" using who [of "push_recorder w1" w r] by (simp add: on_metrics_fields [OF w1])
qed

context fixed_headers
begin

lemma quiet_charged:
  assumes "answers (\<lambda>r. cfg_step D V False) h"
  shows "charged D V E who h"
proof (rule chargedI)
  fix r w r' w'
  assume "wrote w = None" and run: "h r w = Done r' w'"
  then obtain w2 where "h r w = Done r w2" "same_shared w w2" "cfg_step D V False w w2"
    by (metis answersD [OF assms])
  then show "charge D V E (who r w) w w'" using run by (simp add: charge_def same_shared_def)
qed

lemma admin_charged:
  assumes "answers (\<lambda>r. cfg_step D V True) h"
  shows "charged D V E in_context (admin_chain E h)"
proof (rule chargedI)
  fix r w r' w'
  assume fresh: "wrote w = None" and run: "admin_chain E h r w = Done r' w'"
  show "charge D V E (in_context r w) w w'"
  proof (cases "PrincipalFromContext (Ctx r)")
    case None
    then show ?thesis using run by (auto simp: admin_chain_def adminMiddleware_def intro!: charge_free)
  next
    case (Some q)
    obtain ok rl where rl: "allow (env_rl_order E) (env_rl_now E) (Subject q) (limiter w) = Return (ok, rl)"
      using run Some by (cases "allow (env_rl_order E) (env_rl_now E) (Subject q) (limiter w)")
        (auto simp: admin_chain_def adminMiddleware_def)
    let ?w = "w\<lparr>limiter := rl\<rparr>"
    have "limiter w' = rl \<and> cfg_step D V ok w w'"
    proof (cases ok)
      case False
      then show ?thesis using run Some rl by (auto simp: admin_chain_def adminMiddleware_def intro!: cfg_step_same)
    next
      case True
      have "RequireRole ''admin'' h r ?w = Done r' w'"
        using run Some rl True by (simp add: admin_chain_def adminMiddleware_def)
      moreover obtain w2 where "RequireRole ''admin'' h r ?w = Done r w2" "same_shared ?w w2"
          "cfg_step D V (has_role_in ''admin'' r) ?w w2"
        by (rule answersD [OF role_serves [OF assms], of ?w]) (use fresh in simp)
      ultimately show ?thesis
        using True cfg_step_mono [of D V "has_role_in ''admin'' r" ?w w2 True] cfg_step_before [of ?w w D V True w2]
        by (simp add: same_shared_def)
    qed
    then show ?thesis using Some rl by (auto simp: charge_def)
  qed
qed

text \<open>The tables, from the inside out.\<close>

lemma ui_mux_charged:
  assumes "app_ok L p A"
  shows "charged (app_driver A) V E in_context (mux_serve (app_mux A) (ui_mux A E))"
proof (rule mux_charged)
  fix q assume "q \<in> set (ui_mux A E)"
  then consider "q = mk_pattern ''GET /'' (ui_home (app_codecs A) (storePageModel (app_driver A)))"
    | "q = mk_pattern ''PUT /ui/config/{key}'' (admin_chain E (ui_putConfig (app_codecs A) (storePageModel (app_driver A))))"
    using assms by (auto simp: ui_mux_def app_ok_def)
  then show "charged (app_driver A) V E in_context (pat_handler q)"
    by cases (simp_all add: quiet_charged [OF ui_home_answers] admin_charged [OF ui_putConfig_answers])
qed simp

lemma authed_charged:
  assumes A: "app_ok L p A"
  shows "charged (app_driver A) V E in_context (authed_handler A E)"
  unfolding authed_handler_def
proof (rule mux_charged)
  fix q assume "q \<in> set (authed_mux A E)"
  then consider "q = mk_pattern ''GET /api/me'' me" | "q = mk_pattern ''GET /api/version'' (versionHandler (app_build A))"
    | "q = mk_pattern ''GET /api/config'' (listConfig (app_driver A))"
    | "q = mk_pattern ''PUT /api/config/{key}'' (admin_chain E (putConfig (app_driver A) (app_codecs A)))"
    | "q = mk_pattern ''/'' (mux_serve (app_mux A) (ui_mux A E))"
    by (auto simp: authed_mux_def)
  then show "charged (app_driver A) V E in_context (pat_handler q)"
    by cases (simp_all add: quiet_charged [OF me_answers] quiet_charged [OF versionHandler_answers]
        quiet_charged [OF listConfig_answers] admin_charged [OF putConfig_answers] ui_mux_charged [OF A])
qed simp

lemma root_charged:
  assumes A: "app_ok L p A"
  shows "charged (app_driver A) V E (caller L p E) (mux_serve (app_mux A) (root_mux A E))"
proof (rule mux_charged)
  fix q assume "q \<in> set (root_mux A E)"
  then consider "q = mk_pattern ''GET /healthz'' healthz" | "q = mk_pattern ''GET /readyz'' (readyz (app_driver A))"
    | "q = mk_pattern ''GET /metrics'' (registryHandler (app_floats A) E)"
    | "q = mk_pattern ''/static/'' (app_static A)" | "q = mk_pattern ''/'' (authed_chain A E)"
    by (auto simp: root_mux_def)
  then show "charged (app_driver A) V E (caller L p E) (pat_handler q)"
  proof cases
    case 4
    obtain files where "static_ok files" "app_static A = StaticHandler files" using A by (auto simp: app_ok_def)
    then show ?thesis using 4 by (simp add: quiet_charged [OF static_answers])
  next
    case 5
    have auth: "app_auth A = authenticate_world L p" using A by (simp add: app_ok_def)
    have "charged (app_driver A) V E (caller L p E) (maxBody (csrf (Middleware (authenticate_world L p (env_auth E)) (authed_handler A E))))"
      by (rule maxBody_charged [OF csrf_charged [OF Middleware_charged [OF authed_charged [OF A]]]]) (rule caller_head, simp_all)
    from metrics_charged [OF this caller_head [OF refl]]
    have "charged (app_driver A) V E (caller L p E) (authed_chain A E)"
      unfolding authed_chain_def auth .
    then show ?thesis using 5 by simp
  qed (simp_all add: quiet_charged [OF healthz_answers] quiet_charged [OF readyz_answers] quiet_charged [OF registryHandler_answers])
qed (rule caller_head, simp_all)

end

lemma routes_charge:
  assumes A: "app_ok L p A" and fresh: "wrote w = None" and rand: "env_rand E = Some buf"
    and run: "Routes A E r w = Done r' w'"
  shows "charge (app_driver A) V E (caller L p E r w) w w'"
proof -
  let ?r = "with_id buf r" and ?w = "prepared A buf r w"
  obtain r1 w1 where w1: "mux_serve (app_mux A) (root_mux A E) ?r ?w = Done r1 w1"
    using run rand by (cases "mux_serve (app_mux A) (root_mux A E) ?r ?w")
      (simp_all add: Routes_def requestID_def logging_def securityHeaders_def serve_with_ctx_def prepared_def with_id_def Let_def)
  obtain lv attrs where "w' = log_to lv ''request'' attrs (pop_recorder w1)"
    using Routes_outer [OF rand w1] run by auto
  then have w': "limiter w' = limiter w1" "database w' = database w1" by simp_all
  have pre: "limiter ?w = limiter w" "key_cache ?w = key_cache w"
    using prepared_shared(1) [of w A buf r] by (simp_all add: same_shared_def)
  have "charge (app_driver A) V E (caller L p E ?r ?w) ?w w1"
    by (rule chargedD [OF sec.root_charged [OF A] _ w1]) (simp add: fresh)
  then have "charge (app_driver A) V E (caller L p E ?r ?w) w w'"
    by (rule charge_around) (simp_all add: pre w' prepared_shared(2))
  then show ?thesis using caller_head [of ?r r ?w w L p E] pre by simp
qed

section \<open>Sequences of requests\<close>

text \<open>How many of the requests of one subject change the configuration.\<close>

fun changes_by ::
  "('d, 'f) app \<Rightarrow> jwt_lib \<Rightarrow> jwtProvider \<Rightarrow> ('d, 'r) db_view \<Rightarrow> string
     \<Rightarrow> ('f env \<times> request) list \<Rightarrow> ('d, 'f) world \<Rightarrow> int" where
  "changes_by A L p V s [] w = 0"
| "changes_by A L p V s ((E, r) # reqs) w =
     (case Routes A E r (next_request w) of
        Done r' w' \<Rightarrow>
          (if view V w' \<noteq> view V w \<and> map_option Subject (caller L p E r w) = Some s then 1 else 0)
          + changes_by A L p V s reqs w'
      | Panicked e r' w' \<Rightarrow> 0)"

abbreviation request_time :: "'f env \<times> request \<Rightarrow> gotime" where
  "request_time x \<equiv> env_rl_now (fst x)"

lemma in_order_sorted: "in_order t reqs \<longleftrightarrow> sorted (t # map request_time reqs)"
  by (induction t reqs rule: in_order.induct) auto

text \<open>The subjects whose tokens can occur in a sequence.\<close>

definition subjects_in :: "jwt_lib \<Rightarrow> jwtProvider \<Rightarrow> string set \<Rightarrow> ('f env \<times> request) list \<Rightarrow> bool" where
  "subjects_in L p S reqs \<longleftrightarrow> (\<forall>(E, r) \<in> set reqs. \<forall>c q c'.
     client_ok c \<and> Authenticate L p (env_auth E) r c = Return (Inr q, c') \<longrightarrow> Subject q \<in> S)"

lemma count_ok_append:
  "length oks = length xs \<Longrightarrow> count_ok subj k (xs @ ys) (oks @ oks') = count_ok subj k xs oks + count_ok subj k ys oks'"
  by (induction subj k xs oks rule: count_ok.induct) auto

text \<open>One request as calls of the limiter: none or one.\<close>

lemma request_calls:
  assumes A: "app_ok L p A" and E: "env_ok E" "env_rand E \<noteq> None" and w: "world_ok (app_metrics A) t w" "t \<le> env_rl_now E"
    and D: "driver_ok (app_driver A) V" "tx V (database w) = None" and S: "subjects_in L p S [(E, r)]"
  shows "\<exists>w' cs oks. Routes A E r (next_request w) = Done r w' \<and> world_ok (app_metrics A) (env_rl_now E) w'
    \<and> tx V (database w') = None \<and> run_steps call_step cs (limiter w) = Return (oks, limiter w')
    \<and> (\<forall>s. (if view V w' \<noteq> view V w \<and> map_option Subject (caller L p E r w) = Some s then 1 else 0)
          \<le> count_ok c_subject s cs oks)
    \<and> length cs \<le> 1 \<and> (\<forall>c \<in> set cs. call_in S c \<and> c_time c = env_rl_now E)"
proof -
  let ?w = "next_request w"
  obtain buf where buf: "env_rand E = Some buf" using E(2) by auto
  have w1: "world_ok (app_metrics A) (env_rl_now E) ?w" by (rule world_ok_later [OF w])
  obtain w' where w': "Routes A E r ?w = Done r w'" "world_ok (app_metrics A) (env_rl_now E) w'"
      "cfg_step (app_driver A) V (may_change L p E r ?w) ?w w'"
    by (rule routes_run [OF A E(1) w1 _ _ buf]) auto
  have tx: "tx V (database w') = None" using w'(3) D unfolding cfg_step_def by simp
  have view: "view V ?w = view V w" by (simp add: view_def)
  have who: "caller L p E r ?w = caller L p E r w" by (rule caller_head) simp_all
  have kept: "view V w' = view V w" if "cfg_step (app_driver A) V False ?w w'"
    using that D view unfolding cfg_step_def by simp
  have "charge (app_driver A) V E (caller L p E r ?w) ?w w'" by (rule routes_charge [OF A _ buf w'(1)]) simp
  then consider (free) "limiter w' = limiter w" "cfg_step (app_driver A) V False ?w w'"
    | (call) q ok where "caller L p E r w = Some q" "cfg_step (app_driver A) V ok ?w w'"
        "allow (env_rl_order E) (env_rl_now E) (Subject q) (limiter w) = Return (ok, limiter w')"
    unfolding charge_def who by auto
  then show ?thesis
  proof cases
    case free
    then show ?thesis using w'(1,2) tx kept by (intro exI [of _ w'] exI [of _ "[]"]) simp
  next
    case (call q ok)
    let ?c = "\<lparr>c_time = env_rl_now E, c_subject = Subject q, c_order = env_rl_order E\<rparr>"
    obtain c where auth: "Authenticate L p (env_auth E) r (key_cache w) = Return (Inr q, c)"
      using call(1) by (auto simp: caller_def split: outcome.splits prod.splits sum.splits)
    have "rely (ae_key (env_auth E))" "client_ok (key_cache w) \<and> registered p"
      using A E(1) w(1) by (simp_all add: app_ok_def env_ok_def world_ok_def)
    from jwt.auth_subject [OF this auth] have "call_in S ?c"
      using S auth E(1) w(1) by (auto simp: call_in_def subjects_in_def env_ok_def world_ok_def)
    moreover have "run_steps call_step [?c] (limiter w) = Return ([ok], limiter w')"
      using call(3) by (simp add: call_step_def)
    moreover have "ok" if "view V w' \<noteq> view V w" using that kept call(2) by (cases ok) auto
    ultimately show ?thesis using w'(1,2) tx call(1)
      by (intro exI [of _ w'] exI [of _ "[?c]"] exI [of _ "[ok]"]) auto
  qed
qed

lemma run_calls:
  assumes A: "app_ok L p A" and D: "driver_ok (app_driver A) V"
  shows "sorted (t # map request_time reqs) \<Longrightarrow> \<forall>(E, r) \<in> set reqs. env_ok E \<and> env_rand E \<noteq> None \<Longrightarrow>
    world_ok (app_metrics A) t w \<Longrightarrow> tx V (database w) = None \<Longrightarrow> subjects_in L p S reqs \<Longrightarrow>
    \<exists>w' cs oks. serve_log A reqs w = Return w' \<and> world_ok (app_metrics A) (last (t # map request_time reqs)) w'
      \<and> tx V (database w') = None \<and> run_steps call_step cs (limiter w) = Return (oks, limiter w')
      \<and> (\<forall>s. changes_by A L p V s reqs w \<le> count_ok c_subject s cs oks)
      \<and> sorted (t # map c_time cs) \<and> (\<forall>c \<in> set cs. call_in S c \<and> c_time c \<in> request_time ` set reqs)"
proof (induction reqs arbitrary: t w)
  case Nil
  then show ?case by (intro exI [of _ w] exI [of _ "[]"]) simp
next
  case (Cons x reqs)
  obtain E r where x: "x = (E, r)" by fastforce
  have E: "env_ok E" "env_rand E \<noteq> None" "t \<le> env_rl_now E" and srt: "sorted (env_rl_now E # map request_time reqs)"
    and S: "subjects_in L p S [(E, r)]" "subjects_in L p S reqs"
    using Cons.prems x by (auto simp: subjects_in_def)
  obtain w1 cs1 oks1 where w1: "Routes A E r (next_request w) = Done r w1" "world_ok (app_metrics A) (env_rl_now E) w1"
      "tx V (database w1) = None" "run_steps call_step cs1 (limiter w) = Return (oks1, limiter w1)"
      "\<And>s. (if view V w1 \<noteq> view V w \<and> map_option Subject (caller L p E r w) = Some s then 1 else 0)
          \<le> count_ok c_subject s cs1 oks1"
      "length cs1 \<le> 1" "\<forall>c \<in> set cs1. call_in S c \<and> c_time c = env_rl_now E"
    using request_calls [OF A E(1,2) Cons.prems(3) E(3) D Cons.prems(4) S(1)] by metis
  obtain w' cs oks where w': "serve_log A reqs w1 = Return w'" "world_ok (app_metrics A) (last (env_rl_now E # map request_time reqs)) w'"
      "tx V (database w') = None" "run_steps call_step cs (limiter w1) = Return (oks, limiter w')"
      "\<And>s. changes_by A L p V s reqs w1 \<le> count_ok c_subject s cs oks"
      "sorted (env_rl_now E # map c_time cs)" "\<forall>c \<in> set cs. call_in S c \<and> c_time c \<in> request_time ` set reqs"
    using Cons.IH [OF srt _ w1(2,3) S(2)] Cons.prems(2) by auto
  have "run_steps call_step (cs1 @ cs) (limiter w) = Return (oks1 @ oks, limiter w')"
    unfolding run_steps_append using w1(4) w'(4) by blast
  moreover have "sorted (t # map c_time (cs1 @ cs))"
    using w1(6,7) w'(6) E(3) by (cases cs1) (auto intro: order_trans)
  moreover have "changes_by A L p V s (x # reqs) w \<le> count_ok c_subject s (cs1 @ cs) (oks1 @ oks)" for s
    using add_mono [OF w1(5) w'(5), of s s] w1(1) run_steps_length [OF w1(4)] by (auto simp: x count_ok_append split: if_splits)
  ultimately show ?case using w1(1,7) w'(1-3,7) x
    by (intro exI [of _ w'] exI [of _ "cs1 @ cs"] exI [of _ "oks1 @ oks"]) auto
qed

lemma last_in: "x \<in> set xs \<Longrightarrow> sorted (map f xs) \<Longrightarrow> f (hd xs) \<le> f x \<and> f x \<le> f (last xs)"
  for f :: "'a \<Rightarrow> int"
  by (induction xs) auto

lemma last_below: "a \<le> b \<Longrightarrow> (\<And>x. x \<in> set xs \<Longrightarrow> x \<le> b) \<Longrightarrow> last (a # xs) \<le> b"
  by (cases xs rule: rev_cases) auto

text \<open>The calls of a window, counted.\<close>

lemma window_count:
  assumes inv: "limiter_inv S rateLimitRate rateLimitBurst t rl" and srt: "sorted (t # map c_time cs)"
    and ok: "\<forall>c \<in> set cs. call_in S c \<and> a \<le> c_time c \<and> c_time c \<le> b" and ab: "a \<le> b"
    and run: "run_steps call_step cs rl = Return (oks, rl')"
  shows "count_ok c_subject s cs oks \<le> rateLimitBurst + (b - a) div rateLimitRate"
proof -
  have rate: "rateLimitRate = 500000000" and bst: "0 \<le> rateLimitBurst"
    by (simp_all add: rateLimitRate_def rateLimitBurst_def duration_defs quot64_def wrap64_def)
  have "rateLimitRate * count_ok c_subject s cs oks \<le> rateLimitBurst * rateLimitRate + (b - a)"
  proof (cases "cs = []")
    case True
    then show ?thesis using rate bst ab by simp
  next
    case False
    have "rateLimitRate * count_ok c_subject s cs oks
        \<le> rateLimitBurst * rateLimitRate + (c_time (last cs) - c_time (hd cs))"
      using limiter.run_window [OF inv, of "[]" cs "[]" oks rl' s] srt ok False run run_steps_length [OF run] by simp
    moreover have "c_time (last cs) \<le> b" "a \<le> c_time (hd cs)" using ok False by simp_all
    ultimately show ?thesis by linarith
  qed
  then show ?thesis unfolding rate by linarith
qed

section \<open>Properties\<close>

text \<open>C6: The write rate of the whole server: in any sequence of requests at non-decreasing times whose
  tokens name at most \<open>rateLimitMaxBuckets\<close> subjects (with more, an evicted bucket comes back full), and
  whatever the driver does, no subject changes the configuration in a window of it more often than the
  burst plus (length of the window)/rate. The counting is by the subject a request authenticates as,
  so several tokens, and the two mutation routes, share one allowance.\<close>

theorem server_write_rate:
  assumes A: "app_ok L p A" and start: "initial_world (app_floats A) (newJWKSClient url hc) d = Return (app_metrics A, w)"
    and ord: "in_order 0 (pre @ win)" and E: "\<forall>(E, r) \<in> set (pre @ win). env_ok E \<and> env_rand E \<noteq> None"
    and D: "driver_ok (app_driver A) V" "tx V d = None"
    and S: "finite S" "card S \<le> rateLimitMaxBuckets" "subjects_in L p S (pre @ win)" and ne: "win \<noteq> []"
  shows "\<exists>w1 w2. serve_log A pre w = Return w1 \<and> serve_log A win w1 = Return w2
    \<and> changes_by A L p V s win w1 \<le> rateLimitBurst + (request_time (last win) - request_time (hd win)) div rateLimitRate"
proof -
  have w: "limiter w = newRateLimiter rateLimitRate rateLimitBurst" "tx V (database w) = None"
    using start D(2) by (auto simp: initial_world_def map_outcome_Return)
  have inv: "limiter_inv S rateLimitRate rateLimitBurst 0 (limiter w)"
    using S initial_world_ok(1) [OF start] by (simp add: limiter_inv_def w world_ok_def) (simp add: newRateLimiter_def)
  let ?t = "last (0 # map request_time pre)"
  have srt: "sorted (0 # map request_time pre)" "sorted (?t # map request_time win)" "sorted (map request_time win)"
    using ord by (auto simp: in_order_sorted sorted_append last_map)
  have S2: "subjects_in L p S pre" "subjects_in L p S win" using S(3) by (auto simp: subjects_in_def)
  obtain w1 cs oks where w1: "serve_log A pre w = Return w1" "world_ok (app_metrics A) ?t w1" "tx V (database w1) = None"
      "run_steps call_step cs (limiter w) = Return (oks, limiter w1)" "sorted (0 # map c_time cs)"
      "\<forall>c \<in> set cs. call_in S c \<and> c_time c \<in> request_time ` set pre"
    using run_calls [OF A D(1) srt(1) _ initial_world_ok(1) [OF start] w(2) S2(1)] E by auto
  obtain w2 cs2 oks2 where w2: "serve_log A win w1 = Return w2"
      "run_steps call_step cs2 (limiter w1) = Return (oks2, limiter w2)"
      "changes_by A L p V s win w1 \<le> count_ok c_subject s cs2 oks2" "sorted (?t # map c_time cs2)"
      "\<forall>c \<in> set cs2. call_in S c \<and> c_time c \<in> request_time ` set win"
    using run_calls [OF A D(1) srt(2) _ w1(2,3) S2(2)] E by auto
  have inv1: "limiter_inv S rateLimitRate rateLimitBurst (last (0 # map c_time cs)) (limiter w1)"
    using limiter.run_returns [OF inv w1(5)] w1(4,6) by auto
  have "0 \<le> ?t" using srt(1) by (cases pre) (auto simp: last_map)
  moreover have "c_time c \<le> ?t" if c: "c \<in> set cs" for c
  proof -
    obtain x where x: "x \<in> set pre" "c_time c = request_time x" using w1(6) c by auto
    moreover have "request_time x \<le> request_time (last pre)" using last_in [OF x(1), of request_time] srt(1) by simp
    ultimately show ?thesis by (cases "pre = []") (simp_all add: last_map)
  qed
  ultimately have "last (0 # map c_time cs) \<le> ?t" by (intro last_below) auto
  then have "sorted (last (0 # map c_time cs) # map c_time cs2)" using w2(4) by (auto intro: order_trans)
  moreover have "\<forall>c \<in> set cs2. call_in S c \<and> request_time (hd win) \<le> c_time c \<and> c_time c \<le> request_time (last win)"
    using w2(5) last_in [OF _ srt(3)] by auto
  moreover have "request_time (hd win) \<le> request_time (last win)" using last_in [OF hd_in_set [OF ne] srt(3)] by simp
  ultimately have "count_ok c_subject s cs2 oks2
      \<le> rateLimitBurst + (request_time (last win) - request_time (hd win)) div rateLimitRate"
    using window_count [OF inv1] w2(2) by blast
  with w1(1) w2(1,3) show ?thesis by fastforce
qed

section \<open>A concrete sequence\<close>

text \<open>Twelve writes with the valid token at one instant, on a server that fetches its keys with the first.\<close>

definition burst_env :: "rat env" where
  "burst_env = web_env\<lparr>env_auth := sample_env\<lparr>ae_key := quiet_env sample_now (Response 200 '''' False)\<rparr>\<rparr>"

lemma burst_env_ok: "env_ok burst_env" "env_rand burst_env \<noteq> None" "0 \<le> env_rl_now burst_env"
  using web_env_ok by (simp_all add: env_ok_def burst_env_def)

lemma sample_subject:
  assumes "client_ok c" "rely (ae_key E)" and auth: "Authenticate sample_lib (fst cloudflare_provider) E r c = Return (Inr q, c')"
  shows "Subject q = ''alice''"
proof -
  let ?p = "fst cloudflare_provider" and ?token = "header_get (Header r) (cfg_Header (cfg (fst cloudflare_provider)))"
  obtain a c2 where v: "verify sample_lib ?p E ?token c = Return (a, c2)"
      "\<And>cl. a = Inr cl \<Longrightarrow> \<exists>t k x m. lib_parse sample_lib (jparser ?p) (ae_now E) ?token = Keyfunc t k
        \<and> k x = Inr m \<and> claimsFromMap sample_lib m = Inr cl"
    using verify_ok [OF assms(1,2), of ?p sample_lib ?token] put_cloudflare(3) by metis
  obtain cl where cl: "a = Inr cl" "mapFn ?p cl = Inr q"
    using auth v(1) by (auto simp: Authenticate_def Let_def split: if_splits sum.splits)
  from v(2) [OF cl(1)] have "claimsFromMap sample_lib sample_claims = Inr cl"
    by (auto simp: sample_step_def split: if_splits sum.splits) (metis sum.exhaust)+
  then have "c_sub cl = ''alice''" unfolding sample_cl by auto
  moreover have "Inr (mapCloudflareClaims cl IdentityRoleMapper) = (Inr q :: auth_error + principal)"
    using cl(2) unfolding put_cloudflare(5) .
  ultimately show ?thesis by (auto simp: mapCloudflareClaims_def)
qed

theorem server_write_rate_witness:
  "\<exists>w1. serve_log put_app (replicate 12 (burst_env, put_motd)) sample_world = Return w1
    \<and> changes_by put_app sample_lib (fst cloudflare_provider) mem_view ''alice'' (replicate 12 (burst_env, put_motd)) sample_world
      \<le> 10"
proof -
  let ?win = "replicate 12 (burst_env, put_motd)"
  have start: "initial_world (app_floats put_app) (newJWKSClient '''' \<lparr>hc_timeout = 0\<rparr>) (config_mem [])
      = Return (app_metrics put_app, sample_world)"
    using sample_start by (simp add: put_app_def)
  have ord: "in_order 0 ([] @ ?win)" using burst_env_ok(3) by (simp add: in_order_sorted)
  have env: "\<forall>(E, r) \<in> set ([] @ ?win). env_ok E \<and> env_rand E \<noteq> None" using burst_env_ok by simp
  have D: "driver_ok (app_driver put_app) mem_view" "tx mem_view (config_mem []) = None"
    using mem_driver_ok by (simp_all add: put_app_def mem_view_def config_mem_def)
  have "rely (ae_key (env_auth burst_env))" by (simp add: burst_env_def)
  then have S: "subjects_in sample_lib (fst cloudflare_provider) {''alice''} ([] @ ?win)"
    using sample_subject by (auto simp: subjects_in_def)
  have "finite {''alice''}" "card {''alice''} \<le> rateLimitMaxBuckets" "?win \<noteq> []" by (simp_all add: rateLimitMaxBuckets_def)
  from server_write_rate [OF put_app_ok start ord env D this(1,2) S this(3), of "''alice''"]
  show ?thesis by (auto simp: rateLimitBurst_def)
qed

end
