(* ===== verification/JwksCalls.thy ===== *)
theory JwksCalls
  imports JwksConcurrent
begin

text \<open>
  Calls of \<open>key\<close> in the goroutine system, from the reading of the clock to the answer. Two halves:
  what a call answers (the goroutines of the system are an environment \<open>jwks_key\<close> may rely on, so
  every answer is one \<open>jwks_key\<close> computes), and that it answers, in every run with weak fairness.
\<close>

abbreviation jwks_steps :: "(string \<Rightarrow> json option) \<Rightarrow> duration \<Rightarrow> jwks_sys \<Rightarrow> jwks_sys \<Rightarrow> bool" where
  "jwks_steps dec B \<equiv> rtranclp (jwks_step dec B)"

lemma steps_sys_ok:
  "jwks_steps dec B s s' \<Longrightarrow> B \<le> jwksMinRefreshInterval \<Longrightarrow> 0 < B \<Longrightarrow> sys_ok B s \<Longrightarrow> sys_ok B s'"
  by (induction rule: rtranclp_induct) (auto intro: step_sys_ok)

section \<open>What the others do\<close>

text \<open>As long as a goroutine fetches, only itself ends the fetch.\<close>

lemma others_keep_fetch:
  assumes step: "jwks_step dec B s s'" and ok: "sys_ok B s" and B: "B \<le> jwksMinRefreshInterval"
    and i: "fetcher s i" "gs s' i = gs s i"
  shows "fetching (client s') = fetching (client s)"
  using step i
proof cases
  case (enter j now kid r c)
  then have "r \<noteq> StartFetch" using claim_finds_slot_free [OF ok B] i(1) by blast
  from enter_other [OF enter(4) this] enter show ?thesis by simp
next
  case (close_ok j err now kid c)
  then have "fetcher s j" by (simp add: fetcher_def)
  with close_ok i sys_okD(3) [OF ok] show ?thesis by fastforce
qed simp_all

lemma closed_stays: "jwks_step dec B s s' \<Longrightarrow> closedChans (client s) \<subseteq> closedChans (client s')"
proof (induction rule: jwks_step.induct)
  case (enter s i now kid r c)
  then show ?case
    by (cases rule: key_enter_cases [where c = "client s" and kid = kid and now = now]) (auto simp: claim_fetch_def)
qed (auto simp: close_fetching_Return)

text \<open>How far a goroutine is from its answer; its own steps bring it closer.\<close>

fun distance :: "goroutine \<Rightarrow> nat" where
  "distance (Started kid) = 5"
| "distance (Timed now kid) = 4"
| "distance (Fetching now kid) = 3"
| "distance (Fetched err now kid) = 2"
| "distance (Closed err kid) = 1"
| "distance (Waiting ch kid) = 1"
| "distance _ = 0"

lemma own_move:
  assumes "jwks_step dec B s s'" and "gs s i = Some g" and "gs s' i \<noteq> Some g"
  shows "\<exists>g'. gs s' i = Some g' \<and> distance g' < distance g"
  using assms
proof cases
  case (enter j now kid r c)
  then show ?thesis using assms by (cases r) (auto split: if_splits)
qed (auto split: if_splits)

section \<open>What a call answers\<close>

text \<open>The environments of two kinds of call: one that waits, and one that fetches.\<close>

definition wait_env :: "gotime \<Rightarrow> jwksClient \<Rightarrow> bool \<Rightarrow> key_env" where
  "wait_env now c ended = \<lparr>e_now = now, e_swap_now = now, e_response = TransportError, e_others = (\<lambda>_ c. c),
     e_wait = (\<lambda>_. c), e_cancelled = ended\<rparr>"

definition fetch_env ::
  "gotime \<Rightarrow> gotime \<Rightarrow> http_outcome \<Rightarrow> (nat \<Rightarrow> jwksClient \<times> jwksClient) \<Rightarrow> key_env" where
  "fetch_env now t resp gaps = \<lparr>e_now = now, e_swap_now = t, e_response = resp,
     e_others = (\<lambda>i c. if c = fst (gaps i) then snd (gaps i) else c), e_wait = (\<lambda>c. c), e_cancelled = False\<rparr>"

lemma wait_env_rely: "client_ok c \<Longrightarrow> rely (wait_env now c ended)"
  by (simp add: rely_def wait_env_def)

lemma fetch_env_rely:
  "(\<And>i. client_ok (snd (gaps i))) \<Longrightarrow>
   (\<And>i. fetching (fst (gaps i)) \<noteq> None \<Longrightarrow> fetching (snd (gaps i)) = fetching (fst (gaps i))) \<Longrightarrow>
   rely (fetch_env now t resp gaps)"
  by (auto simp: rely_def fetch_env_def)

lemma env_now [simp]: "e_now (wait_env now c ended) = now" "e_now (fetch_env now t resp gaps) = now"
  by (simp_all add: wait_env_def fetch_env_def)

text \<open>
  The trail of a goroutine that read the clock (\<open>now\<close>, for key id \<open>kid\<close>) in state \<open>s0\<close>: what its state
  in \<open>s\<close> says about the way it came. \<open>s1\<close> is the state in which it entered its first section.
\<close>

fun trail ::
  "(string \<Rightarrow> json option) \<Rightarrow> duration \<Rightarrow> gotime \<Rightarrow> string \<Rightarrow> jwks_sys \<Rightarrow> goroutine \<Rightarrow> jwks_sys \<Rightarrow> bool" where
  "trail dec B now kid s0 (Timed n k) s \<longleftrightarrow> n = now \<and> k = kid"
| "trail dec B now kid s0 (Waiting ch k) s \<longleftrightarrow> k = kid \<and>
     (\<exists>s1. jwks_steps dec B s0 s1 \<and> jwks_steps dec B s1 s \<and> key_enter now kid (client s1) = (WaitOn ch, client s1))"
| "trail dec B now kid s0 (Fetching n k) s \<longleftrightarrow> n = now \<and> k = kid \<and>
     (\<exists>s1. jwks_steps dec B s0 s1 \<and> jwks_steps dec B s1 s
        \<and> key_enter now kid (client s1) = (StartFetch, claim_fetch now (client s1))
        \<and> fetching (client s) = Some (nextChan (client s1)))"
| "trail dec B now kid s0 (Fetched err n k) s \<longleftrightarrow> n = now \<and> k = kid \<and>
     (\<exists>s1 resp new c. jwks_steps dec B s0 s1 \<and> jwks_steps dec B s1 s
        \<and> key_enter now kid (client s1) = (StartFetch, claim_fetch now (client s1))
        \<and> fetch dec resp = (err, new) \<and> client_ok c \<and> fetching c = Some (nextChan (client s1))
        \<and> fetching (client s) = Some (nextChan (client s1)))"
| "trail dec B now kid s0 (Closed err k) s \<longleftrightarrow> k = kid \<and>
     (\<exists>s1. jwks_steps dec B s0 s1 \<and> jwks_steps dec B s1 s
        \<and> (\<forall>c'. client_ok c' \<longrightarrow> (\<exists>E. rely E \<and> e_now E = now \<and>
             jwks_key dec E kid (client s1) = Return (answer err kid c', c'))))"
| "trail dec B now kid s0 (Answered r) s \<longleftrightarrow>
     (\<exists>s1 s2 E. jwks_steps dec B s0 s1 \<and> jwks_steps dec B s1 s2 \<and> jwks_steps dec B s2 s
        \<and> rely E \<and> e_now E = now \<and> jwks_key dec E kid (client s1) = Return (r, client s2))"
| "trail dec B now kid s0 _ s \<longleftrightarrow> False"

text \<open>A call that fetched: its three gaps make an environment \<open>jwks_key\<close> may rely on.\<close>

lemma fetching_call:
  assumes e: "key_enter now kid c0 = (StartFetch, claim_fetch now c0)" and f: "fetch dec resp = (err, new)"
    and c1: "client_ok c1" "fetching c1 = Some (nextChan c0)"
    and c2: "client_ok c2" "fetching c2 = Some (nextChan c0)" "close_fetching c2 = Return c3"
    and c4: "client_ok c4"
  shows "\<exists>E. rely E \<and> e_now E = now \<and> jwks_key dec E kid c0 = Return (answer err kid c4, c4)"
proof -
  let ?gaps = "\<lambda>i. if i = 0 then (claim_fetch now c0, c1) else if i = Suc 0 then (apply_fetch new t c1, c2) else (c3, c4)"
  let ?E = "fetch_env now t resp ?gaps"
  have "fetching c3 = None" using c2(3) by (auto simp: close_fetching_Return)
  then have "rely ?E"
    using c1 c2 c4 by (intro fetch_env_rely) (auto simp: claim_fetch_def split: if_splits)
  moreover have "jwks_key dec ?E kid c0 = Return (answer err kid c4, c4)"
    using e f c2(3) by (simp add: jwks_key_def fetch_and_answer_def Let_def fetch_env_def numeral_2_eq_2)
  ultimately show ?thesis by (intro exI [of _ ?E]) simp
qed

lemma trail_later:
  assumes t: "trail dec B now kid s0 g s" and step: "jwks_step dec B s s'"
    and keep: "in_fetch g \<Longrightarrow> fetching (client s') = fetching (client s)"
  shows "trail dec B now kid s0 g s'"
proof -
  have later: "jwks_steps dec B s1 s \<Longrightarrow> jwks_steps dec B s1 s'" for s1
    using step by (rule rtranclp.rtrancl_into_rtrancl [rotated])
  show ?thesis using t keep by (cases g) (simp_all, (blast intro: later)+)
qed

lemma answered_trail:
  assumes "jwks_steps dec B s0 s1" "jwks_steps dec B s1 s" "jwks_step dec B s s'"
    and "rely E" "e_now E = now" "jwks_key dec E kid (client s1) = Return (r, client s')"
  shows "trail dec B now kid s0 (Answered r) s'"
  using assms rtranclp.rtrancl_into_rtrancl [OF assms(2,3)] by auto

text \<open>Entering, and each own step after it, extends the trail.\<close>

lemma enter_trail:
  assumes e: "key_enter now kid (client s) = (r, c)" and s: "jwks_steps dec B s0 s" "client_ok (client s)"
    and s': "jwks_step dec B s s'" "client s' = c"
  shows "trail dec B now kid s0 (after_enter r now kid) s'"
proof -
  have later: "jwks_steps dec B s s'" using s'(1) by (rule r_into_rtranclp)
  show ?thesis
  proof (cases "r = StartFetch")
    case True
    with e enter_StartFetch have c: "c = claim_fetch now (client s)" by blast
    then show ?thesis
      using e True s(1) s'(2) later by (auto simp: claim_fetch_def intro!: exI [of _ s])
  next
    case False
    with e have c: "c = client s" by (rule enter_other)
    let ?E = "wait_env now (client s) False"
    have E: "rely ?E" "e_now ?E = now" using wait_env_rely [OF s(2)] by simp_all
    have "\<exists>E. rely E \<and> e_now E = now \<and> jwks_key dec E kid (client s) = Return (a, client s')"
      if "after_enter r now kid = Answered a" for a
      using that e c s'(2) False E
      by (intro exI [of _ ?E]) (cases r; simp add: jwks_key_def)
    then have "trail dec B now kid s0 (Answered a) s'" if "after_enter r now kid = Answered a" for a
      using that s(1) later by simp blast
    moreover have "trail dec B now kid s0 (Waiting ch kid) s'" if "r = WaitOn ch" for ch
      using e c s(1) later that by auto
    ultimately show ?thesis using False by (cases r) simp_all
  qed
qed

lemma own_trail:
  assumes step: "jwks_step dec B s s'" and s: "jwks_steps dec B s0 s" and ok: "sys_ok B s" "sys_ok B s'"
    and g: "gs s i = Some g" "gs s' i = Some g'" "g' \<noteq> g" and t: "trail dec B now kid s0 g s"
  shows "trail dec B now kid s0 g' s'"
  using step
proof cases
  case (enter j n k r c)
  then have j: "j = i" using g by (auto split: if_splits)
  then show ?thesis
    using enter_trail [OF _ s sys_okD(1) [OF ok(1)] step, of n k r c] enter g t by simp
next
  case (wake j ch k)
  then have "j = i" using g by (auto split: if_splits)
  then have k: "g = Waiting ch kid" "k = kid" "g' = Answered (answer None kid (client s))" "client s' = client s"
    using wake g t by auto
  obtain s1 where s1: "jwks_steps dec B s0 s1" "jwks_steps dec B s1 s" "key_enter now kid (client s1) = (WaitOn ch, client s1)"
    using t k by auto
  let ?E = "wait_env now (client s) False"
  have "jwks_key dec ?E kid (client s1) = Return (answer None kid (client s), client s')"
    using s1(3) wake(4) k(4) by (simp add: jwks_key_def waited_def wait_env_def Let_def)
  then show ?thesis
    unfolding k(3) using wait_env_rely [OF sys_okD(1) [OF ok(1)]] by (intro answered_trail [OF s1(1,2) step]) simp_all
next
  case (cancel j ch k)
  then have "j = i" using g by (auto split: if_splits)
  then have k: "g = Waiting ch kid" "g' = Answered (Inl CtxDone)" "client s' = client s"
    using cancel g t by auto
  obtain s1 where s1: "jwks_steps dec B s0 s1" "jwks_steps dec B s1 s" "key_enter now kid (client s1) = (WaitOn ch, client s1)"
    using t k by auto
  let ?E = "wait_env now (client s) True"
  have "jwks_key dec ?E kid (client s1) = Return (Inl CtxDone, client s')"
    using s1(3) k(3) by (simp add: jwks_key_def waited_def wait_env_def Let_def)
  then show ?thesis
    unfolding k(2) using wait_env_rely [OF sys_okD(1) [OF ok(1)]] by (intro answered_trail [OF s1(1,2) step]) simp_all
next
  case (fetched j n k resp err new)
  then have "j = i" using g by (auto split: if_splits)
  then have k: "g = Fetching now kid" "g' = Fetched err now kid" "fetching (client s') = fetching (client s)"
    using fetched g t by auto
  obtain s1 where s1: "jwks_steps dec B s0 s1" "jwks_steps dec B s1 s"
      "key_enter now kid (client s1) = (StartFetch, claim_fetch now (client s1))" "fetching (client s) = Some (nextChan (client s1))"
    using t k by auto
  then show ?thesis
    unfolding k(2) using k(3) step fetched(3) sys_okD(1) [OF ok(1)]
    by (auto intro!: exI [of _ s1] exI [of _ "client s"])
next
  case (close_ok j err n k c)
  then have "j = i" using g by (auto split: if_splits)
  then have k: "g = Fetched err now kid" "g' = Closed err kid" using close_ok g t by auto
  obtain s1 resp new c1 where s1: "jwks_steps dec B s0 s1" "jwks_steps dec B s1 s"
      "key_enter now kid (client s1) = (StartFetch, claim_fetch now (client s1))" "fetch dec resp = (err, new)"
      "client_ok c1" "fetching c1 = Some (nextChan (client s1))" "fetching (client s) = Some (nextChan (client s1))"
    using t k by auto
  have "\<exists>E. rely E \<and> e_now E = now \<and> jwks_key dec E kid (client s1) = Return (answer err kid c', c')"
    if "client_ok c'" for c'
    by (rule fetching_call [OF s1(3,4,5,6) sys_okD(1) [OF ok(1)] s1(7) close_ok(4) that])
  then show ?thesis unfolding k(2) using s1(1,2) step by (auto intro!: exI [of _ s1])
next
  case (finish j err k)
  then have "j = i" using g by (auto split: if_splits)
  then have k: "g = Closed err kid" "g' = Answered (answer err kid (client s))" "client s' = client s"
    using finish g t by auto
  obtain s1 E where s1: "jwks_steps dec B s0 s1" "jwks_steps dec B s1 s"
      "rely E" "e_now E = now" "jwks_key dec E kid (client s1) = Return (answer err kid (client s), client s)"
    using t k sys_okD(1) [OF ok(1)] by auto
  then show ?thesis unfolding k(2) using k(3) by (intro answered_trail [OF s1(1,2) step]) simp_all
next
  case (close_panic j err n k e)
  then have "gs s' j = Some Crashed" by simp
  then show ?thesis using sys_okD(9) [OF ok(2), of j] by simp
qed (use g t in \<open>auto split: if_splits\<close>)

lemma steps_trail:
  assumes "jwks_steps dec B s0 s" and B: "B \<le> jwksMinRefreshInterval" "0 < B" and ok: "sys_ok B s0"
    and g: "gs s0 i = Some (Timed now kid)"
  shows "\<exists>g. gs s i = Some g \<and> trail dec B now kid s0 g s"
  using assms(1)
proof (induction rule: rtranclp_induct)
  case base
  then show ?case using g by simp
next
  case (step s s')
  then obtain h where h: "gs s i = Some h" "trail dec B now kid s0 h s" by blast
  have s: "sys_ok B s" "sys_ok B s'"
    using steps_sys_ok [OF step(1) B ok] step_sys_ok [OF step(2) B] by blast+
  show ?case
  proof (cases "gs s' i = gs s i")
    case True
    then show ?thesis
      using h trail_later [OF h(2) step(2)] others_keep_fetch [OF step(2) s(1) B(1), of i] by (auto simp: fetcher_def)
  next
    case False
    then obtain h' where "gs s' i = Some h'" "h' \<noteq> h" using own_move [OF step(2) h(1)] h(1) by auto
    then show ?thesis using own_trail [OF step(2,1) s h(1) _ _ h(2)] by blast
  qed
qed

section \<open>Calls return\<close>

text \<open>
  What a goroutine inside \<open>key\<close> can do by itself; giving up because its context ended does not count.
  In a fair run a goroutine that can go on for ever at some time does.
\<close>

definition can_go :: "(string \<Rightarrow> json option) \<Rightarrow> duration \<Rightarrow> jwks_sys \<Rightarrow> nat \<Rightarrow> bool" where
  "can_go dec B s i \<longleftrightarrow> gs s i \<noteq> None \<and>
     (\<exists>s'. jwks_step dec B s s' \<and> gs s' i \<noteq> gs s i \<and> gs s' i \<noteq> Some (Answered (Inl CtxDone)))"

definition fair_run :: "(string \<Rightarrow> json option) \<Rightarrow> duration \<Rightarrow> (nat \<Rightarrow> jwks_sys) \<Rightarrow> bool" where
  "fair_run dec B run \<longleftrightarrow> (\<forall>n. jwks_step dec B (run n) (run (Suc n))) \<and>
     (\<forall>i n. (\<forall>m\<ge>n. can_go dec B (run m) i) \<longrightarrow> (\<exists>m\<ge>n. gs (run (Suc m)) i \<noteq> gs (run m) i))"

lemma can_goI:
  "jwks_step dec B s s' \<Longrightarrow> gs s i = Some g \<Longrightarrow> gs s' i = Some g' \<Longrightarrow> g' \<noteq> g \<Longrightarrow> g' \<noteq> Answered (Inl CtxDone) \<Longrightarrow>
     can_go dec B s i"
  by (auto simp: can_go_def)

lemma woken_can_go:
  assumes "sys_ok B s" and "gs s i = Some (Waiting ch kid)" and "ch \<in> closedChans (client s)"
  shows "can_go dec B s i"
  using jwks_step.wake [OF assms(2) sys_okD(2) [OF assms(1)] assms(3)] assms(2)
  by (rule can_goI) (auto simp: answer_def split: option.splits)

lemma working_can_go:
  assumes ok: "sys_ok B s" and g: "gs s i = Some g" "distance g \<noteq> 0" "\<nexists>ch kid. g = Waiting ch kid"
  shows "can_go dec B s i"
proof -
  have free: "\<not> stuck s" by (rule sys_okD(2) [OF ok])
  show ?thesis
  proof (cases g)
    case (Started kid)
    from jwks_step.read_clock [OF g(1) [unfolded Started]] g(1) show ?thesis by (rule can_goI) (simp, simp_all add: Started)
  next
    case (Timed now kid)
    obtain r c where e: "key_enter now kid (client s) = (r, c)" by fastforce
    from jwks_step.enter [OF g(1) [unfolded Timed] free e] g(1) show ?thesis
      by (rule can_goI [where g' = "after_enter r now kid"]) (simp, (cases r; simp add: Timed)+)
  next
    case (Fetching now kid)
    have f: "fetch dec TransportError = (Some HttpFailed, None)" by (simp add: fetch_def)
    from jwks_step.fetched [OF g(1) [unfolded Fetching] f] g(1) show ?thesis by (rule can_goI) (simp, simp, simp_all add: Fetching)
  next
    case (Fetched err now kid)
    then have "fetching (client s) \<noteq> None" using sys_okD(4) [OF ok g(1)] by simp
    then obtain c where "close_fetching (client s) = Return c"
      using close_fetching_ok [OF sys_okD(1) [OF ok]] by blast
    from jwks_step.close_ok [OF g(1) [unfolded Fetched] free this] g(1) show ?thesis
      by (rule can_goI) (simp, simp_all add: Fetched)
  next
    case (Closed err kid)
    from jwks_step.finish [OF g(1) [unfolded Closed] free] g(1) show ?thesis
      by (rule can_goI) (auto simp: Closed answer_def split: option.splits)
  qed (use g in auto)
qed

lemma run_ok:
  assumes "fair_run dec B run" and "jwks_reach dec B (run 0)" and "0 < B" and "B \<le> jwksMinRefreshInterval"
  shows "sys_ok B (run n)"
proof (induction n)
  case 0
  show ?case by (rule reach_sys_ok [OF assms(2,4,3)])
next
  case (Suc n)
  have "jwks_step dec B (run n) (run (Suc n))" using assms(1) by (simp add: fair_run_def)
  then show ?case by (rule step_sys_ok [OF _ assms(4,3) Suc])
qed

lemma first_change:
  assumes "P n" and "n \<le> m" and "\<not> P m"
  shows "\<exists>k. n \<le> k \<and> (\<forall>j. n \<le> j \<and> j \<le> k \<longrightarrow> P j) \<and> \<not> P (Suc k)"
proof (rule ccontr)
  assume no: "\<not> ?thesis"
  have "\<forall>j. n \<le> j \<and> j \<le> m \<longrightarrow> P j"
    using assms(2) by (induction rule: dec_induct) (use assms(1) no in \<open>auto simp: le_Suc_eq\<close>)
  then show False using assms(2,3) by blast
qed

text \<open>A goroutine that can go on as long as it stays where it is leaves that place: the next step it makes.\<close>

lemma next_move:
  assumes fair: "fair_run dec B run" and g: "gs (run n) i = Some g"
    and go: "\<And>m. n \<le> m \<Longrightarrow> gs (run m) i = Some g \<Longrightarrow> can_go dec B (run m) i"
  shows "\<exists>m. n \<le> m \<and> (\<forall>k. n \<le> k \<and> k \<le> m \<longrightarrow> gs (run k) i = Some g) \<and> gs (run (Suc m)) i \<noteq> Some g"
proof -
  have ex: "\<exists>m\<ge>n. gs (run (Suc m)) i \<noteq> Some g"
  proof (rule ccontr)
    assume no: "\<not> ?thesis"
    have stay: "gs (run m) i = Some g" if "n \<le> m" for m
      using that g no by (induction rule: dec_induct) auto
    then have "\<forall>m\<ge>n. can_go dec B (run m) i" using go by blast
    then obtain m where "n \<le> m" "gs (run (Suc m)) i \<noteq> gs (run m) i" using fair unfolding fair_run_def by blast
    then show False using stay [of m] stay [of "Suc m"] by simp
  qed
  then show ?thesis using first_change [of "\<lambda>k. gs (run k) i = Some g"] g by (meson le_SucI)
qed

text \<open>The next step of a goroutine that fetches, with the channel it has to close.\<close>

lemma fetcher_moves:
  assumes fair: "fair_run dec B run" and ok: "\<And>m. sys_ok B (run m)" and B: "B \<le> jwksMinRefreshInterval"
    and g: "gs (run n) j = Some g" "in_fetch g" and ch: "fetching (client (run n)) = Some ch"
  obtains m g' where "n \<le> m" "gs (run m) j = Some g'" "distance g' < distance g"
    "fetching (client (run m)) = Some ch \<and> in_fetch g' \<or> ch \<in> closedChans (client (run m))"
proof -
  have step: "jwks_step dec B (run m) (run (Suc m))" for m using fair by (simp add: fair_run_def)
  have "can_go dec B (run m) j" if "gs (run m) j = Some g" for m
    by (rule working_can_go [OF ok that]) (use g(2) in \<open>cases g; simp\<close>)+
  from next_move [OF fair g(1) this]
  obtain m where m: "n \<le> m" "\<And>k. n \<le> k \<Longrightarrow> k \<le> m \<Longrightarrow> gs (run k) j = Some g" "gs (run (Suc m)) j \<noteq> Some g"
    by blast
  have still: "fetching (client (run k)) = Some ch" if "n \<le> k" "k \<le> m" for k
    using that
  proof (induction k rule: dec_induct)
    case (step k)
    moreover have "fetcher (run k) j" "gs (run (Suc k)) j = gs (run k) j"
      using m(2) [of k] m(2) [of "Suc k"] step g(2) by (simp_all add: fetcher_def)
    ultimately show ?case
      using others_keep_fetch [OF \<open>\<And>m. jwks_step dec B (run m) (run (Suc m))\<close> ok B, of k j] by simp
  qed (rule ch)
  obtain g' where g': "gs (run (Suc m)) j = Some g'" "distance g' < distance g"
    using own_move [OF step m(2) m(3)] m(1) by blast
  have "fetching (client (run (Suc m))) = Some ch \<and> in_fetch g' \<or> ch \<in> closedChans (client (run (Suc m)))"
    using step [of m] m(2) [of m] still [of m] m(1,3) g' g(2) sys_okD(9) [OF ok, of "Suc m" j]
  proof cases
    case (enter i now kid r c)
    then show ?thesis using m(1) m(2) [of m] m(3) g(2) by (auto split: if_splits)
  qed (auto simp: close_fetching_Return split: if_splits)
  then show thesis using that [of "Suc m" g'] m(1) g' by simp
qed

lemma fetch_ends:
  assumes fair: "fair_run dec B run" and ok: "\<And>m. sys_ok B (run m)" and B: "B \<le> jwksMinRefreshInterval"
  shows "gs (run n) j = Some g \<Longrightarrow> in_fetch g \<Longrightarrow> fetching (client (run n)) = Some ch \<Longrightarrow>
    \<exists>m\<ge>n. ch \<in> closedChans (client (run m))"
proof (induction "distance g" arbitrary: n g rule: less_induct)
  case less
  obtain m g' where m: "n \<le> m" "gs (run m) j = Some g'" "distance g' < distance g"
      "fetching (client (run m)) = Some ch \<and> in_fetch g' \<or> ch \<in> closedChans (client (run m))"
    by (rule fetcher_moves [OF fair ok B less.prems])
  then show ?case using less.hyps [OF m(3,2)] by (meson order_trans)
qed

text \<open>Whoever has not answered moves on.\<close>

lemma moves_on:
  assumes fair: "fair_run dec B run" and ok: "\<And>m. sys_ok B (run m)" and B: "B \<le> jwksMinRefreshInterval"
    and g: "gs (run n) i = Some g" "distance g \<noteq> 0"
  shows "\<exists>m\<ge>n. \<exists>g'. gs (run m) i = Some g' \<and> distance g' < distance g"
proof -
  have step: "jwks_step dec B (run m) (run (Suc m))" for m using fair by (simp add: fair_run_def)
  have moved: ?thesis if "n \<le> n'" "gs (run n') i = Some g"
    "\<And>m. n' \<le> m \<Longrightarrow> gs (run m) i = Some g \<Longrightarrow> can_go dec B (run m) i" for n'
    using next_move [OF fair that(2,3)] own_move [OF step] that(1) by (meson order_trans le_SucI order_refl)
  show ?thesis
  proof (cases "\<exists>ch kid. g = Waiting ch kid")
    case False
    then show ?thesis using g working_can_go [OF ok _ g(2)] by (intro moved [OF order_refl]) auto
  next
    case True
    then obtain ch kid where w: "g = Waiting ch kid" by blast
    have "\<exists>m\<ge>n. ch \<in> closedChans (client (run m))"
    proof (cases "ch \<in> closedChans (client (run n))")
      case False
      then have "fetching (client (run n)) = Some ch" using sys_okD(6) [OF ok g(1) [unfolded w]] by blast
      moreover obtain j h where "gs (run n) j = Some h" "in_fetch h"
        using sys_okD(5) [OF ok, of n] calculation by (auto simp: fetcher_def)
      ultimately show ?thesis using fetch_ends [OF fair ok B] by blast
    qed blast
    then obtain m where m: "n \<le> m" "ch \<in> closedChans (client (run m))" by blast
    have closed: "ch \<in> closedChans (client (run k))" if "m \<le> k" for k
      using that
    proof (induction k rule: dec_induct)
      case (step k)
      then show ?case using closed_stays [OF \<open>\<And>m. jwks_step dec B (run m) (run (Suc m))\<close>] by blast
    qed (rule m(2))
    show ?thesis
    proof (cases "gs (run m) i = Some g")
      case True
      then show ?thesis
        using woken_can_go [OF ok _ closed] w by (intro moved [OF m(1)]) auto
    next
      case False
      then obtain k where "n \<le> k" "gs (run k) i = Some g" "gs (run (Suc k)) i \<noteq> Some g"
        using first_change [of "\<lambda>k. gs (run k) i = Some g", OF _ m(1)] g(1) by blast
      then show ?thesis using own_move [OF step, of k i g] by (meson le_SucI)
    qed
  qed
qed

section \<open>Properties\<close>

text \<open>C10: What \<open>key\<close> answers under concurrency: from a reachable state, whatever the other calls, the
  provider and the contexts do, and as long as a fetch ends within the refresh interval, an answer is
  the one the sequential reading computes from the client the call found, in an environment that only
  does what \<open>jwks_key\<close> may rely on. A key in it is cached for that id at the moment of the answer and
  fit for use, and the empty id never gets one.\<close>

theorem concurrent_answer_sound:
  assumes reach: "jwks_reach dec B s" and B: "0 < B" "B \<le> jwksMinRefreshInterval"
    and entry: "gs s i = Some (Timed now kid)" and run: "rtranclp (jwks_step dec B) s s'"
    and ans: "gs s' i = Some (Answered r)"
  shows "\<exists>E s1 s2. rtranclp (jwks_step dec B) s s1 \<and> rtranclp (jwks_step dec B) s1 s2 \<and> rtranclp (jwks_step dec B) s2 s'
    \<and> rely E \<and> e_now E = now \<and> jwks_key dec E kid (client s1) = Return (r, client s2)
    \<and> (\<forall>key. r = Inr key \<longrightarrow> keys (client s2) kid = Some key \<and> key_ok key \<and> kid \<noteq> '''')"
proof -
  have ok: "sys_ok B s" by (rule reach_sys_ok [OF reach B(2,1)])
  obtain E s1 s2 where t: "jwks_steps dec B s s1" "jwks_steps dec B s1 s2" "jwks_steps dec B s2 s'"
      "rely E" "e_now E = now" "jwks_key dec E kid (client s1) = Return (r, client s2)"
    using steps_trail [OF run B(2,1) ok entry] ans by auto
  have "client_ok (client s1)" by (rule sys_okD(1) [OF steps_sys_ok [OF t(1) B(2,1) ok]])
  from jwks_key_sound_aux [OF this t(4), of dec kid] t show ?thesis by auto
qed

text \<open>C32: Every call of \<open>key\<close> returns: in every run of the cache in which a fetch ends within the refresh
  interval and no goroutine that can go on for ever is passed over for ever, a goroutine inside \<open>key\<close>
  ends with an answer, wherever it is and whatever new calls arrive. In particular a waiter is woken
  without the help of its context: its fetch ends, closes the channel it waits on, and the channel
  stays closed.\<close>

theorem calls_return:
  assumes fair: "fair_run dec B run" and start: "jwks_reach dec B (run 0)" and B: "0 < B" "B \<le> jwksMinRefreshInterval"
    and inside: "gs (run n) i = Some g"
  shows "\<exists>m\<ge>n. \<exists>r. gs (run m) i = Some (Answered r)"
  using inside
proof (induction "distance g" arbitrary: n g rule: less_induct)
  case less
  have ok: "sys_ok B (run m)" for m by (rule run_ok [OF fair start B])
  show ?case
  proof (cases "distance g = 0")
    case True
    then show ?thesis using less.prems sys_okD(9) [OF ok] by (cases g) auto
  next
    case False
    then obtain m g' where "n \<le> m" "gs (run m) i = Some g'" "distance g' < distance g"
      using moves_on [OF fair ok B(2) less.prems] by blast
    then show ?thesis using less.hyps by (meson order_trans)
  qed
qed

section \<open>A concrete run\<close>

text \<open>Goroutine 0 fetches the sample document, goroutine 1 waits for it and is answered with its key.\<close>

definition fetched_sys :: jwks_sys where
  "fetched_sys = put 0 (Fetched None jwksTTL ''k'') (waiting_sys
     \<lparr>client := apply_fetch (Some [''k1'' \<mapsto> sample_key]) jwksTTL (client waiting_sys)\<rparr>)"

definition closed_sys :: jwks_sys where
  "closed_sys = put 0 (Closed None ''k'') (fetched_sys
     \<lparr>client := (client fetched_sys)\<lparr>closedChans := {0}, fetching := None\<rparr>\<rparr>)"

definition woken_sys :: jwks_sys where
  "woken_sys = put 1 (Answered (Inr sample_key)) closed_sys"

definition ended_sys :: jwks_sys where
  "ended_sys = put 0 (Answered (Inl UnknownKeyID)) woken_sys"

definition sample_run :: "nat \<Rightarrow> jwks_sys" where
  "sample_run n = (if n = 0 then waiting_sys else if n = 1 then fetched_sys else if n = 2 then closed_sys
     else if n = 3 then woken_sys else ended_sys)"

lemmas sample_run_defs = ended_sys_def woken_sys_def closed_sys_def fetched_sys_def waiting_sys_def fetching_sys_def init_sys_def

lemma ended_gs: "gs ended_sys = [0 \<mapsto> Answered (Inl UnknownKeyID), 1 \<mapsto> Answered (Inr sample_key)]"
  by (simp add: sample_run_defs fun_eq_iff)

lemma sample_run_steps:
  "jwks_step (\<lambda>_. Some sample_doc) B waiting_sys fetched_sys" "jwks_step (\<lambda>_. Some sample_doc) B fetched_sys closed_sys"
  "jwks_step (\<lambda>_. Some sample_doc) B closed_sys woken_sys" "jwks_step (\<lambda>_. Some sample_doc) B woken_sys ended_sys"
  "jwks_step (\<lambda>_. Some sample_doc) B ended_sys ended_sys"
proof -
  let ?D = "\<lambda>_. Some sample_doc"
  show "jwks_step ?D B waiting_sys fetched_sys"
    using jwks_step.fetched [of waiting_sys 0 jwksTTL "''k''" ?D "Response 200 ''x'' False" None _ B] sample_fetch
    by (simp add: sample_run_defs)
  show "jwks_step ?D B fetched_sys closed_sys"
    using jwks_step.close_ok [of fetched_sys 0 None jwksTTL "''k''" _ ?D B]
    by (simp add: sample_run_defs close_fetching_Return) (simp add: claim_fetch_def newJWKSClient_def)
  have "answer None ''k1'' (client closed_sys) = Inr sample_key"
    by (simp add: sample_run_defs answer_def apply_fetch_def swap_keys_def)
  then show "jwks_step ?D B closed_sys woken_sys"
    using jwks_step.wake [of closed_sys 1 0 "''k1''" ?D B] by (simp add: sample_run_defs)
  have "answer None ''k'' (client woken_sys) = Inl UnknownKeyID"
    by (simp add: sample_run_defs answer_def apply_fetch_def swap_keys_def)
  then show "jwks_step ?D B woken_sys ended_sys"
    using jwks_step.finish [of woken_sys 0 None "''k''" ?D B] by (simp add: sample_run_defs)
  show "jwks_step ?D B ended_sys ended_sys"
    using jwks_step.tick [of 0 ended_sys B ?D] by (auto simp: ended_gs split: if_splits)
qed

lemma answered_stays: "jwks_step dec B s s' \<Longrightarrow> gs s i = Some (Answered r) \<Longrightarrow> gs s' i = Some (Answered r)"
  using own_move [of dec B s s' i "Answered r"] by auto

lemma sample_run_fair: "fair_run (\<lambda>_. Some sample_doc) B sample_run"
proof -
  have step: "jwks_step (\<lambda>_. Some sample_doc) B (sample_run n) (sample_run (Suc n))" for n
  proof -
    consider "n = 0" | "n = 1" | "n = 2" | "n = 3" | "4 \<le> n" by linarith
    then show ?thesis by cases (simp_all add: sample_run_def sample_run_steps del: One_nat_def)
  qed
  moreover have "\<not> can_go (\<lambda>_. Some sample_doc) B (sample_run (n + 4)) i" for n i
  proof -
    have "sample_run (n + 4) = ended_sys" by (simp add: sample_run_def)
    moreover have "\<exists>r. gs ended_sys i = Some (Answered r)" if "gs ended_sys i \<noteq> None"
      using that by (auto simp: ended_gs split: if_splits)
    ultimately show ?thesis using answered_stays by (metis can_go_def)
  qed
  then have "\<exists>m\<ge>n. \<not> can_go (\<lambda>_. Some sample_doc) B (sample_run m) i" for n i
    by (intro exI [of _ "n + 4"]) simp
  ultimately show ?thesis unfolding fair_run_def by blast
qed

theorem calls_return_witness:
  "\<exists>m r. gs (sample_run m) 1 = Some (Answered r) \<and> gs (sample_run 0) 1 = Some (Waiting 0 ''k1'')"
proof -
  have w: "gs (sample_run 0) 1 = Some (Waiting 0 ''k1'')" by (simp add: sample_run_def waiting_sys_def)
  have "jwks_reach (\<lambda>_. Some sample_doc) second (sample_run 0)"
    using waiting_sys_reach [of second] by (simp add: sample_run_def second_def)
  from calls_return [OF sample_run_fair this _ _ w] w show ?thesis
    by (auto simp: second_def jwks_consts)
qed

theorem concurrent_answer_sound_witness:
  "\<exists>E c c'. rely E \<and> jwks_key (\<lambda>_. Some sample_doc) E ''k1'' c = Return (Inr sample_key, c')
    \<and> keys c' ''k1'' = Some sample_key \<and> key_ok sample_key"
proof -
  let ?s = "put 1 (Timed jwksTTL ''k1'') fetching_sys" and ?D = "\<lambda>_. Some sample_doc"
  have r: "jwks_reach ?D second ?s" by (rule timed_waiter_reach) (simp add: second_def)
  have "jwks_steps ?D second ?s ended_sys"
    using timed_waiter_enters sample_run_steps by (meson rtranclp.rtrancl_into_rtrancl rtranclp.rtrancl_refl)
  moreover have "gs ended_sys 1 = Some (Answered (Inr sample_key))" by (simp add: ended_gs)
  moreover have "gs ?s 1 = Some (Timed jwksTTL ''k1'')" by simp
  moreover have "0 < second" "second \<le> jwksMinRefreshInterval" by (simp_all add: jwks_consts duration_defs)
  ultimately show ?thesis using concurrent_answer_sound [OF r] by blast
qed

end
