(* ===== verification/Spec2Isabelle.thy ===== *)
theory Spec2Isabelle
  imports Startup RoutesAgree WriteRate JwksCalls
begin

text \<open>
  A model of the web application template, a Go server with an identity-aware front end, a small
  Runtime Configuration in SQLite and an admin API, and the proofs of what its parts promise.

  \<^bold>\<open>The program.\<close> \<open>cmd/app/main.go\<close> loads the environment, opens and migrates the store, builds an
  identity provider and the request tree, and serves until a signal. A request passes a request id,
  the access log and the security headers, then one mux; probes, metrics and static files are
  answered there, everything else goes through the HTTP metrics, the body limit, the CSRF guard and
  authentication to a second mux with the JSON API and, behind a third, the pages. The two mutations
  pass the rate limiter and the role guard. Authentication verifies a JWT under a key of the
  provider's key set, which a cache fetches and shares between requests.

  \<^bold>\<open>The theories\<close>, in the order of their imports.

  \<^item> \<open>GoPrelude\<close>: what every part uses of the language and the library: calls that panic, 64-bit signed
    integers, times and durations, byte strings, ranging over a map in an unknown order.
  \<^item> \<open>GoJson\<close>: JSON values, decimal digits, fields of an object as encoding/json finds them.
  \<^item> \<open>RateLimiter\<close>: \<open>internal/api/ratelimit.go\<close>. A bucket per subject, sweeps, eviction at the cap, refill
    and take; the locale \<open>token_bucket\<close> says what a limiter promises over a history of calls.
  \<^item> \<open>Jwk\<close>: parsing of key set documents (\<open>internal/auth/jwt.go\<close>, the second half): which RSA and EC
    entries are usable, and what a document contributes.
  \<^item> \<open>JwksClient\<close>: the key cache as one caller sees it: freshness, throttling, fetching, what a failed or
    aborted fetch does. \<open>JwksConcurrent\<close>: the same operation as a transition system of any number of
    callers, with the mutex sections as its steps. \<open>JwksCalls\<close>: the two readings agree, so that what
    \<open>jwks_key\<close> relies on holds of the goroutines of the program, and every call returns.
  \<^item> \<open>Principal\<close>, \<open>GoHttp\<close>: identities; requests, headers, the response writer, recorders, log lines,
    problem responses (\<open>internal/auth/principal.go\<close>, \<open>internal/httputil\<close>, what is used of net/http).
  \<^item> \<open>JwtProvider\<close>: \<open>NewJWTProvider\<close>, \<open>Authenticate\<close>, the key function, error classification, claims.
    \<open>Providers\<close>: the registry and the three providers; the locale \<open>provider\<close>.
  \<^item> \<open>Metrics\<close>: \<open>internal/metrics\<close>: families, series, histograms, the text format.
  \<^item> \<open>Store\<close>: \<open>internal/store\<close> with its migration: \<open>Open\<close>, \<open>migrate\<close>, \<open>ListConfig\<close>, \<open>SetConfig\<close>; the
    locale \<open>config_store\<close>.
  \<^item> \<open>AuthMiddleware\<close>, \<open>World\<close>, \<open>ApiMiddleware\<close>: the middlewares, as transformers of handlers over a state
    that has the response and what all requests share; the locales \<open>guard\<close> and \<open>web_provider\<close>.
  \<^item> \<open>Handlers\<close>: the probes, the JSON API and the pages (\<open>handlers.go\<close>, \<open>internal/ui\<close>, \<open>internal/version\<close>).
  \<^item> \<open>ServeMux\<close>: net/http's mux as far as the patterns of the program use it. \<open>Routes\<close>: the tree.
  \<^item> \<open>Responses\<close>, \<open>Serving\<close>, \<open>Chain\<close>: what a handler may do to a response (the locale \<open>fixed_headers\<close>),
    contracts of handlers, and their composition along the tree. \<open>RouteProperties\<close>: what holds of
    every request. \<open>Mutation\<close>: the decision table of the guards of a mutation, with
    the locale \<open>mutation\<close>; \<open>PutConfig\<close> interprets it for the JSON route and the form route, \<open>ReadBack\<close>
    follows a mutation by a listing, \<open>RoutesAgree\<close> compares the two routes, \<open>WriteRate\<close> carries the
    bound of the limiter through the tree to sequences of requests.
  \<^item> \<open>Config\<close>, \<open>Logger\<close>: \<open>internal/config\<close> and \<open>internal/logger\<close>, with \<open>time.ParseDuration\<close>,
    \<open>net.SplitHostPort\<close>, \<open>strconv.Atoi\<close> and slog's level parser.
  \<^item> \<open>Startup\<close>: \<open>cmd/app/main.go\<close> and \<open>internal/api/server.go\<close>: \<open>main\<close>, \<open>run\<close>, the wiring, and the end of
    the server (listener goroutine, error channel, signals, shutdown) as a transition system.

  \<^bold>\<open>How code and model correspond.\<close> A struct is a record with the source's field names (with a prefix
  where two structs share one), an error result is a sum with the error on the left, a panic is the
  outcome \<open>Panic\<close> or a run that ends in \<open>Panicked\<close> with the state it left, a handler maps a request and
  a state to both, since Go handlers see each other's changes of a shared request. Durations and
  times are integers of nanoseconds, with the saturation and the wrap-around of int64 written out
  where the code can reach them; counters are 64-bit words. A map that is ranged over is an
  association list, and the order of the range is an argument.

  \<^bold>\<open>What the lemmas show.\<close> For the whole server: only an admitted admin changes the configuration, no
  request makes it panic, every response has its headers, every request one log line, nobody without
  a principal gets past the guards, and the two mutations are described completely: what they answer,
  what they store, what is listed afterwards, that they agree, and how often one subject can change the
  configuration in any window of any sequence of requests (of at most as many subjects as there may be
  buckets). For authentication:
  an accepted token was verified under a cached key with the pinned algorithm, the error texts are
  fixed, the cache hands out only usable keys, never runs two fetches at a time as long as a fetch
  ends within the refresh interval (and a counterexample when it does not), and under that bound every
  call returns, waiters included. For the
  limiter: a refinement of the token bucket, a bound on every window as long as the subjects fit under
  the cap of buckets (an evicted bucket comes back full), liveness for the quiet and starvation of
  those who poll. For the store: reads see writes, migrations are all or nothing.
  For the start: the configuration errors are complete, a loaded configuration is well formed, the
  exit code is 0 only after an orderly end.

  \<^bold>\<open>Bounds and termination.\<close> No definition takes fuel. Loops over slices, digits and bytes are
  structural recursions, \<open>duration_loop\<close> and \<open>match_path\<close> terminate because each round shortens the text. Transition
  systems are inductive relations; that serving ends after a signal is a measure of at most five.

  \<^bold>\<open>Arguments.\<close> Code outside the repository is an argument, with what is relied on as a named predicate
  that a concrete instance satisfies: golang-jwt (\<open>jwt_contract\<close>), database/sql with SQLite
  (\<open>driver_ok\<close>, instance \<open>mem_driver\<close>, whose calls can be made to fail), the file server
  (\<open>static_ok\<close>), floats (\<open>float_ops\<close>, instance the rationals), encoding/json, mime, url and html/template (\<open>codecs\<close>),
  the listener and \<open>Server.Shutdown\<close>. What other requests do to the key cache during a call is an argument
  too (\<open>rely\<close>), and proved of the program's own goroutines in \<open>JwksCalls\<close>.

  \<^bold>\<open>Not modelled.\<close> The bytes of JSON and HTML on the wire and the TCP side of net/http; the timeouts a
  Server enforces (they are passed on unchanged); the runtime's memory statistics (an argument);
  the embedded files of \<open>web/\<close> (no code); the Python and TypeScript helpers. Requests of one server run one
  after the other in \<open>World\<close>, except at the key cache, where the interference of others is part of the
  environment, and in \<open>JwksConcurrent\<close>; the limiter and the metrics are used under a mutex and the
  store has one connection, so their operations are atomic in the code too. The wall clock and the
  monotonic clock are one. \<open>Unwrap\<close> of the status recorder returns a field. Writing a response to the
  client does not fail, so the log lines about a failed encoding are left out; what \<open>main\<close> prints on
  stderr before it exits with 1 is not part of its result.
\<close>

end
